(* ===== verification/Prelude.thy ===== *)
theory Prelude
  imports
    Main
    "HOL-Library.AList"
    "HOL-Library.Char_ord"
    "HOL-Library.List_Lexorder"
    "HOL-Library.Multiset"
    "HOL-Library.Sublist"
    "HOL-Library.Word"
begin

text \<open>
  The part of Go and of its standard library that the components share: time and 64-bit
  integers, strings (byte lists), maps with an arbitrary iteration order, buffered channels
  with non-blocking sends, and values of type \<open>any\<close>.

  Conventions used by every theory of the development:
  \<^item> a Go map is a \<open>gomap\<close>, an association list with distinct keys; a \<open>range\<close> loop over a map
    takes the iteration order as an argument, a permutation of the entries, because Go leaves
    it unspecified and randomises it;
  \<^item> every call of \<open>time.Now()\<close> is an argument of the definition, one per call;
  \<^item> an \<open>error\<close> result is an \<open>option\<close> (\<open>None\<close> is \<open>nil\<close>) or the left of a sum;
  \<^item> a nilable slice, map or pointer whose nilness the code observes is an \<open>option\<close>.
\<close>

section \<open>Collections of facts\<close>

named_theorems gomap_simps \<open>lookups in updated Go maps\<close>
named_theorems chan_simps \<open>channel operations, unfolded\<close>
named_theorems inv_intros \<open>preservation of component invariants\<close>

section \<open>Time and 64-bit integers\<close>

text \<open>
  A \<open>time.Time\<close> is the number of nanoseconds since Go's zero time (1 January of the year 1),
  so that \<open>IsZero\<close> is \<open>= 0\<close> and \<open>Before\<close> is \<open><\<close>. A \<open>time.Duration\<close> is an \<open>int64\<close> of
  nanoseconds: an \<open>int\<close> in the 64-bit range, where additions that can overflow are wrapped
  by \<open>wrap64\<close>.
\<close>

type_synonym gotime = int
type_synonym duration = int

definition zero_time :: gotime where "zero_time = 0"

definition is_zero_time :: "gotime \<Rightarrow> bool" where
  "is_zero_time t \<longleftrightarrow> t = zero_time"

definition unix_epoch :: gotime where
  "unix_epoch = 62135596800 * 1000000000"

definition millisecond :: duration where "millisecond = 1000000"
definition second :: duration where "second = 1000000000"

definition wrap64 :: "int \<Rightarrow> int" where
  "wrap64 x = (x + 2 ^ 63) mod 2 ^ 64 - 2 ^ 63"

definition in_int64 :: "int \<Rightarrow> bool" where
  "in_int64 x \<longleftrightarrow> - (2 ^ 63) \<le> x \<and> x < 2 ^ 63"

lemma wrap64_id [simp]: "in_int64 x \<Longrightarrow> wrap64 x = x"
  by (simp add: wrap64_def in_int64_def)

lemma in_int64_wrap64 [simp]: "in_int64 (wrap64 x)"
  by (simp add: wrap64_def in_int64_def)

lemma in_int64I: "- (2 ^ 63) \<le> x \<Longrightarrow> x < 2 ^ 63 \<Longrightarrow> in_int64 x"
  by (simp add: in_int64_def)

section \<open>Strings\<close>

text \<open>
  Go strings are byte strings, and so are HOL's: a \<open>char\<close> is a byte. \<open>strings.ToUpper\<close> and
  \<open>strings.ToLower\<close> work on the UTF-8 decoding; the code only compares their result with
  ASCII keywords. The model maps the ASCII letters and the code points outside ASCII whose
  upper (lower) case is an ASCII letter: U+0131 to I, U+017F to S; U+0130 to i, U+212A to k.
  All other bytes of non-ASCII characters are kept: they can be mapped to other non-ASCII
  bytes by Go, never to ASCII, so a comparison with an ASCII keyword is decided alike.
\<close>

definition char_upper :: "char \<Rightarrow> char" where
  "char_upper c = (let n = (of_char c :: nat)
     in if 97 \<le> n \<and> n \<le> 122 then char_of (n - 32) else c)"

definition char_lower :: "char \<Rightarrow> char" where
  "char_lower c = (let n = (of_char c :: nat)
     in if 65 \<le> n \<and> n \<le> 90 then char_of (n + 32) else c)"

fun go_to_upper :: "string \<Rightarrow> string" where
  "go_to_upper (a # b # cs) =
     (if a = CHR 0xC4 \<and> b = CHR 0xB1 then CHR ''I'' # go_to_upper cs
      else if a = CHR 0xC5 \<and> b = CHR 0xBF then CHR ''S'' # go_to_upper cs
      else char_upper a # go_to_upper (b # cs))"
| "go_to_upper [a] = [char_upper a]"
| "go_to_upper [] = []"

fun go_to_lower :: "string \<Rightarrow> string" where
  "go_to_lower (a # b # c # cs) =
     (if a = CHR 0xC4 \<and> b = CHR 0xB0 then CHR ''i'' # go_to_lower (c # cs)
      else if a = CHR 0xE2 \<and> b = CHR 0x84 \<and> c = CHR 0xAA then CHR ''k'' # go_to_lower cs
      else char_lower a # go_to_lower (b # c # cs))"
| "go_to_lower [a, b] =
     (if a = CHR 0xC4 \<and> b = CHR 0xB0 then ''i'' else [char_lower a, char_lower b])"
| "go_to_lower [a] = [char_lower a]"
| "go_to_lower [] = []"

declare go_to_upper.simps [simp del] go_to_lower.simps [simp del]

text \<open>\<open>strings.HasPrefix\<close>, \<open>strings.TrimPrefix\<close>, and \<open>strings.Split\<close> with a one-byte separator.\<close>

definition has_prefix :: "string \<Rightarrow> string \<Rightarrow> bool" where
  "has_prefix s p \<longleftrightarrow> length p \<le> length s \<and> take (length p) s = p"

definition trim_prefix :: "string \<Rightarrow> string \<Rightarrow> string" where
  "trim_prefix s p = (if has_prefix s p then drop (length p) s else s)"

fun split_on :: "char \<Rightarrow> string \<Rightarrow> string list" where
  "split_on sep [] = [[]]"
| "split_on sep (c # cs) =
     (if c = sep then [] # split_on sep cs
      else case split_on sep cs of
          [] \<Rightarrow> [[c]]
        | p # ps \<Rightarrow> (c # p) # ps)"

lemma has_prefix_iff: "has_prefix s p \<longleftrightarrow> prefix p s"
proof
  assume "has_prefix s p"
  then have "p @ drop (length p) s = s"
    by (metis append_take_drop_id has_prefix_def)
  then show "prefix p s" by (metis prefixI)
next
  assume "prefix p s"
  then show "has_prefix s p" by (auto simp: has_prefix_def prefix_def)
qed

lemma has_prefix_append [simp]: "has_prefix (p @ s) p"
  by (simp add: has_prefix_def)

lemma trim_prefix_append [simp]: "trim_prefix (p @ s) p = s"
  by (simp add: trim_prefix_def)

lemma split_on_nonempty [simp]: "split_on sep s \<noteq> []"
  by (induction s) (auto split: list.splits)

lemma split_on_no_sep: "sep \<notin> set s \<Longrightarrow> split_on sep s = [s]"
  by (induction s) auto

lemma split_on_append:
  "sep \<notin> set a \<Longrightarrow> split_on sep (a @ sep # b) = a # split_on sep b"
  by (induction a) auto

lemma split_on_first: "split_on sep s = q # qs \<Longrightarrow> prefix q s"
  by (induction s arbitrary: q qs) (auto split: if_splits list.splits)

lemma split_on_two: "split_on sep s = a # b # qs \<Longrightarrow> prefix (a @ sep # b) s"
proof (induction s arbitrary: a b qs)
  case (Cons c s)
  obtain p ps where p: "split_on sep s = p # ps" by (cases "split_on sep s") auto
  show ?case
  proof (cases "c = sep")
    case True
    then show ?thesis using Cons.prems p split_on_first[OF p] by simp
  next
    case False
    then show ?thesis using Cons.prems p Cons.IH[of p b qs] by auto
  qed
qed simp

lemma split_on_two_nth:
  "\<not> length (split_on sep s) < 2 \<Longrightarrow> has_prefix s (split_on sep s ! 0 @ sep # split_on sep s ! 1)"
  using split_on_two[of sep s "split_on sep s ! 0" "split_on sep s ! 1" "drop 2 (split_on sep s)"]
  by (simp add: has_prefix_iff) (metis Cons_nth_drop_Suc One_nat_def drop0 linorder_not_le
      numeral_2_eq_2 order_less_le_trans lessI zero_less_Suc not_less)

text \<open>
  \<open>strings.TrimSpace\<close>: the white space of Unicode, in UTF-8. \<open>trim_by ps\<close> drops prefixes from the list
  \<open>ps\<close> as long as there are any; the right end is trimmed in the reversed string.
\<close>

definition go_spaces :: "string list" where
  "go_spaces = map (\<lambda>c. [c]) [CHR 0x09, CHR 0x0A, CHR 0x0B, CHR 0x0C, CHR 0x0D, CHR 0x20] @
     [[CHR 0xC2, CHR 0x85], [CHR 0xC2, CHR 0xA0], [CHR 0xE1, CHR 0x9A, CHR 0x80],
      [CHR 0xE2, CHR 0x80, CHR 0x80], [CHR 0xE2, CHR 0x80, CHR 0x81], [CHR 0xE2, CHR 0x80, CHR 0x82],
      [CHR 0xE2, CHR 0x80, CHR 0x83], [CHR 0xE2, CHR 0x80, CHR 0x84], [CHR 0xE2, CHR 0x80, CHR 0x85],
      [CHR 0xE2, CHR 0x80, CHR 0x86], [CHR 0xE2, CHR 0x80, CHR 0x87], [CHR 0xE2, CHR 0x80, CHR 0x88],
      [CHR 0xE2, CHR 0x80, CHR 0x89], [CHR 0xE2, CHR 0x80, CHR 0x8A], [CHR 0xE2, CHR 0x80, CHR 0xA8],
      [CHR 0xE2, CHR 0x80, CHR 0xA9], [CHR 0xE2, CHR 0x80, CHR 0xAF], [CHR 0xE2, CHR 0x81, CHR 0x9F],
      [CHR 0xE3, CHR 0x80, CHR 0x80]]"

function trim_by :: "string list \<Rightarrow> string \<Rightarrow> string" where
  "trim_by ps s = (case find (\<lambda>p. p \<noteq> [] \<and> has_prefix s p) ps of
     None \<Rightarrow> s | Some p \<Rightarrow> trim_by ps (drop (length p) s))"
  by pat_completeness auto

termination trim_by
proof (relation "measure (length \<circ> snd)", goal_cases)
  case (2 ps s p)
  then have "p \<noteq> []" "has_prefix s p" by (auto simp: find_Some_iff)
  then have "0 < length p" "length p \<le> length s" by (auto simp: has_prefix_def)
  then have "length s - length p < length s" by linarith
  then show ?case by simp
qed simp

declare trim_by.simps [simp del]

definition trim_space :: "string \<Rightarrow> string" where
  "trim_space s = rev (trim_by (map rev go_spaces) (rev (trim_by go_spaces s)))"

section \<open>Maps\<close>

text \<open>
  A Go map as the list of its entries. \<open>go_get\<close>, \<open>go_put\<close> and \<open>go_del\<close> are the indexed read,
  the indexed assignment and \<open>delete\<close>; \<open>go_range m ord\<close> says that \<open>ord\<close> is an order in which
  a \<open>range\<close> loop can visit the entries of \<open>m\<close>.
\<close>

type_synonym ('k, 'v) gomap = "('k \<times> 'v) list"

definition go_get :: "('k, 'v) gomap \<Rightarrow> 'k \<Rightarrow> 'v option" where
  "go_get m k = map_of m k"

definition go_put :: "'k \<Rightarrow> 'v \<Rightarrow> ('k, 'v) gomap \<Rightarrow> ('k, 'v) gomap" where
  "go_put k v m = AList.update k v m"

definition go_del :: "'k \<Rightarrow> ('k, 'v) gomap \<Rightarrow> ('k, 'v) gomap" where
  "go_del k m = AList.delete k m"

definition go_map :: "('k, 'v) gomap \<Rightarrow> bool" where
  "go_map m \<longleftrightarrow> distinct (map fst m)"

definition go_range :: "('k, 'v) gomap \<Rightarrow> ('k \<times> 'v) list \<Rightarrow> bool" where
  "go_range m ord \<longleftrightarrow> mset ord = mset m"

definition go_keys :: "('k, 'v) gomap \<Rightarrow> 'k set" where
  "go_keys m = fst ` set m"

lemma go_get_Nil [gomap_simps, simp]: "go_get [] k = None"
  by (simp add: go_get_def)

lemma go_get_Cons [gomap_simps, simp]:
  "go_get ((a, v) # m) k = (if k = a then Some v else go_get m k)"
  by (simp add: go_get_def)

lemma go_get_put [gomap_simps, simp]:
  "go_get (go_put k v m) k' = (if k = k' then Some v else go_get m k')"
  by (simp add: go_get_def go_put_def update_conv')

lemma go_get_del [gomap_simps, simp]:
  "go_get (go_del k m) k' = (if k = k' then None else go_get m k')"
  by (simp add: go_get_def go_del_def delete_conv')

lemma go_map_Nil [inv_intros, simp]: "go_map []"
  by (simp add: go_map_def)

lemma go_map_put [inv_intros, simp]: "go_map m \<Longrightarrow> go_map (go_put k v m)"
  by (simp add: go_map_def go_put_def distinct_update)

lemma go_map_del [inv_intros, simp]: "go_map m \<Longrightarrow> go_map (go_del k m)"
  by (simp add: go_map_def go_del_def distinct_delete)

lemma go_keys_get: "k \<in> go_keys m \<longleftrightarrow> go_get m k \<noteq> None"
  by (simp add: go_keys_def go_get_def map_of_eq_None_iff)

lemma go_keys_put [gomap_simps, simp]: "go_keys (go_put k v m) = insert k (go_keys m)"
  by (auto simp: go_keys_get split: if_splits)

lemma go_keys_del [gomap_simps, simp]: "go_keys (go_del k m) = go_keys m - {k}"
  by (auto simp: go_keys_get split: if_splits)

lemma go_keys_Nil [simp]: "go_keys [] = {}"
  by (simp add: go_keys_def)

lemma go_get_set: "go_map m \<Longrightarrow> go_get m k = Some v \<longleftrightarrow> (k, v) \<in> set m"
  by (simp add: go_map_def go_get_def)

lemma go_get_in: "go_get m k = Some v \<Longrightarrow> (k, v) \<in> set m"
  by (simp add: go_get_def map_of_SomeD)

lemma go_range_refl [simp]: "go_range m m"
  by (simp add: go_range_def)

lemma go_range_set: "go_range m ord \<Longrightarrow> set ord = set m"
  unfolding go_range_def by (rule mset_eq_setD)

lemma go_range_distinct: "go_map m \<Longrightarrow> go_range m ord \<Longrightarrow> distinct (map fst ord)"
  unfolding go_map_def go_range_def
  by (metis mset_eq_imp_distinct_iff mset_map)

lemma go_range_keys: "go_range m ord \<Longrightarrow> fst ` set ord = go_keys m"
  by (simp add: go_range_set go_keys_def)

lemma go_range_get:
  "go_map m \<Longrightarrow> go_range m ord \<Longrightarrow> (k, v) \<in> set ord \<longleftrightarrow> go_get m k = Some v"
  by (simp add: go_range_set go_get_set)

lemma go_del_absent: "go_get m k = None \<Longrightarrow> go_del k m = m"
  by (auto simp: go_get_def go_del_def AList.delete_eq filter_id_conv map_of_eq_None_iff
        intro!: image_eqI)

text \<open>Two maps are the same Go map when every key reads the same.\<close>

definition go_map_eq :: "('k, 'v) gomap \<Rightarrow> ('k, 'v) gomap \<Rightarrow> bool" where
  "go_map_eq m n \<longleftrightarrow> list_all (\<lambda>k. go_get m k = go_get n k) (map fst m @ map fst n)"

lemma go_map_eq_iff: "go_map_eq m n \<longleftrightarrow> go_get m = go_get n"
proof
  assume eq: "go_map_eq m n"
  show "go_get m = go_get n"
  proof
    fix k
    show "go_get m k = go_get n k"
    proof (cases "k \<in> set (map fst m @ map fst n)")
      case True
      with eq show ?thesis by (auto simp: go_map_eq_def list_all_iff)
    next
      case False
      then show ?thesis by (simp add: go_get_def map_of_eq_None_iff[THEN iffD2])
    qed
  qed
qed (simp add: go_map_eq_def list_all_iff)

section \<open>Values of type any\<close>

text \<open>
  The dynamic values that configurations and log fields hold, as a YAML or JSON decoder builds
  them. A nested map lists its entries sorted by key, so that equality of values is deep
  equality.
\<close>

datatype any =
    AnyNil
  | AnyBool bool
  | AnyInt int
  | AnyString string
  | AnyList "any list"
  | AnyMap "(string \<times> any) list"

type_synonym any_map = "(string, any) gomap option" \<comment> \<open>\<open>map[string]any\<close>, \<open>None\<close> is \<open>nil\<close>\<close>

text \<open>An indexed read of a possibly nil map, and \<open>v, ok := m[k].(string)\<close>.\<close>

definition any_get :: "any_map \<Rightarrow> string \<Rightarrow> any option" where
  "any_get m k = (case m of None \<Rightarrow> None | Some es \<Rightarrow> go_get es k)"

definition any_string :: "any_map \<Rightarrow> string \<Rightarrow> string option" where
  "any_string m k = (case any_get m k of Some (AnyString s) \<Rightarrow> Some s | _ \<Rightarrow> None)"

text \<open>\<open>reflect.DeepEqual\<close> on maps: both nil, or both non-nil with the same entries.\<close>

definition deep_equal_map :: "('k, 'v) gomap option \<Rightarrow> ('k, 'v) gomap option \<Rightarrow> bool" where
  "deep_equal_map a b = (case (a, b) of
       (None, None) \<Rightarrow> True
     | (Some m, Some n) \<Rightarrow> go_map_eq m n
     | _ \<Rightarrow> False)"

lemma deep_equal_map_refl [simp]: "deep_equal_map a a"
  by (simp add: deep_equal_map_def go_map_eq_iff split: option.splits)

lemma deep_equal_map_sym: "deep_equal_map a b \<Longrightarrow> deep_equal_map b a"
  by (auto simp: deep_equal_map_def go_map_eq_iff split: option.splits)

section \<open>Errors, contexts and publishers\<close>

text \<open>
  An opaque \<open>error\<close> value is its message. Of a \<open>context.Context\<close> only whether it is already
  cancelled at the call matters. A publisher is the method \<open>Publish(ctx, topic, msg)\<close> of the
  \<open>EventBus\<close> port: it changes the world and may return an error.
\<close>

type_synonym go_error = string
type_synonym ctx_done = bool

type_synonym ('m, 'w) publisher =
  "ctx_done \<Rightarrow> string \<Rightarrow> 'm \<Rightarrow> 'w \<Rightarrow> 'w \<times> go_error option"

text \<open>Publishing one message on several topics in turn, ignoring the errors.\<close>

fun publish_all :: "('m, 'w) publisher \<Rightarrow> ctx_done \<Rightarrow> string list \<Rightarrow> 'm \<Rightarrow> 'w \<Rightarrow> 'w" where
  "publish_all pub ctx [] m w = w"
| "publish_all pub ctx (t # ts) m w = publish_all pub ctx ts m (fst (pub ctx t m w))"

lemma publish_all_append [simp]:
  "publish_all pub ctx (ts @ us) m w = publish_all pub ctx us m (publish_all pub ctx ts m w)"
  by (induction ts arbitrary: w) auto

section \<open>Channels\<close>

text \<open>
  A buffered channel: its buffer, its capacity and whether it has been closed. A send inside
  a \<open>select\<close> with a \<open>default\<close> case (\<open>chan_try_send\<close>) succeeds, finds the buffer full, or
  panics because the channel is closed; a receive yields an element, blocks, or reports that
  the channel is closed and drained (Go's zero value).
\<close>

record 'm chan =
  c_buf :: "'m list"
  c_cap :: nat
  c_closed :: bool

datatype 'm send_result = Sent "'m chan" | WouldBlock | SendPanic

datatype 'm recv_result = Received 'm "'m chan" | RecvBlocks | RecvClosed

definition make_chan :: "nat \<Rightarrow> 'm chan" where
  "make_chan n = \<lparr>c_buf = [], c_cap = n, c_closed = False\<rparr>"

definition chan_try_send :: "'m \<Rightarrow> 'm chan \<Rightarrow> 'm send_result" where
  "chan_try_send m c =
     (if c_closed c then SendPanic
      else if length (c_buf c) < c_cap c then Sent (c\<lparr>c_buf := c_buf c @ [m]\<rparr>)
      else WouldBlock)"

definition chan_try_recv :: "'m chan \<Rightarrow> 'm recv_result" where
  "chan_try_recv c =
     (case c_buf c of
        x # xs \<Rightarrow> Received x (c\<lparr>c_buf := xs\<rparr>)
      | [] \<Rightarrow> if c_closed c then RecvClosed else RecvBlocks)"

definition chan_close :: "'m chan \<Rightarrow> 'm chan" where
  "chan_close c = c\<lparr>c_closed := True\<rparr>"

definition chan_ok :: "'m chan \<Rightarrow> bool" where
  "chan_ok c \<longleftrightarrow> length (c_buf c) \<le> c_cap c"

lemma chan_ok_make [inv_intros, simp]: "chan_ok (make_chan n)"
  by (simp add: chan_ok_def make_chan_def)

lemma chan_ok_send [inv_intros]: "chan_ok c \<Longrightarrow> chan_try_send m c = Sent c' \<Longrightarrow> chan_ok c'"
  by (auto simp: chan_ok_def chan_try_send_def split: if_splits)

lemma chan_ok_recv [inv_intros]: "chan_ok c \<Longrightarrow> chan_try_recv c = Received m c' \<Longrightarrow> chan_ok c'"
  by (auto simp: chan_ok_def chan_try_recv_def split: list.splits if_splits)

lemma chan_ok_close [inv_intros, simp]: "chan_ok (chan_close c) = chan_ok c"
  by (simp add: chan_ok_def chan_close_def)

lemma chan_send_Sent:
  "chan_try_send m c = Sent c' \<longleftrightarrow>
     \<not> c_closed c \<and> length (c_buf c) < c_cap c \<and> c' = c\<lparr>c_buf := c_buf c @ [m]\<rparr>"
  by (auto simp: chan_try_send_def)

lemma chan_send_Panic [chan_simps]: "chan_try_send m c = SendPanic \<longleftrightarrow> c_closed c"
  by (auto simp: chan_try_send_def)

lemma chan_send_WouldBlock [chan_simps]:
  "chan_try_send m c = WouldBlock \<longleftrightarrow> \<not> c_closed c \<and> c_cap c \<le> length (c_buf c)"
  by (auto simp: chan_try_send_def)

lemma chan_recv_Received:
  "chan_try_recv c = Received m c' \<longleftrightarrow>
     (\<exists>ms. c_buf c = m # ms \<and> c' = c\<lparr>c_buf := ms\<rparr>)"
  by (auto simp: chan_try_recv_def split: list.splits)

lemma chan_make_fields [chan_simps, simp]:
  "c_buf (make_chan n) = []" "c_cap (make_chan n) = n" "\<not> c_closed (make_chan n)"
  by (simp_all add: make_chan_def)

lemma chan_close_fields [chan_simps, simp]:
  "c_buf (chan_close c) = c_buf c" "c_cap (chan_close c) = c_cap c" "c_closed (chan_close c)"
  by (simp_all add: chan_close_def)

section \<open>Runs of a step relation\<close>

lemma run1: "r a b \<Longrightarrow> rtranclp r a b"
  by (rule r_into_rtranclp)

lemma run2: "r a b \<Longrightarrow> r b c \<Longrightarrow> rtranclp r a c"
  by (erule converse_rtranclp_into_rtranclp) (rule run1)

lemma run3: "r a b \<Longrightarrow> r b c \<Longrightarrow> r c d \<Longrightarrow> rtranclp r a d"
  by (erule converse_rtranclp_into_rtranclp) (rule run2)

lemma run4: "r a b \<Longrightarrow> r b c \<Longrightarrow> r c d \<Longrightarrow> r d e \<Longrightarrow> rtranclp r a e"
  by (erule converse_rtranclp_into_rtranclp) (rule run3)

lemma run5: "r a b \<Longrightarrow> r b c \<Longrightarrow> r c d \<Longrightarrow> r d e \<Longrightarrow> r e f \<Longrightarrow> rtranclp r a f"
  by (erule converse_rtranclp_into_rtranclp) (rule run4)

lemmas runs = run1 run2 run3 run4 run5

end
