(* ===== verification/Go_Float.thy ===== *)
theory Go_Float
  imports Prelude "HOL-Library.Log_Nat"
begin

text \<open>
  Go's \<open>float64\<close>, as far as the backoff computations use it: IEEE 754 double precision with
  round-to-nearest-even, over exact rationals. Signed zeros are identified (no operation used
  here observes the sign of a zero). The conversion of a value that does not fit an \<open>int64\<close> is
  implementation-dependent in Go, so it is a parameter, with the two common targets as
  instances.
\<close>

section \<open>Values and rounding\<close>

datatype f64 = NaN | PInf | NInf | Fin rat

definition floor_log2 :: "rat \<Rightarrow> int" where
  "floor_log2 x = (let (n, d) = quotient_of x; k = bitlen n - bitlen d
     in if 2 powi k \<le> x then k else k - 1)"

definition round_half_even :: "rat \<Rightarrow> int" where
  "round_half_even r = (let f = \<lfloor>r\<rfloor>; rest = r - of_int f
     in if rest < 1 / 2 then f
        else if 1 / 2 < rest then f + 1
        else if even f then f else f + 1)"

text \<open>The least power of two beyond the largest finite value.\<close>

definition f64_limit :: rat where "f64_limit = 2 ^ 1024"

definition round64 :: "rat \<Rightarrow> f64" where
  "round64 x =
     (if x = 0 then Fin 0
      else let a = \<bar>x\<bar>; e = max (- 1074) (floor_log2 a - 52);
               v = of_int (round_half_even (a / 2 powi e)) * 2 powi e
           in if f64_limit \<le> v then (if 0 < x then PInf else NInf)
              else Fin (if 0 < x then v else - v))"

section \<open>Operations\<close>

definition f64_of_int :: "int \<Rightarrow> f64" where
  "f64_of_int i = round64 (of_int i)"

fun f64_mul :: "f64 \<Rightarrow> f64 \<Rightarrow> f64" where
  "f64_mul NaN _ = NaN"
| "f64_mul _ NaN = NaN"
| "f64_mul (Fin a) (Fin b) = round64 (a * b)"
| "f64_mul PInf (Fin b) = (if b = 0 then NaN else if 0 < b then PInf else NInf)"
| "f64_mul NInf (Fin b) = (if b = 0 then NaN else if 0 < b then NInf else PInf)"
| "f64_mul (Fin a) PInf = (if a = 0 then NaN else if 0 < a then PInf else NInf)"
| "f64_mul (Fin a) NInf = (if a = 0 then NaN else if 0 < a then NInf else PInf)"
| "f64_mul PInf PInf = PInf"
| "f64_mul PInf NInf = NInf"
| "f64_mul NInf PInf = NInf"
| "f64_mul NInf NInf = PInf"

text \<open>Subtraction of, and division by, a finite nonzero constant.\<close>

fun f64_sub_const :: "f64 \<Rightarrow> rat \<Rightarrow> f64" where
  "f64_sub_const (Fin a) c = round64 (a - c)"
| "f64_sub_const x c = x"

fun f64_div_const :: "f64 \<Rightarrow> rat \<Rightarrow> f64" where
  "f64_div_const (Fin a) c = round64 (a / c)"
| "f64_div_const PInf c = (if 0 < c then PInf else NInf)"
| "f64_div_const NInf c = (if 0 < c then NInf else PInf)"
| "f64_div_const NaN c = NaN"

text \<open>Comparisons with a constant are false on NaN.\<close>

fun f64_le_const :: "f64 \<Rightarrow> rat \<Rightarrow> bool" where
  "f64_le_const (Fin a) c \<longleftrightarrow> a \<le> c"
| "f64_le_const NInf c \<longleftrightarrow> True"
| "f64_le_const PInf c \<longleftrightarrow> False"
| "f64_le_const NaN c \<longleftrightarrow> False"

fun f64_lt_const :: "f64 \<Rightarrow> rat \<Rightarrow> bool" where
  "f64_lt_const (Fin a) c \<longleftrightarrow> a < c"
| "f64_lt_const NInf c \<longleftrightarrow> True"
| "f64_lt_const PInf c \<longleftrightarrow> False"
| "f64_lt_const NaN c \<longleftrightarrow> False"

fun f64_gt_const :: "f64 \<Rightarrow> rat \<Rightarrow> bool" where
  "f64_gt_const (Fin a) c \<longleftrightarrow> c < a"
| "f64_gt_const PInf c \<longleftrightarrow> True"
| "f64_gt_const NInf c \<longleftrightarrow> False"
| "f64_gt_const NaN c \<longleftrightarrow> False"

text \<open>
  \<open>int64(x)\<close> discards the fraction; a value out of range gives what the target's conversion
  instruction gives, the function \<open>oor\<close>. On amd64 it is always the least \<open>int64\<close>; on arm64
  it saturates, and NaN gives 0.
\<close>

definition trunc_rat :: "rat \<Rightarrow> int" where
  "trunc_rat r = (if 0 \<le> r then \<lfloor>r\<rfloor> else - \<lfloor>- r\<rfloor>)"

definition f64_to_int64 :: "(f64 \<Rightarrow> int) \<Rightarrow> f64 \<Rightarrow> int" where
  "f64_to_int64 oor x = (case x of
       Fin r \<Rightarrow> if in_int64 (trunc_rat r) then trunc_rat r else oor x
     | _ \<Rightarrow> oor x)"

definition oor_amd64 :: "f64 \<Rightarrow> int" where
  "oor_amd64 x = - (2 ^ 63)"

fun oor_arm64 :: "f64 \<Rightarrow> int" where
  "oor_arm64 NaN = 0"
| "oor_arm64 PInf = 2 ^ 63 - 1"
| "oor_arm64 NInf = - (2 ^ 63)"
| "oor_arm64 (Fin r) = (if 0 \<le> r then 2 ^ 63 - 1 else - (2 ^ 63))"

section \<open>Exactness\<close>

text \<open>\<open>floor_log2\<close> is the integer part of the binary logarithm.\<close>

lemma floor_log2_bounds:
  assumes "0 < x"
  shows "2 powi floor_log2 x \<le> x" and "x < 2 powi (floor_log2 x + 1)"
proof -
  obtain n d where q: "quotient_of x = (n, d)" by fastforce
  have d: "0 < d" using quotient_of_denom_pos[OF q] .
  have x: "x = of_int n / of_int d" using quotient_of_div[OF q] .
  have n: "0 < n" using assms d x by (simp add: zero_less_divide_iff)
  have pos: "0 < bitlen n" "0 < bitlen d"
    using n d by (auto simp: bitlen_def floorlog_def add_pos_nonneg)
  have nb: "2 ^ nat (bitlen n - 1) \<le> n" "n < 2 ^ nat (bitlen n)"
    using bitlen_bounds[OF n] by auto
  have db: "2 ^ nat (bitlen d - 1) \<le> d" "d < 2 ^ nat (bitlen d)"
    using bitlen_bounds[OF d] by auto
  have powi: "of_int (2 ^ nat j) = (2 powi j :: rat)" if "0 \<le> j" for j
    using that by (simp add: power_int_def)
  have n1: "2 powi (bitlen n - 1) \<le> (of_int n :: rat)" "(of_int n :: rat) < 2 powi bitlen n"
    using nb pos by (simp_all flip: powi)
  have d1: "2 powi (bitlen d - 1) \<le> (of_int d :: rat)" "(of_int d :: rat) < 2 powi bitlen d"
    using db pos by (simp_all flip: powi)
  have dpos: "(0::rat) < of_int d" using d by simp
  have up: "x < 2 powi (bitlen n - bitlen d + 1)"
  proof -
    have "(of_int n :: rat) < 2 powi (bitlen n - bitlen d + 1) * 2 powi (bitlen d - 1)"
      using n1(2) by (simp flip: power_int_add)
    also have "\<dots> \<le> 2 powi (bitlen n - bitlen d + 1) * (of_int d :: rat)"
      using d1(1) by (intro mult_left_mono) auto
    finally show ?thesis using dpos by (simp add: x divide_simps)
  qed
  have low: "2 powi (bitlen n - bitlen d - 1) < x"
  proof -
    have "2 powi (bitlen n - bitlen d - 1) * (of_int d :: rat)
        < 2 powi (bitlen n - bitlen d - 1) * 2 powi bitlen d"
      using d1(2) by (intro mult_strict_left_mono) auto
    also have "\<dots> = 2 powi (bitlen n - 1)" by (simp flip: power_int_add)
    also have "\<dots> \<le> of_int n" by (rule n1)
    finally show ?thesis using dpos by (simp add: x divide_simps)
  qed
  show "2 powi floor_log2 x \<le> x" "x < 2 powi (floor_log2 x + 1)"
    using up low by (auto simp: floor_log2_def q Let_def)
qed

lemma round_half_even_of_int [simp]: "round_half_even (of_int i) = i"
  by (simp add: round_half_even_def)

text \<open>
  A positive value with at most 53 significant bits that is a multiple of the least subnormal is
  exact below \<open>2 ^ 1024\<close> and overflows to infinity from there on.
\<close>

lemma round64_dyadic:
  assumes "x = of_int i * 2 powi k" and "0 < i" and "i < 2 ^ 53" and "- 1074 \<le> k"
  shows "round64 x = (if x < f64_limit then Fin x else PInf)"
proof -
  have xpos: "0 < x" using assms(1,2) by simp
  define e where "e = max (- 1074) (floor_log2 x - 52)"
  have "2 powi floor_log2 x \<le> x" by (rule floor_log2_bounds(1)[OF xpos])
  also have "x < of_int (2 ^ 53) * 2 powi k"
    unfolding assms(1) using assms(3)
    by (intro mult_strict_right_mono) (simp_all only: of_int_less_iff zero_less_power_int zero_less_numeral)
  also have "of_int (2 ^ 53) * 2 powi k = (2 powi (53 + k) :: rat)" by (simp add: power_int_add)
  finally have "floor_log2 x < 53 + k"
    by (metis not_le one_le_numeral power_int_increasing)
  then have le: "e \<le> k" using assms(4) by (simp add: e_def)
  have "x / 2 powi e = of_int i * 2 powi (k - e)"
    by (simp add: assms(1) power_int_diff)
  also have "\<dots> = of_int (i * 2 ^ nat (k - e))"
    using le by (simp add: power_int_def)
  finally have q: "x / 2 powi e = of_int (i * 2 ^ nat (k - e))" .
  then have "of_int (round_half_even (x / 2 powi e)) * 2 powi e = x"
    by (metis (no_types, lifting) nonzero_eq_divide_eq power_int_not_zero round_half_even_of_int
        zero_neq_numeral)
  then show ?thesis
    using xpos by (simp add: round64_def Let_def flip: e_def)
qed

lemma pow2_lt_limit [simp]: "2 ^ n < f64_limit \<longleftrightarrow> n < 1024"
  unfolding f64_limit_def by (rule power_strict_increasing_iff) simp

lemma of_int_lt_pow2: "i < 2 ^ n \<Longrightarrow> (of_int i :: rat) < 2 ^ n"
  using of_int_less_iff[of i "2 ^ n", where ?'a = rat] by (simp only: of_int_power of_int_numeral)

lemma int_lt_limit:
  assumes "i < 2 ^ n" and "n \<le> 1024"
  shows "of_int i < f64_limit"
proof -
  have "(of_int i :: rat) < 2 ^ n" using assms(1) by (rule of_int_lt_pow2)
  also have "\<dots> \<le> f64_limit"
    unfolding f64_limit_def using assms(2) by (rule power_increasing) simp
  finally show ?thesis .
qed

lemma round64_int:
  assumes "0 < i" and "i < 2 ^ 53"
  shows "round64 (of_int i) = Fin (of_int i)"
  using round64_dyadic[where i = i and k = 0 and x = "of_int i"] assms
    int_lt_limit[OF assms(2)] by simp

text \<open>Doubling a dyadic value, with the overflow.\<close>

lemma round64_shift:
  assumes "0 < i" and "i < 2 ^ 53"
  shows "round64 (of_int i * 2 ^ n) = (if of_int i * 2 ^ n < f64_limit
     then Fin (of_int i * 2 ^ n) else PInf)"
  by (rule round64_dyadic[where i = i and k = "int n"]) (use assms in \<open>simp_all add: power_int_def\<close>)

lemma trunc_rat_of_int [simp]: "trunc_rat (of_int i) = i"
  by (simp add: trunc_rat_def flip: of_int_minus)

lemma in_int64_to_int64:
  "(\<And>y. in_int64 (oor y)) \<Longrightarrow> in_int64 (f64_to_int64 oor x)"
  by (simp add: f64_to_int64_def split: f64.splits)

lemma in_int64_oor [simp]: "in_int64 (oor_amd64 x)" "in_int64 (oor_arm64 x)"
  by (simp add: oor_amd64_def in_int64_def) (cases x; simp add: in_int64_def)

end
