(* ===== verification/Backoff.thy ===== *)
theory Backoff
  imports Go_Float
begin

text \<open>
  The exponential backoff with jitter, which \<open>platform/runtime\<close> declares twice: in
  \<open>supervisor_gen.go\<close> (jitter from a random generator) and in \<open>process_runner_gen.go\<close> (jitter from
  the wall clock). The random draw, the clock reading and the target's behaviour on a float
  conversion out of range are arguments.
\<close>

section \<open>Policies\<close>

record backoff_policy =
  b_Min :: duration
  b_Max :: duration
  b_Factor :: f64
  b_Jitter :: f64

definition zero_policy :: backoff_policy where
  "zero_policy = \<lparr>b_Min = 0, b_Max = 0, b_Factor = Fin 0, b_Jitter = Fin 0\<rparr>"

definition with_defaults :: "backoff_policy \<Rightarrow> backoff_policy" where
  "with_defaults b =
     \<lparr>b_Min = (if b_Min b \<le> 0 then 100 * millisecond else b_Min b),
      b_Max = (if b_Max b \<le> 0 then 30 * second else b_Max b),
      b_Factor = (if f64_le_const (b_Factor b) 0 then Fin 2 else b_Factor b),
      b_Jitter = (let j = (if f64_lt_const (b_Jitter b) 0 then Fin 0 else b_Jitter b)
                  in if f64_gt_const j 1 then Fin 1 else j)\<rparr>"

lemma with_defaults_positive: "0 < b_Min (with_defaults b)" "0 < b_Max (with_defaults b)"
  by (auto simp: with_defaults_def millisecond_def second_def)

lemma with_defaults_jitter:
  "\<not> f64_lt_const (b_Jitter (with_defaults b)) 0 \<and> \<not> f64_gt_const (b_Jitter (with_defaults b)) 1"
  by (cases "b_Jitter b") (auto simp: with_defaults_def Let_def)

lemma with_defaults_idem: "with_defaults (with_defaults b) = with_defaults b"
  by (cases "b_Jitter b"; cases "b_Factor b")
    (auto simp: with_defaults_def Let_def millisecond_def second_def)

lemma with_defaults_zero:
  "with_defaults zero_policy =
     \<lparr>b_Min = 100 * millisecond, b_Max = 30 * second, b_Factor = Fin 2, b_Jitter = Fin 0\<rparr>"
  by (simp add: with_defaults_def zero_policy_def Let_def)

section \<open>The two duration functions\<close>

definition cap_at :: "duration \<Rightarrow> duration \<Rightarrow> duration" where
  "cap_at mx d = (if d > mx then mx else d)"

definition raise_to :: "duration \<Rightarrow> duration \<Rightarrow> duration" where
  "raise_to mn d = (if d < mn then mn else d)"

text \<open>\<open>pow(a, n)\<close>: \<open>n\<close> multiplications, none when \<open>n\<close> is not positive.\<close>

fun pow_loop :: "f64 \<Rightarrow> nat \<Rightarrow> f64 \<Rightarrow> f64" where
  "pow_loop a 0 out = out"
| "pow_loop a (Suc n) out = pow_loop a n (f64_mul out a)"

definition go_pow :: "f64 \<Rightarrow> int \<Rightarrow> f64" where
  "go_pow a n = pow_loop a (nat n) (Fin 1)"

definition sup_duration :: "(f64 \<Rightarrow> int) \<Rightarrow> backoff_policy \<Rightarrow> int \<Rightarrow> f64 \<Rightarrow> duration" where
  "sup_duration oor b0 attempt u =
     (let b = with_defaults b0;
          ex = f64_mul (f64_of_int (b_Min b)) (go_pow (b_Factor b) (attempt - 1));
          d = cap_at (b_Max b) (f64_to_int64 oor ex)
      in if f64_gt_const (b_Jitter b) 0
         then let j = f64_mul (f64_sub_const (f64_mul u (Fin 2)) 1) (b_Jitter b);
                  delta = f64_to_int64 oor (f64_mul (f64_of_int d) j)
              in cap_at (b_Max b) (raise_to (b_Min b) (wrap64 (d + delta)))
         else d)"

text \<open>Go's \<open>%\<close> truncates towards zero.\<close>

definition go_rem :: "int \<Rightarrow> int \<Rightarrow> int" where
  "go_rem a b = a - b * (sgn a * sgn b * (\<bar>a\<bar> div \<bar>b\<bar>))"

text \<open>The second declaration repeats the defaults, assignment by assignment; it is the same function.\<close>

definition pr_with_defaults :: "backoff_policy \<Rightarrow> backoff_policy" where
  "pr_with_defaults b =
     (let out = b;
          out = (if b_Min out \<le> 0 then out\<lparr>b_Min := 100 * millisecond\<rparr> else out);
          out = (if b_Max out \<le> 0 then out\<lparr>b_Max := 30 * second\<rparr> else out);
          out = (if f64_le_const (b_Factor out) 0 then out\<lparr>b_Factor := Fin 2\<rparr> else out);
          out = (if f64_lt_const (b_Jitter out) 0 then out\<lparr>b_Jitter := Fin 0\<rparr> else out);
          out = (if f64_gt_const (b_Jitter out) 1 then out\<lparr>b_Jitter := Fin 1\<rparr> else out)
      in out)"

lemma pr_with_defaults_same [simp]: "pr_with_defaults b = with_defaults b"
  by (rule backoff_policy.equality) (simp_all add: pr_with_defaults_def with_defaults_def Let_def)

definition pr_duration :: "(f64 \<Rightarrow> int) \<Rightarrow> backoff_policy \<Rightarrow> int \<Rightarrow> int \<Rightarrow> duration" where
  "pr_duration oor b0 attempt nano =
     (let b = pr_with_defaults b0;
          ex = pow_loop (b_Factor b) (nat (attempt - 1)) (f64_of_int (b_Min b));
          d = cap_at (b_Max b) (f64_to_int64 oor ex)
      in if f64_gt_const (b_Jitter b) 0
         then let j = f64_div_const (f64_of_int (go_rem nano 2000 - 1000)) 1000;
                  delta = f64_to_int64 oor (f64_mul (f64_mul (f64_of_int d) j) (b_Jitter b))
              in cap_at (b_Max b) (raise_to (b_Min b) (wrap64 (d + delta)))
         else d)"

section \<open>The contract both keep\<close>

text \<open>
  What a caller that sleeps for a backoff relies on: never longer than the maximum and, with
  jitter on and a minimum below the maximum, never shorter than the minimum.
\<close>

locale backoff =
  fixes dur :: "backoff_policy \<Rightarrow> int \<Rightarrow> 'r \<Rightarrow> duration"
  assumes dur_max: "dur b n r \<le> b_Max (with_defaults b)"
    and dur_min: "f64_gt_const (b_Jitter (with_defaults b)) 0 \<Longrightarrow>
      b_Min (with_defaults b) \<le> b_Max (with_defaults b) \<Longrightarrow>
      b_Min (with_defaults b) \<le> dur b n r"
begin

lemma dur_window:
  assumes "f64_gt_const (b_Jitter (with_defaults b)) 0"
    and "b_Min (with_defaults b) \<le> b_Max (with_defaults b)"
  shows "dur b n r \<in> {b_Min (with_defaults b) .. b_Max (with_defaults b)}"
  using dur_max dur_min[OF assms] by simp

lemma dur_positive:
  assumes "f64_gt_const (b_Jitter (with_defaults b)) 0"
    and "b_Min (with_defaults b) \<le> b_Max (with_defaults b)"
  shows "0 < dur b n r"
  using with_defaults_positive(1)[of b] dur_min[OF assms, of n r] by linarith

lemma sleeps_bounded:
  assumes "0 \<le> b_Max (with_defaults b)"
  shows "sum_list (map (\<lambda>(n, r). dur b n r) rs) \<le> int (length rs) * b_Max (with_defaults b)"
proof (induction rs)
  case (Cons x rs)
  then show ?case using dur_max[of b "fst x" "snd x"] by (simp add: case_prod_beta algebra_simps)
qed simp

end

interpretation sup_backoff: backoff "sup_duration oor"
  by unfold_locales (auto simp: sup_duration_def cap_at_def raise_to_def Let_def)

interpretation pr_backoff: backoff "pr_duration oor"
  by unfold_locales (auto simp: pr_duration_def cap_at_def raise_to_def Let_def)

section \<open>The factor two, exactly\<close>

lemma pow_loop_inf: "pow_loop (Fin 2) n PInf = PInf"
  by (induction n) simp_all

lemma pow_loop_2:
  assumes "0 < i" and "i < 2 ^ 53"
  shows "of_int i * 2 ^ k < f64_limit \<Longrightarrow>
    pow_loop (Fin 2) n (Fin (of_int i * 2 ^ k)) =
    (if of_int i * 2 ^ (k + n) < f64_limit then Fin (of_int i * 2 ^ (k + n)) else PInf)"
proof (induction n arbitrary: k)
  case 0
  then show ?case by simp
next
  case (Suc n)
  have mul: "f64_mul (Fin (of_int i * 2 ^ k)) (Fin 2) =
      (if of_int i * 2 ^ Suc k < f64_limit then Fin (of_int i * 2 ^ Suc k) else PInf)"
    using round64_shift[OF assms, of "Suc k"] by (simp only: f64_mul.simps power_Suc2 mult.assoc)
  show ?case
  proof (cases "of_int i * 2 ^ Suc k < f64_limit")
    case True
    then show ?thesis using Suc.IH[OF True] mul by (simp add: add.commute)
  next
    case False
    have "of_int i * 2 ^ Suc k \<le> (of_int i * 2 ^ (k + Suc n) :: rat)"
      using assms(1) by (intro mult_left_mono power_increasing) auto
    then show ?thesis using False mul by (simp add: pow_loop_inf)
  qed
qed

lemma go_pow_2: "go_pow (Fin 2) n = (if nat n < 1024 then Fin (2 ^ nat n) else PInf)"
  using pow_loop_2[of 1 0 "nat n"] pow2_lt_limit[of 0] by (simp add: go_pow_def)

definition doubled :: "int \<Rightarrow> nat \<Rightarrow> f64" where
  "doubled m n = (if of_int m * 2 ^ n < f64_limit then Fin (of_int m * 2 ^ n) else PInf)"

lemma sup_exp_2:
  assumes "0 < m" and "m < 2 ^ 53"
  shows "f64_mul (f64_of_int m) (go_pow (Fin 2) n) = doubled m (nat n)"
proof (cases "nat n < 1024")
  case True
  then show ?thesis
    using assms by (simp add: go_pow_2 f64_of_int_def round64_int round64_shift doubled_def)
next
  case False
  have "f64_limit \<le> 1 * 2 ^ nat n" using False by (simp flip: not_less)
  also have "\<dots> \<le> of_int m * 2 ^ nat n"
    using assms(1) by (intro mult_right_mono) auto
  finally have "\<not> of_int m * 2 ^ nat n < f64_limit" by simp
  then show ?thesis
    using assms False by (simp add: go_pow_2 f64_of_int_def round64_int doubled_def)
qed

lemma pr_exp_2:
  assumes "0 < m" and "m < 2 ^ 53"
  shows "pow_loop (Fin 2) n (f64_of_int m) = doubled m n"
proof -
  have "of_int m * 2 ^ 0 < f64_limit"
    using int_lt_limit[OF assms(2)] by simp
  then show ?thesis
    using pow_loop_2[OF assms, of 0 n] assms by (simp add: f64_of_int_def round64_int doubled_def)
qed

lemma doubled_to_int64:
  assumes "0 < m"
  shows "m * 2 ^ n < 2 ^ 63 \<Longrightarrow> f64_to_int64 oor (doubled m n) = m * 2 ^ n"
    and "2 ^ 63 \<le> m * 2 ^ n \<Longrightarrow> f64_to_int64 oor (doubled m n) = oor (doubled m n)"
proof -
  have eq: "of_int m * 2 ^ n = (of_int (m * 2 ^ n) :: rat)" by simp
  have tr: "trunc_rat (of_int m * 2 ^ n) = m * 2 ^ n"
    unfolding eq by (rule trunc_rat_of_int)
  have nn: "0 \<le> m * 2 ^ n" using assms by simp
  show "f64_to_int64 oor (doubled m n) = m * 2 ^ n" if lt: "m * 2 ^ n < 2 ^ 63"
  proof -
    have "doubled m n = Fin (of_int m * 2 ^ n)"
      using int_lt_limit[OF lt] by (simp add: doubled_def)
    moreover have "in_int64 (m * 2 ^ n)" using lt nn by (simp add: in_int64_def)
    ultimately show ?thesis by (simp add: f64_to_int64_def tr)
  qed
  show "f64_to_int64 oor (doubled m n) = oor (doubled m n)" if ge: "2 ^ 63 \<le> m * 2 ^ n"
  proof -
    have "\<not> in_int64 (m * 2 ^ n)" using ge by (simp add: in_int64_def)
    then show ?thesis by (simp add: f64_to_int64_def doubled_def tr)
  qed
qed

lemma with_defaults_jitterless:
  "\<not> f64_gt_const (b_Jitter b) 0 \<Longrightarrow> \<not> f64_gt_const (b_Jitter (with_defaults b)) 0"
  by (cases "b_Jitter b") (auto simp: with_defaults_def Let_def)

text \<open>Without jitter and with the factor two both functions are the capped conversion of a power.\<close>

lemma durations_doubled:
  assumes "b_Factor (with_defaults b) = Fin 2"
    and "\<not> f64_gt_const (b_Jitter (with_defaults b)) 0"
    and "b_Min (with_defaults b) < 2 ^ 53"
  shows "sup_duration oor b n u = cap_at (b_Max (with_defaults b))
      (f64_to_int64 oor (doubled (b_Min (with_defaults b)) (nat (n - 1))))"
    and "pr_duration oor b n t = cap_at (b_Max (with_defaults b))
      (f64_to_int64 oor (doubled (b_Min (with_defaults b)) (nat (n - 1))))"
  using assms sup_exp_2[OF with_defaults_positive(1) assms(3)]
    pr_exp_2[OF with_defaults_positive(1) assms(3)]
  by (simp_all add: sup_duration_def pr_duration_def Let_def)

section \<open>Properties of the backoff\<close>



text \<open>
  C37: With the factor two and no jitter, as long as the exponential fits an int64, the delay of the
  n-th attempt is exactly the minimum doubled n-1 times and capped at the maximum, and the two
  implementations agree.
\<close>
theorem backoff_doubles:
  assumes "0 < b_Min b" and "b_Min b < 2 ^ 53" and "0 < b_Max b"
    and "b_Factor b = Fin 2" and "\<not> f64_gt_const (b_Jitter b) 0"
    and "b_Min b * 2 ^ nat (n - 1) < 2 ^ 63"
  shows "sup_duration oor b n u = min (b_Min b * 2 ^ nat (n - 1)) (b_Max b) \<and>
         pr_duration oor b n t = sup_duration oor b n u"
proof -
  have d: "b_Min (with_defaults b) = b_Min b" "b_Max (with_defaults b) = b_Max b"
      "b_Factor (with_defaults b) = Fin 2"
    using assms by (simp_all add: with_defaults_def)
  show ?thesis
    using durations_doubled[OF d(3) with_defaults_jitterless[OF assms(5)]] assms(2)
      doubled_to_int64(1)[OF assms(1,6)]
    by (simp add: d cap_at_def min_def)
qed

theorem backoff_doubles_witness:
  "sup_duration oor_amd64 \<lparr>b_Min = 100, b_Max = 5000, b_Factor = Fin 2, b_Jitter = Fin 0\<rparr> 4 (Fin 0) = 800"
  using backoff_doubles[of "\<lparr>b_Min = 100, b_Max = 5000, b_Factor = Fin 2, b_Jitter = Fin 0\<rparr>" 4
      oor_amd64 "Fin 0" 0]
  by simp

text \<open>
  C38: The default policy (100 ms doubling up to 30 s, no jitter), which the site domain's workers
  run with, breaks on amd64 from the 38th attempt on: the exponential leaves the int64 range,
  the conversion yields the least int64, the cap does not catch it, and the delay is negative,
  so the restart loop no longer waits. On a saturating target it stays at 30 s.
\<close>
theorem default_backoff_overflow:
  assumes "38 \<le> n"
  shows "sup_duration oor_amd64 zero_policy n u = - (2 ^ 63) \<and>
         sup_duration oor_arm64 zero_policy n u = 30 * second"
proof -
  define k where "k = nat (n - 1)"
  let ?m = "100 * millisecond"
  have "37 \<le> k" using assms by (simp add: k_def)
  then have "(2 :: int) ^ 37 \<le> 2 ^ k" by (rule power_increasing) simp
  then have big: "2 ^ 63 \<le> ?m * 2 ^ k" by (simp add: millisecond_def)
  have dur: "sup_duration oor zero_policy n u = cap_at (30 * second) (oor (doubled ?m k))" for oor
    using durations_doubled(1)[of zero_policy oor n u] doubled_to_int64(2)[OF _ big, of oor]
    by (simp add: with_defaults_zero millisecond_def k_def)
  have "oor_arm64 (doubled ?m k) = 2 ^ 63 - 1"
    by (simp add: doubled_def millisecond_def)
  then show ?thesis by (simp add: dur oor_amd64_def cap_at_def second_def)
qed

theorem default_backoff_overflow_witness:
  "sup_duration oor_amd64 zero_policy 38 (Fin 0) < 0"
  using default_backoff_overflow[of 38 "Fin 0"] by simp

end
