(* ===== verification/Process_Runner.thy ===== *)
theory Process_Runner
  imports Backoff
begin

text \<open>
  The runner of external domain kernels, \<open>platform/runtime/process_runner_gen.go\<close>: its options and
  calls, the three goroutines that \<open>Start\<close> leaves behind (one reader per pipe and the one that
  waits for the process) as an interleaved step relation, and the polling loop of \<open>WaitReady\<close>.
  What the operating system does (the lines a process prints, when and how it ends, what a
  health probe answers) is an argument or a choice of the step. The backoff functions declared
  in the same file are in the theory of backoffs.
\<close>

section \<open>Lines, events and the runner\<close>

record log_line =
  ll_Time :: gotime
  ll_Origin :: string
  ll_Line :: string

datatype proc_event_type = ProcStart | ProcExit | ProcReady | ProcProbeOK | ProcProbeKO

record proc_event =
  pe_Time :: gotime
  pe_Type :: proc_event_type
  pe_ExitCode :: int
  pe_Err :: "go_error option"
  pe_Note :: string

definition mk_proc_event :: "proc_event_type \<Rightarrow> gotime \<Rightarrow> string \<Rightarrow> proc_event" where
  "mk_proc_event t now note =
     \<lparr>pe_Time = now, pe_Type = t, pe_ExitCode = 0, pe_Err = None, pe_Note = note\<rparr>"

text \<open>The parts of an \<open>exec.Cmd\<close> that \<open>Start\<close> fills; without an environment the process inherits.\<close>

record command =
  cm_Name :: string
  cm_Args :: "string list"
  cm_Dir :: string
  cm_Env :: "string list option"

text \<open>
  Of the event handler only whether it is set matters to the runner: \<open>emit\<close> recovers its panics.
  The calls of the handler are recorded, oldest first.
\<close>

record process_runner =
  pr_cmdPath :: string
  pr_args :: "string list"
  pr_env :: "string list"
  pr_wd :: string
  pr_healthURL :: string
  pr_readyPrefix :: string
  pr_logCh :: "log_line chan"
  pr_onEvent :: bool
  pr_cmd :: "command option"
  pr_ready :: bool
  pr_events :: "proc_event list"

text \<open>An environment map carries its entries in the order the range loop visits them.\<close>

datatype pr_option =
    WithEnvMap "(string, string) gomap"
  | WithWorkingDir string
  | WithHealthHTTP string
  | WithReadyPrefix string
  | WithProcEvents bool

fun apply_pr_option :: "process_runner \<Rightarrow> pr_option \<Rightarrow> process_runner" where
  "apply_pr_option p (WithEnvMap m) =
     (if length m = 0 then p
      else p\<lparr>pr_env := foldl (\<lambda>env (k, v). env @ [k @ ''='' @ v]) (pr_env p) m\<rparr>)"
| "apply_pr_option p (WithWorkingDir dir) = p\<lparr>pr_wd := dir\<rparr>"
| "apply_pr_option p (WithHealthHTTP url) = p\<lparr>pr_healthURL := url\<rparr>"
| "apply_pr_option p (WithReadyPrefix pre) =
     (if pre \<noteq> [] then p\<lparr>pr_readyPrefix := pre\<rparr> else p)"
| "apply_pr_option p (WithProcEvents handler) = p\<lparr>pr_onEvent := handler\<rparr>"

definition new_process_runner :: "string \<Rightarrow> string list \<Rightarrow> pr_option list \<Rightarrow> process_runner" where
  "new_process_runner cmdPath args opts = foldl apply_pr_option
     \<lparr>pr_cmdPath = cmdPath, pr_args = args, pr_env = [], pr_wd = [], pr_healthURL = [],
      pr_readyPrefix = ''READY'', pr_logCh = make_chan 256, pr_onEvent = False, pr_cmd = None,
      pr_ready = False, pr_events = []\<rparr> opts"

definition pr_emit :: "proc_event \<Rightarrow> process_runner \<Rightarrow> process_runner" where
  "pr_emit e p = (if pr_onEvent p then p\<lparr>pr_events := pr_events p @ [e]\<rparr> else p)"

section \<open>Start and Stop\<close>

text \<open>\<open>filepath.Base\<close> on Unix.\<close>

definition path_base :: "string \<Rightarrow> string" where
  "path_base s =
     (if s = [] then ''.''
      else let t = rev (dropWhile (\<lambda>c. c = CHR ''/'') (rev s))
           in if t = [] then ''/'' else last (split_on (CHR ''/'') t))"

text \<open>What the operating system answers to the calls \<open>Start\<close> makes.\<close>

record spawn =
  sw_stdout :: "go_error option" \<comment> \<open>\<open>StdoutPipe\<close>\<close>
  sw_stderr :: "go_error option" \<comment> \<open>\<open>StderrPipe\<close>\<close>
  sw_start :: "go_error option"  \<comment> \<open>\<open>cmd.Start\<close>\<close>
  sw_environ :: "string list"    \<comment> \<open>\<open>os.Environ\<close>\<close>
  sw_now :: gotime

definition pr_command :: "string list \<Rightarrow> process_runner \<Rightarrow> command" where
  "pr_command environ p =
     \<lparr>cm_Name = pr_cmdPath p, cm_Args = pr_args p,
      cm_Dir = (if pr_wd p \<noteq> [] then pr_wd p else []),
      cm_Env = (if length (pr_env p) > 0 then Some (environ @ pr_env p) else None)\<rparr>"

definition pr_start :: "spawn \<Rightarrow> process_runner \<Rightarrow> process_runner \<times> go_error option" where
  "pr_start os p =
     (if pr_cmd p \<noteq> None then (p, Some ''process already started'')
      else if pr_cmdPath p = [] then (p, Some ''empty command path'')
      else case sw_stdout os of
          Some err \<Rightarrow> (p, Some err)
        | None \<Rightarrow>
      (case sw_stderr os of
          Some err \<Rightarrow> (p, Some err)
        | None \<Rightarrow>
      (case sw_start os of
          Some err \<Rightarrow> (p, Some err)
        | None \<Rightarrow>
            (pr_emit (mk_proc_event ProcStart (sw_now os) (path_base (pr_cmdPath p)))
               (p\<lparr>pr_cmd := Some (pr_command (sw_environ os) p)\<rparr>), None))))"

text \<open>Which signal \<open>Stop\<close> sends; its error is the system's.\<close>

datatype stop_action = NoProcess | KillProcess | SignalTerm

definition pr_stop :: "bool \<Rightarrow> process_runner \<Rightarrow> stop_action" where
  "pr_stop windows p =
     (if pr_cmd p = None then NoProcess else if windows then KillProcess else SignalTerm)"

section \<open>The goroutines\<close>

datatype pipe = Stdout | Stderr

definition origin :: "pipe \<Rightarrow> string" where
  "origin o1 = (case o1 of Stdout \<Rightarrow> ''stdout'' | Stderr \<Rightarrow> ''stderr'')"

text \<open>Where a reader stands in its loop.\<close>

datatype reader_phase =
    NoReader
  | Scanning            \<comment> \<open>in \<open>Scan\<close>\<close>
  | Sending log_line    \<comment> \<open>about to send, or blocked in the send\<close>
  | Testing string      \<comment> \<open>sent, before the test of the prefix\<close>
  | Announcing string   \<comment> \<open>the flag is set, the event is next\<close>
  | ReaderDone

text \<open>The result of \<open>cmd.Wait\<close>; an \<open>ExitError\<close> without process state gives no code.\<close>

datatype wait_result = WaitOk | ExitError "int option" go_error | WaitError go_error

fun exit_code :: "wait_result \<Rightarrow> int" where
  "exit_code WaitOk = 0"
| "exit_code (ExitError (Some c) _) = c"
| "exit_code (ExitError None _) = -1"
| "exit_code (WaitError _) = -1"

fun wait_err :: "wait_result \<Rightarrow> go_error option" where
  "wait_err WaitOk = None"
| "wait_err (ExitError _ e) = Some e"
| "wait_err (WaitError e) = Some e"

datatype waiter_phase =
    NoWaiter
  | Waiting                 \<comment> \<open>in \<open>cmd.Wait\<close>\<close>
  | Exiting wait_result     \<comment> \<open>the process is gone, the event is next\<close>
  | Closing                 \<comment> \<open>before \<open>close(p.logCh)\<close>\<close>
  | WaiterDone

text \<open>
  The world: the runner, its goroutines, the lines a consumer of \<open>Logs()\<close> has received, the lines
  each \<open>Scan\<close> has delivered so far, and whether a goroutine has panicked (which ends the program).
\<close>

record runner_world =
  rw_runner :: process_runner
  rw_reader :: "pipe \<Rightarrow> reader_phase"
  rw_waiter :: waiter_phase
  rw_received :: "log_line list"
  rw_scanned :: "pipe \<Rightarrow> string list"
  rw_panicked :: bool

definition runner_world :: "process_runner \<Rightarrow> runner_world" where
  "runner_world p =
     \<lparr>rw_runner = p, rw_reader = (\<lambda>_. NoReader), rw_waiter = NoWaiter, rw_received = [],
      rw_scanned = (\<lambda>_. []), rw_panicked = False\<rparr>"

definition set_reader :: "pipe \<Rightarrow> reader_phase \<Rightarrow> runner_world \<Rightarrow> runner_world" where
  "set_reader o1 ph w = w\<lparr>rw_reader := (rw_reader w)(o1 := ph)\<rparr>"

definition is_ready_line :: "process_runner \<Rightarrow> pipe \<Rightarrow> string \<Rightarrow> bool" where
  "is_ready_line p o1 line \<longleftrightarrow>
     origin o1 = ''stdout'' \<and> pr_readyPrefix p \<noteq> [] \<and> has_prefix line (pr_readyPrefix p)"

inductive run_step :: "runner_world \<Rightarrow> runner_world \<Rightarrow> bool" where
  start: "\<not> rw_panicked w \<Longrightarrow> pr_start os (rw_runner w) = (p, None) \<Longrightarrow>
    run_step w (w\<lparr>rw_runner := p, rw_reader := (\<lambda>_. Scanning), rw_waiter := Waiting\<rparr>)"
| scan_line: "\<not> rw_panicked w \<Longrightarrow> rw_reader w r = Scanning \<Longrightarrow>
    run_step w (set_reader r (Sending \<lparr>ll_Time = now, ll_Origin = origin r, ll_Line = line\<rparr>)
      (w\<lparr>rw_scanned := (rw_scanned w)(r := rw_scanned w r @ [line])\<rparr>))"
| scan_end: "\<not> rw_panicked w \<Longrightarrow> rw_reader w r = Scanning \<Longrightarrow>
    run_step w (set_reader r ReaderDone w)"
| send: "\<not> rw_panicked w \<Longrightarrow> rw_reader w r = Sending l \<Longrightarrow>
    chan_try_send l (pr_logCh (rw_runner w)) = Sent c \<Longrightarrow>
    run_step w (set_reader r (Testing (ll_Line l)) (w\<lparr>rw_runner := (rw_runner w)\<lparr>pr_logCh := c\<rparr>\<rparr>))"
| send_panic: "\<not> rw_panicked w \<Longrightarrow> rw_reader w r = Sending l \<Longrightarrow>
    chan_try_send l (pr_logCh (rw_runner w)) = SendPanic \<Longrightarrow>
    run_step w (w\<lparr>rw_panicked := True\<rparr>)"
| test_ready: "\<not> rw_panicked w \<Longrightarrow> rw_reader w r = Testing line \<Longrightarrow>
    is_ready_line (rw_runner w) r line \<Longrightarrow>
    run_step w (set_reader r (Announcing line) (w\<lparr>rw_runner := (rw_runner w)\<lparr>pr_ready := True\<rparr>\<rparr>))"
| test_other: "\<not> rw_panicked w \<Longrightarrow> rw_reader w r = Testing line \<Longrightarrow>
    \<not> is_ready_line (rw_runner w) r line \<Longrightarrow> run_step w (set_reader r Scanning w)"
| announce: "\<not> rw_panicked w \<Longrightarrow> rw_reader w r = Announcing line \<Longrightarrow>
    run_step w (set_reader r Scanning
      (w\<lparr>rw_runner := pr_emit (mk_proc_event ProcReady now line) (rw_runner w)\<rparr>))"
| wait_return: "\<not> rw_panicked w \<Longrightarrow> rw_waiter w = Waiting \<Longrightarrow>
    run_step w (w\<lparr>rw_waiter := Exiting res\<rparr>)"
| exit_event: "\<not> rw_panicked w \<Longrightarrow> rw_waiter w = Exiting res \<Longrightarrow>
    run_step w (w\<lparr>rw_waiter := Closing, rw_runner := pr_emit
      ((mk_proc_event ProcExit now [])\<lparr>pe_ExitCode := exit_code res, pe_Err := wait_err res\<rparr>)
      (rw_runner w)\<rparr>)"
| close_logs: "\<not> rw_panicked w \<Longrightarrow> rw_waiter w = Closing \<Longrightarrow>
    run_step w (w\<lparr>rw_waiter := WaiterDone,
      rw_runner := (rw_runner w)\<lparr>pr_logCh := chan_close (pr_logCh (rw_runner w))\<rparr>\<rparr>)"
| receive: "\<not> rw_panicked w \<Longrightarrow> chan_try_recv (pr_logCh (rw_runner w)) = Received l c \<Longrightarrow>
    run_step w (w\<lparr>rw_runner := (rw_runner w)\<lparr>pr_logCh := c\<rparr>, rw_received := rw_received w @ [l]\<rparr>)"

inductive_cases run_stepE: "run_step w w'"

abbreviation run_steps :: "runner_world \<Rightarrow> runner_world \<Rightarrow> bool" where
  "run_steps \<equiv> rtranclp run_step"

text \<open>
  The discipline that \<open>os/exec\<close> asks for: \<open>Wait\<close> is called, and so returns, only after all reads
  from the pipes have completed.
\<close>

definition readers_done :: "runner_world \<Rightarrow> bool" where
  "readers_done w \<longleftrightarrow> rw_reader w Stdout = ReaderDone \<and> rw_reader w Stderr = ReaderDone"

definition careful_step :: "runner_world \<Rightarrow> runner_world \<Rightarrow> bool" where
  "careful_step w w' \<longleftrightarrow>
     run_step w w' \<and> (rw_waiter w = Waiting \<longrightarrow> rw_waiter w' = Waiting \<or> readers_done w)"

section \<open>Waiting for readiness\<close>

text \<open>
  One turn of the \<open>select\<close> loop: the context is over, or the ticker fires, when the turn reads the
  ready flag as \<open>flag\<close> and, should it come to a probe, gets the status code or the error \<open>probe\<close>.
\<close>

datatype wait_turn = CtxDone | Tick bool "go_error + int" gotime

definition wait_timeout :: "duration \<Rightarrow> duration" where
  "wait_timeout t = (if t \<le> 0 then 10 * second else t)"

definition probe_ok :: "go_error + int \<Rightarrow> bool" where
  "probe_ok r = (case r of Inl _ \<Rightarrow> False | Inr st \<Rightarrow> 200 \<le> st \<and> st < 300)"

definition probe_event :: "string \<Rightarrow> go_error + int \<Rightarrow> gotime \<Rightarrow> proc_event" where
  "probe_event url r now =
     (if probe_ok r then mk_proc_event ProcProbeOK now url
      else (mk_proc_event ProcProbeKO now url)
        \<lparr>pe_Err := (case r of Inl e \<Rightarrow> Some e | Inr _ \<Rightarrow> None)\<rparr>)"

text \<open>
  The loop over the given turns. The error of \<open>NewRequestWithContext\<close> is ignored, so a health URL that
  does not parse (\<open>url_ok\<close> is the parser of \<open>net/url\<close>) gives \<open>cl.Do\<close> a nil request, which panics.
\<close>

datatype wait_answer =
    StillWaiting process_runner
  | WaitReturned process_runner "go_error option"
  | WaitPanic

fun wait_ready :: "(string \<Rightarrow> bool) \<Rightarrow> wait_turn list \<Rightarrow> process_runner \<Rightarrow> wait_answer" where
  "wait_ready url_ok [] p = StillWaiting p"
| "wait_ready url_ok (CtxDone # ts) p = WaitReturned p (Some ''wait ready: timeout or cancelled'')"
| "wait_ready url_ok (Tick flag probe now # ts) p =
     (if flag then WaitReturned p None
      else if pr_healthURL p \<noteq> [] then
        (if \<not> url_ok (pr_healthURL p) then WaitPanic
         else let p' = pr_emit (probe_event (pr_healthURL p) probe now) p
              in if probe_ok probe then WaitReturned p' None else wait_ready url_ok ts p')
      else wait_ready url_ok ts p)"

section \<open>Invariants of the goroutines\<close>

lemma origin_inject [simp]: "origin a = origin b \<longleftrightarrow> a = b"
  by (cases a; cases b) (simp_all add: origin_def)

lemma origin_cases: "origin r \<in> {''stdout'', ''stderr''}"
  by (cases r) (simp_all add: origin_def)

lemma pr_emit_fields [simp]:
  "pr_logCh (pr_emit e p) = pr_logCh p" "pr_cmd (pr_emit e p) = pr_cmd p"
  "pr_ready (pr_emit e p) = pr_ready p" "pr_readyPrefix (pr_emit e p) = pr_readyPrefix p"
  "pr_onEvent (pr_emit e p) = pr_onEvent p" "pr_healthURL (pr_emit e p) = pr_healthURL p"
  "pr_events (pr_emit e p) = pr_events p @ (if pr_onEvent p then [e] else [])"
  by (simp_all add: pr_emit_def)

lemma set_reader_fields [simp]:
  "rw_runner (set_reader r ph w) = rw_runner w" "rw_waiter (set_reader r ph w) = rw_waiter w"
  "rw_received (set_reader r ph w) = rw_received w" "rw_scanned (set_reader r ph w) = rw_scanned w"
  "rw_panicked (set_reader r ph w) = rw_panicked w"
  "rw_reader (set_reader r ph w) = (rw_reader w)(r := ph)"
  by (simp_all add: set_reader_def)

lemma pr_start_None:
  "pr_start os p = (q, None) \<longleftrightarrow>
     pr_cmd p = None \<and> pr_cmdPath p \<noteq> [] \<and> sw_stdout os = None \<and> sw_stderr os = None \<and>
     sw_start os = None \<and>
     q = pr_emit (mk_proc_event ProcStart (sw_now os) (path_base (pr_cmdPath p)))
           (p\<lparr>pr_cmd := Some (pr_command (sw_environ os) p)\<rparr>)"
  by (auto simp: pr_start_def split: option.splits)

text \<open>All lines logged so far: received by the consumer or still in the channel.\<close>

definition logged :: "runner_world \<Rightarrow> log_line list" where
  "logged w = rw_received w @ c_buf (pr_logCh (rw_runner w))"

definition logged_from :: "pipe \<Rightarrow> runner_world \<Rightarrow> string list" where
  "logged_from r w = map ll_Line (filter (\<lambda>l. ll_Origin l = origin r) (logged w))"

fun unsent :: "reader_phase \<Rightarrow> string list" where
  "unsent (Sending l) = [ll_Line l]"
| "unsent _ = []"

fun untested :: "reader_phase \<Rightarrow> string list" where
  "untested (Sending l) = [ll_Line l]"
| "untested (Testing s) = [s]"
| "untested _ = []"

fun unannounced :: "reader_phase \<Rightarrow> string list" where
  "unannounced (Announcing s) = [s]"
| "unannounced ph = untested ph"

definition runner_ok :: "runner_world \<Rightarrow> bool" where
  "runner_ok w \<longleftrightarrow>
     (\<forall>r. rw_scanned w r = logged_from r w @ unsent (rw_reader w r)) \<and>
     (\<forall>r l. rw_reader w r = Sending l \<longrightarrow> ll_Origin l = origin r) \<and>
     (\<forall>l \<in> set (logged w). \<exists>r. ll_Origin l = origin r) \<and>
     chan_ok (pr_logCh (rw_runner w)) \<and> c_cap (pr_logCh (rw_runner w)) = 256 \<and>
     (c_closed (pr_logCh (rw_runner w)) \<longleftrightarrow> rw_waiter w = WaiterDone) \<and>
     (pr_cmd (rw_runner w) = None \<longleftrightarrow> rw_waiter w = NoWaiter) \<and>
     (\<forall>r. rw_reader w r = NoReader \<longleftrightarrow> rw_waiter w = NoWaiter)"

lemma runner_okD:
  assumes "runner_ok w"
  shows "rw_scanned w r = logged_from r w @ unsent (rw_reader w r)"
    and "rw_reader w r = Sending l \<Longrightarrow> ll_Origin l = origin r"
    and "l' \<in> set (logged w) \<Longrightarrow> \<exists>r. ll_Origin l' = origin r"
    and "chan_ok (pr_logCh (rw_runner w))" and "c_cap (pr_logCh (rw_runner w)) = 256"
    and "c_closed (pr_logCh (rw_runner w)) \<longleftrightarrow> rw_waiter w = WaiterDone"
    and "pr_cmd (rw_runner w) = None \<longleftrightarrow> rw_waiter w = NoWaiter"
    and "rw_reader w r = NoReader \<longleftrightarrow> rw_waiter w = NoWaiter"
  using assms by (simp_all add: runner_ok_def)

lemmas logged_defs = logged_from_def logged_def

lemma runner_ok_step: "run_step w w' \<Longrightarrow> runner_ok w \<Longrightarrow> runner_ok w'"
proof (induction rule: run_step.induct)
  case (start w os p)
  then show ?case by (auto simp: runner_ok_def pr_start_None logged_defs)
next
  case (scan_line w r now line)
  then show ?case by (auto simp: runner_ok_def logged_defs)
next
  case (send w r l c)
  then show ?case
    using runner_okD(2)[OF send.prems send.hyps(2)]
    by (auto simp: runner_ok_def logged_defs chan_send_Sent chan_ok_def)
next
  case (receive w l c)
  then show ?case by (auto simp: runner_ok_def logged_defs chan_recv_Received chan_ok_def)
next
  case (close_logs w)
  then show ?case by (auto simp: runner_ok_def logged_defs)
qed (auto simp: runner_ok_def logged_defs)

definition is_ready_event :: "proc_event \<Rightarrow> bool" where
  "is_ready_event e \<longleftrightarrow> pe_Type e = ProcReady"

definition ready_lines :: "string \<Rightarrow> string list \<Rightarrow> string list" where
  "ready_lines pre = filter (\<lambda>line. has_prefix line pre)"

lemma ready_lines_simps [simp]:
  "ready_lines pre [] = []" "ready_lines pre (xs @ ys) = ready_lines pre xs @ ready_lines pre ys"
  "ready_lines pre [x] = (if has_prefix x pre then [x] else [])"
  by (simp_all add: ready_lines_def)

text \<open>The flag and the announcements follow the lines of standard output, never those of the other pipe.\<close>

definition ready_ok :: "runner_world \<Rightarrow> bool" where
  "ready_ok w \<longleftrightarrow>
     (let pre = pr_readyPrefix (rw_runner w); ph = rw_reader w Stdout in
       pre \<noteq> [] \<and> (\<forall>s. rw_reader w Stderr \<noteq> Announcing s) \<and>
       (\<forall>s. ph = Announcing s \<longrightarrow> has_prefix s pre) \<and>
       (\<exists>ts. rw_scanned w Stdout = ts @ unannounced ph) \<and>
       (pr_ready (rw_runner w) \<longleftrightarrow>
          length (ready_lines pre (untested ph)) < length (ready_lines pre (rw_scanned w Stdout))) \<and>
       (pr_onEvent (rw_runner w) \<longrightarrow>
          map pe_Note (filter is_ready_event (pr_events (rw_runner w))) @ ready_lines pre (unannounced ph)
            = ready_lines pre (rw_scanned w Stdout)))"

lemma is_ready_line_iff: "pr_readyPrefix p \<noteq> [] \<Longrightarrow>
    is_ready_line p r line \<longleftrightarrow> r = Stdout \<and> has_prefix line (pr_readyPrefix p)"
  by (cases r) (auto simp: is_ready_line_def origin_def)

lemma ready_event_type [simp]:
  "is_ready_event (mk_proc_event t now note) \<longleftrightarrow> t = ProcReady"
  "is_ready_event ((mk_proc_event t now note)\<lparr>pe_ExitCode := c, pe_Err := e\<rparr>) \<longleftrightarrow> t = ProcReady"
  "pe_Note (mk_proc_event t now note) = note"
  by (simp_all add: is_ready_event_def mk_proc_event_def)

lemma ready_ok_step: "run_step w w' \<Longrightarrow> runner_ok w \<Longrightarrow> ready_ok w \<Longrightarrow> ready_ok w'"
proof (induction rule: run_step.induct)
  case (start w os p)
  then have "rw_reader w Stdout = NoReader" "rw_reader w Stderr = NoReader"
    using runner_okD(7,8)[OF start.prems(1)] by (auto simp: pr_start_None)
  then show ?case using start by (auto simp: ready_ok_def pr_start_None Let_def)
next
  case (scan_line w r now line)
  then show ?case by (cases r) (auto simp: ready_ok_def Let_def)
next
  case (send w r l c)
  then show ?case by (cases r) (auto simp: ready_ok_def Let_def)
next
  case (test_ready w r line)
  have r: "r = Stdout" "has_prefix line (pr_readyPrefix (rw_runner w))"
    using test_ready by (auto simp: ready_ok_def Let_def is_ready_line_iff)
  then show ?case using test_ready r by (auto simp: ready_ok_def Let_def)
next
  case (test_other w r line)
  then show ?case by (cases r) (auto simp: ready_ok_def Let_def is_ready_line_iff)
next
  case (announce w r line now)
  then show ?case by (cases r) (auto simp: ready_ok_def Let_def)
next
  case (scan_end w r)
  then show ?case by (cases r) (auto simp: ready_ok_def Let_def)
qed (auto simp: ready_ok_def Let_def)

text \<open>A runner fresh from its constructor, whatever its options.\<close>

definition fresh_runner :: "process_runner \<Rightarrow> bool" where
  "fresh_runner p \<longleftrightarrow> pr_logCh p = make_chan 256 \<and> pr_cmd p = None \<and> \<not> pr_ready p \<and>
     pr_events p = [] \<and> pr_readyPrefix p \<noteq> []"

lemma fresh_option: "fresh_runner p \<Longrightarrow> fresh_runner (apply_pr_option p o1)"
  by (cases o1) (auto simp: fresh_runner_def)

lemma fresh_options: "fresh_runner p \<Longrightarrow> fresh_runner (foldl apply_pr_option p opts)"
  by (induction opts arbitrary: p) (auto intro: fresh_option)

lemma fresh_new: "fresh_runner (new_process_runner c args opts)"
  unfolding new_process_runner_def by (rule fresh_options) (simp add: fresh_runner_def)

lemma runner_ok_init: "fresh_runner p \<Longrightarrow> runner_ok (runner_world p)"
  by (simp add: runner_ok_def runner_world_def fresh_runner_def logged_defs)

lemma ready_ok_init: "fresh_runner p \<Longrightarrow> ready_ok (runner_world p)"
  by (simp add: ready_ok_def runner_world_def fresh_runner_def)

lemma runner_ok_reachable:
  "run_steps (runner_world (new_process_runner c args opts)) w \<Longrightarrow> runner_ok w"
  by (induction rule: rtranclp_induct) (auto intro: runner_ok_init fresh_new runner_ok_step)

lemma ready_ok_reachable:
  "run_steps (runner_world (new_process_runner c args opts)) w \<Longrightarrow> ready_ok w"
  by (induction rule: rtranclp_induct)
    (auto intro: ready_ok_init fresh_new ready_ok_step runner_ok_reachable)

lemma ready_stays: "run_steps w w' \<Longrightarrow> pr_ready (rw_runner w) \<Longrightarrow> pr_ready (rw_runner w')"
proof (induction rule: rtranclp_induct)
  case (step y z)
  from step.hyps(2) step.IH[OF step.prems] show ?case
    by (cases rule: run_step.cases) (auto simp: pr_start_None)
qed simp

text \<open>With the discipline of \<open>os/exec\<close> no reader is left when the process has been waited for.\<close>

definition careful_ok :: "runner_world \<Rightarrow> bool" where
  "careful_ok w \<longleftrightarrow> runner_ok w \<and> \<not> rw_panicked w \<and>
     (rw_waiter w \<notin> {NoWaiter, Waiting} \<longrightarrow> readers_done w)"

lemma careful_ok_step:
  assumes "careful_step w w'" and "careful_ok w"
  shows "careful_ok w'"
proof -
  have st: "run_step w w'" and ok: "runner_ok w" and wait: "rw_waiter w = Waiting \<Longrightarrow> rw_waiter w' \<noteq> Waiting \<Longrightarrow> readers_done w"
    and fin: "rw_waiter w \<notin> {NoWaiter, Waiting} \<Longrightarrow> readers_done w" and np: "\<not> rw_panicked w"
    using assms by (auto simp: careful_step_def careful_ok_def)
  have pending: "rw_waiter w \<in> {NoWaiter, Waiting}" if "rw_reader w r \<noteq> ReaderDone" for r
    using fin that by (cases r) (auto simp: readers_done_def)
  have "\<not> rw_panicked w' \<and> (rw_waiter w' \<notin> {NoWaiter, Waiting} \<longrightarrow> readers_done w')"
    using st
  proof (cases rule: run_step.cases)
    case (start os p)
    then show ?thesis using np by simp
  next
    case (send_panic r l)
    then have "rw_waiter w = WaiterDone" using runner_okD(6)[OF ok] by (simp add: chan_send_Panic)
    then show ?thesis using pending[of r] send_panic by simp
  next
    case (wait_return res)
    then show ?thesis using wait np by (simp add: readers_done_def)
  next
    case (exit_event res now)
    then show ?thesis using fin by (simp add: readers_done_def)
  next
    case close_logs
    then show ?thesis using fin by (simp add: readers_done_def)
  next
    case (receive l c)
    then show ?thesis using fin by (auto simp: readers_done_def)
  qed (use pending np in fastforce)+
  then show ?thesis using runner_ok_step[OF st ok] by (simp add: careful_ok_def)
qed

section \<open>Properties of the runner\<close>

text \<open>
  C21: The log channel neither loses, repeats nor reorders the lines of a pipe: at every moment, what
  the consumer has received and what waits in the channel are, pipe by pipe, the lines that
  \<open>Scan\<close> has delivered, in their order, except for at most the last one, whose send is pending;
  at most 256 lines wait, every line is marked with its own pipe, and the channel is closed
  exactly when the goroutine that waits for the process is over.
\<close>
theorem runner_logs_in_order:
  assumes "run_steps (runner_world (new_process_runner c args opts)) w"
  shows "(\<exists>pending. rw_scanned w r = logged_from r w @ pending \<and> length pending \<le> 1 \<and>
            (pending \<noteq> [] \<longrightarrow> (\<exists>l. rw_reader w r = Sending l))) \<and>
    length (c_buf (pr_logCh (rw_runner w))) \<le> 256 \<and>
    (\<forall>l \<in> set (logged w). ll_Origin l \<in> {''stdout'', ''stderr''}) \<and>
    (c_closed (pr_logCh (rw_runner w)) \<longleftrightarrow> rw_waiter w = WaiterDone)"
proof (intro conjI ballI)
  note ok = runner_ok_reachable[OF assms]
  show "\<exists>pending. rw_scanned w r = logged_from r w @ pending \<and> length pending \<le> 1 \<and>
      (pending \<noteq> [] \<longrightarrow> (\<exists>l. rw_reader w r = Sending l))"
    using runner_okD(1)[OF ok, of r] by (cases "rw_reader w r") auto
  show "length (c_buf (pr_logCh (rw_runner w))) \<le> 256"
    using runner_okD(4,5)[OF ok] by (simp add: chan_ok_def)
  show "ll_Origin l \<in> {''stdout'', ''stderr''}" if "l \<in> set (logged w)" for l
    using runner_okD(3)[OF ok that] origin_cases by metis
qed (rule runner_okD(6)[OF runner_ok_reachable[OF assms]])

text \<open>
  C22: Readiness by output: the flag is only ever set by a line of standard output that starts with the
  configured prefix; when the reader of standard output is between two lines (or gone) the flag
  says exactly whether there was such a line, and the announcements the handler got are
  exactly those lines, in order. The flag is never taken back, not even when the process ends.
\<close>
theorem runner_readiness:
  assumes "run_steps (runner_world (new_process_runner c args opts)) w"
  shows "(pr_ready (rw_runner w) \<longrightarrow>
            ready_lines (pr_readyPrefix (rw_runner w)) (rw_scanned w Stdout) \<noteq> []) \<and>
    (rw_reader w Stdout \<in> {Scanning, ReaderDone} \<longrightarrow>
      (pr_ready (rw_runner w) \<longleftrightarrow>
         ready_lines (pr_readyPrefix (rw_runner w)) (rw_scanned w Stdout) \<noteq> []) \<and>
      (pr_onEvent (rw_runner w) \<longrightarrow> map pe_Note (filter is_ready_event (pr_events (rw_runner w))) =
         ready_lines (pr_readyPrefix (rw_runner w)) (rw_scanned w Stdout))) \<and>
    (run_steps w w' \<and> pr_ready (rw_runner w) \<longrightarrow> pr_ready (rw_runner w'))"
  using ready_ok_reachable[OF assms] ready_stays[of w w'] by (auto simp: ready_ok_def Let_def)

text \<open>
  Closing the log channel races with the readers: in every reachable state in which a reader holds a
  line it has not sent yet (because it is about to, or because the channel is full), the
  process may end, the channel is closed, and the pending send panics and ends the program.
\<close>
theorem runner_close_race:
  assumes "run_steps (runner_world (new_process_runner c args opts)) w"
    and "\<not> rw_panicked w" and "rw_reader w r = Sending l" and "rw_waiter w = Waiting"
  shows "\<exists>w'. run_steps w w' \<and> rw_panicked w'"
proof -
  note [simp] = assms(2-4)
  define w1 where "w1 = w\<lparr>rw_waiter := Exiting WaitOk\<rparr>"
  have s1: "run_step w w1" unfolding w1_def by (rule wait_return) simp_all
  define w2 where "w2 = w1\<lparr>rw_waiter := Closing, rw_runner := pr_emit
      ((mk_proc_event ProcExit 0 [])\<lparr>pe_ExitCode := exit_code WaitOk, pe_Err := wait_err WaitOk\<rparr>)
      (rw_runner w1)\<rparr>"
  have s2: "run_step w1 w2" unfolding w2_def by (rule exit_event) (simp_all add: w1_def)
  define w3 where "w3 = w2\<lparr>rw_waiter := WaiterDone,
      rw_runner := (rw_runner w2)\<lparr>pr_logCh := chan_close (pr_logCh (rw_runner w2))\<rparr>\<rparr>"
  have s3: "run_step w2 w3" unfolding w3_def by (rule close_logs) (simp_all add: w1_def w2_def)
  have "run_step w3 (w3\<lparr>rw_panicked := True\<rparr>)"
    by (rule send_panic[of _ r l]) (simp_all add: w1_def w2_def w3_def chan_send_Panic)
  then have "run_steps w (w3\<lparr>rw_panicked := True\<rparr>)" using s1 s2 s3 run4 by metis
  then show ?thesis by (intro exI[of _ "w3\<lparr>rw_panicked := True\<rparr>"]) simp
qed

text \<open>
  C20: That is the only way to panic: if the wait for the process returned only after both readers have
  come to the end of their pipes, as the documentation of \<open>os/exec\<close> demands, no interleaving
  of the goroutines, the consumer and further calls of \<open>Start\<close> sends on the closed channel.
\<close>
theorem runner_careful_safe:
  assumes "rtranclp careful_step (runner_world (new_process_runner c args opts)) w"
  shows "\<not> rw_panicked w"
proof -
  from assms have "careful_ok w"
  proof (induction rule: rtranclp_induct)
    case base
    then show ?case
      using runner_ok_init[OF fresh_new, of c args opts] by (simp add: careful_ok_def runner_world_def)
  qed (rule careful_ok_step)
  then show ?thesis by (simp add: careful_ok_def)
qed

text \<open>A turn that ends the loop of \<open>WaitReady\<close>, given the health URL.\<close>

fun decides :: "(string \<Rightarrow> bool) \<Rightarrow> string \<Rightarrow> wait_turn \<Rightarrow> bool" where
  "decides url_ok url CtxDone = True"
| "decides url_ok url (Tick flag probe now) = (flag \<or> (url \<noteq> [] \<and> (\<not> url_ok url \<or> probe_ok probe)))"

fun turn_events :: "string \<Rightarrow> wait_turn \<Rightarrow> proc_event list" where
  "turn_events url CtxDone = []"
| "turn_events url (Tick flag probe now) =
     (if \<not> flag \<and> url \<noteq> [] then [probe_event url probe now] else [])"

definition undecided :: "(string \<Rightarrow> bool) \<Rightarrow> string \<Rightarrow> wait_turn list \<Rightarrow> wait_turn list" where
  "undecided url_ok url = takeWhile (\<lambda>t. \<not> decides url_ok url t)"

lemma undecided_simps [simp]:
  "undecided url_ok url [] = []"
  "undecided url_ok url (t # ts) = (if decides url_ok url t then [] else t # undecided url_ok url ts)"
  by (simp_all add: undecided_def)

text \<open>The runner after the probes of some turns.\<close>

definition probed :: "process_runner \<Rightarrow> wait_turn list \<Rightarrow> process_runner" where
  "probed p ts = p\<lparr>pr_events := pr_events p @
     (if pr_onEvent p then concat (map (turn_events (pr_healthURL p)) ts) else [])\<rparr>"

text \<open>
  WaitReady is decided by the first turn that finds the ready flag up, a health probe answered
  with a 2xx status, or the context over, and by nothing else (not by the end of the process):
  it returns nil in the first two cases and the timeout error in the last, keeps waiting
  without such a turn, and announces exactly one probe event per probe made, in order. A health URL
  that does not parse makes the first turn that would probe it panic.
\<close>
theorem wait_ready_decided:
  "wait_ready url_ok ts p =
    (let url = pr_healthURL p; us = undecided url_ok url ts
     in case find (decides url_ok url) ts of
       None \<Rightarrow> StillWaiting (probed p us)
     | Some CtxDone \<Rightarrow> WaitReturned (probed p us) (Some ''wait ready: timeout or cancelled'')
     | Some (Tick flag probe now) \<Rightarrow>
         if flag \<or> url_ok url then WaitReturned (probed p (us @ [Tick flag probe now])) None else WaitPanic)"
proof (induction url_ok ts p rule: wait_ready.induct)
  case (3 url_ok flag probe now ts p)
  let ?p = "pr_emit (probe_event (pr_healthURL p) probe now) p"
  have ev: "probed ?p ts = probed p (Tick flag probe now # ts)"
    if "\<not> flag" "pr_healthURL p \<noteq> []" for ts
    using that by (simp add: probed_def pr_emit_def)
  have quiet: "probed p (Tick fl probe now # ts) = probed p ts" if "pr_healthURL p = []" for fl ts
    using that by (simp add: probed_def)
  have one: "?p = probed p [Tick flag probe now]" if "\<not> flag" "pr_healthURL p \<noteq> []"
    using that by (simp add: probed_def pr_emit_def)
  consider "flag" | "\<not> flag" "pr_healthURL p = []"
    | "\<not> flag" "pr_healthURL p \<noteq> []" "\<not> url_ok (pr_healthURL p)"
    | "\<not> flag" "pr_healthURL p \<noteq> []" "url_ok (pr_healthURL p)" "probe_ok probe"
    | "\<not> flag" "pr_healthURL p \<noteq> []" "url_ok (pr_healthURL p)" "\<not> probe_ok probe"
    by blast
  then show ?case
  proof cases
    case 1
    then show ?thesis by (simp add: Let_def probed_def)
  next
    case 2
    then show ?thesis using 3(2) by (auto simp: Let_def quiet split: option.splits wait_turn.splits)
  next
    case 3
    then show ?thesis by (simp add: Let_def)
  next
    case 4
    then show ?thesis by (simp add: Let_def one)
  next
    case 5
    then show ?thesis
      using 3(1)[OF 5(1,2) _ refl 5(4)] by (auto simp: Let_def ev split: option.splits wait_turn.splits)
  qed
qed (simp_all add: probed_def Let_def)

section \<open>The properties on a concrete run\<close>

definition sample_runner :: process_runner where
  "sample_runner = new_process_runner ''/bin/dk'' [] [WithProcEvents True]"

definition sample_spawn :: spawn where
  "sample_spawn = \<lparr>sw_stdout = None, sw_stderr = None, sw_start = None, sw_environ = [], sw_now = 1\<rparr>"

definition sample_started :: runner_world where
  "sample_started = (runner_world sample_runner)
     \<lparr>rw_runner := fst (pr_start sample_spawn sample_runner), rw_reader := (\<lambda>_. Scanning),
      rw_waiter := Waiting\<rparr>"

definition sample_line :: log_line where
  "sample_line = \<lparr>ll_Time = 2, ll_Origin = origin Stdout, ll_Line = ''READY 1''\<rparr>"

definition sample_sending :: runner_world where
  "sample_sending = set_reader Stdout (Sending sample_line)
     (sample_started\<lparr>rw_scanned := (rw_scanned sample_started)
        (Stdout := rw_scanned sample_started Stdout @ [''READY 1''])\<rparr>)"

definition sample_sent :: runner_world where
  "sample_sent = set_reader Stdout (Testing (ll_Line sample_line))
     (sample_sending\<lparr>rw_runner := (rw_runner sample_sending)
       \<lparr>pr_logCh := (make_chan 256)\<lparr>c_buf := [sample_line]\<rparr>\<rparr>\<rparr>)"

definition sample_tested :: runner_world where
  "sample_tested = set_reader Stdout (Announcing ''READY 1'')
     (sample_sent\<lparr>rw_runner := (rw_runner sample_sent)\<lparr>pr_ready := True\<rparr>\<rparr>)"

definition sample_announced :: runner_world where
  "sample_announced = set_reader Stdout Scanning (sample_tested
     \<lparr>rw_runner := pr_emit (mk_proc_event ProcReady 3 ''READY 1'') (rw_runner sample_tested)\<rparr>)"

lemma sample_runner_fields:
  "pr_cmdPath sample_runner = ''/bin/dk''" "pr_readyPrefix sample_runner = ''READY''"
  "pr_logCh sample_runner = make_chan 256" "pr_cmd sample_runner = None" "pr_onEvent sample_runner"
  "pr_events sample_runner = []" "\<not> pr_ready sample_runner" "pr_healthURL sample_runner = []"
  by (simp_all add: sample_runner_def new_process_runner_def)

lemma sample_started_fields:
  "\<not> rw_panicked sample_started" "rw_reader sample_started r = Scanning"
  "rw_waiter sample_started = Waiting" "rw_scanned sample_started r = []"
  "rw_received sample_started = []"
  "pr_logCh (rw_runner sample_started) = make_chan 256" "pr_onEvent (rw_runner sample_started)"
  "pr_readyPrefix (rw_runner sample_started) = ''READY''" "\<not> pr_ready (rw_runner sample_started)"
  by (simp_all add: sample_started_def runner_world_def sample_runner_fields pr_start_def sample_spawn_def)

lemma sample_start: "run_step (runner_world sample_runner) sample_started"
  unfolding sample_started_def
  by (rule start[of _ sample_spawn])
    (simp_all add: runner_world_def pr_start_def sample_spawn_def sample_runner_fields)

lemma sample_scan: "run_step sample_started sample_sending"
  unfolding sample_sending_def sample_line_def
  by (rule scan_line) (simp_all add: sample_started_fields)

lemma sample_run_sending: "run_steps (runner_world sample_runner) sample_sending"
  using run2[of run_step, OF sample_start sample_scan] .

lemmas sample_defs = sample_announced_def sample_tested_def sample_sent_def sample_sending_def
  sample_started_fields

lemma sample_send: "run_step sample_sending sample_sent"
  unfolding sample_sent_def
  by (rule send) (simp_all add: sample_sending_def sample_started_fields chan_send_Sent)

lemma sample_test: "run_step sample_sent sample_tested"
  unfolding sample_tested_def
  by (rule test_ready) (simp_all add: sample_defs sample_line_def is_ready_line_def origin_def has_prefix_def)

lemma sample_announce: "run_step sample_tested sample_announced"
  unfolding sample_announced_def by (rule announce) (simp_all add: sample_defs)

lemma sample_run_announced: "run_steps (runner_world sample_runner) sample_announced"
  using sample_run_sending run3[of run_step, OF sample_send sample_test sample_announce] by simp

theorem runner_logs_in_order_witness:
  "run_steps (runner_world sample_runner) sample_announced \<and>
   rw_scanned sample_announced Stdout = [''READY 1''] \<and>
   length (c_buf (pr_logCh (rw_runner sample_announced))) \<le> 256"
  using runner_logs_in_order[OF sample_run_announced[unfolded sample_runner_def]] sample_run_announced
  by (simp add: sample_defs)

theorem runner_readiness_witness:
  "map pe_Note (filter is_ready_event (pr_events (rw_runner sample_announced))) = [''READY 1'']"
  using runner_readiness[OF sample_run_announced[unfolded sample_runner_def]]
  by (simp add: sample_defs ready_lines_def has_prefix_def)

theorem runner_close_race_witness:
  "\<exists>w'. run_steps sample_sending w' \<and> rw_panicked w'"
  using runner_close_race[OF sample_run_sending[unfolded sample_runner_def], of Stdout sample_line]
  by (simp add: sample_sending_def sample_started_fields)

lemma sample_careful:
  "\<exists>w. rtranclp careful_step (runner_world sample_runner) w \<and> rw_waiter w = Exiting WaitOk"
proof (intro exI conjI)
  let ?a = "set_reader Stdout ReaderDone sample_started"
  let ?b = "set_reader Stderr ReaderDone ?a"
  let ?c = "?b\<lparr>rw_waiter := Exiting WaitOk\<rparr>"
  show "rtranclp careful_step (runner_world sample_runner) ?c"
    by (rule run4[of careful_step _ sample_started ?a ?b])
      (auto simp: careful_step_def readers_done_def sample_started_fields runner_world_def
        intro: sample_start[unfolded runner_world_def] scan_end wait_return)
qed simp

theorem runner_careful_safe_witness:
  "\<exists>w. rtranclp careful_step (runner_world sample_runner) w \<and> rw_waiter w = Exiting WaitOk \<and>
     \<not> rw_panicked w"
  using sample_careful runner_careful_safe[of "''/bin/dk''" "[]" "[WithProcEvents True]"]
  unfolding sample_runner_def by blast

end
