(* ===== verification/Contracts.thy ===== *)
theory Contracts
  imports Prelude
begin

text \<open>
  The transport-neutral contracts of \<open>platform/contracts\<close>: scope, lifecycle state, health,
  manifest, envelope, exports and imports. \<open>Scope\<close> and \<open>HealthStatus\<close> are string types in the
  source and the code compares them with the empty string, so they stay strings here with the
  source's constants; the lifecycle states are only ever the nine constants and form a
  datatype. A slice whose nilness matters is a \<open>slice\<close>.
\<close>

type_synonym 'a slice = "'a list option"

section \<open>Scope, lifecycle, health\<close>

type_synonym scope = string

definition RootScope :: scope where "RootScope = ''root''"
definition DomainScope :: scope where "DomainScope = ''domain''"
definition FunctionScope :: scope where "FunctionScope = ''function''"

lemmas scope_defs = RootScope_def DomainScope_def FunctionScope_def

datatype lifecycle_state =
    StateLoad
  | StateInit
  | StateConfigure
  | StateStart
  | StateReady
  | StateDegraded
  | StateFailed
  | StateDraining
  | StateStopped

type_synonym health_status = string

definition HealthReady :: health_status where "HealthReady = ''ready''"
definition HealthDegraded :: health_status where "HealthDegraded = ''degraded''"
definition HealthFailed :: health_status where "HealthFailed = ''failed''"
definition HealthDraining :: health_status where "HealthDraining = ''draining''"
definition HealthStopped :: health_status where "HealthStopped = ''stopped''"

lemmas health_defs =
  HealthReady_def HealthDegraded_def HealthFailed_def HealthDraining_def HealthStopped_def

lemma health_distinct [simp]:
  "HealthReady \<noteq> HealthDegraded" "HealthReady \<noteq> HealthFailed"
  "HealthReady \<noteq> HealthDraining" "HealthReady \<noteq> HealthStopped"
  "HealthDegraded \<noteq> HealthReady" "HealthDegraded \<noteq> HealthFailed"
  "HealthDegraded \<noteq> HealthDraining" "HealthDegraded \<noteq> HealthStopped"
  "HealthFailed \<noteq> HealthReady" "HealthFailed \<noteq> HealthDegraded"
  "HealthFailed \<noteq> HealthDraining" "HealthFailed \<noteq> HealthStopped"
  "HealthDraining \<noteq> HealthReady" "HealthDraining \<noteq> HealthDegraded"
  "HealthDraining \<noteq> HealthFailed" "HealthDraining \<noteq> HealthStopped"
  "HealthStopped \<noteq> HealthReady" "HealthStopped \<noteq> HealthDegraded"
  "HealthStopped \<noteq> HealthFailed" "HealthStopped \<noteq> HealthDraining"
  by (simp_all add: health_defs)

lemma health_nonempty [simp]:
  "HealthReady \<noteq> []" "HealthDegraded \<noteq> []" "HealthFailed \<noteq> []"
  "HealthDraining \<noteq> []" "HealthStopped \<noteq> []"
  by (simp_all add: health_defs)

record health =
  h_Status :: health_status
  h_Reason :: string
  h_Since :: gotime

definition zero_health :: health where
  "zero_health = \<lparr>h_Status = [], h_Reason = [], h_Since = zero_time\<rparr>"

section \<open>Manifest and envelope\<close>

record manifest =
  m_KernelID :: string
  m_Version :: string
  m_Scope :: scope
  m_Features :: "string slice"
  m_Requires :: any_map
  m_Resources :: any_map
  m_Security :: any_map
  m_Compat :: any_map

definition zero_manifest :: manifest where
  "zero_manifest = \<lparr>m_KernelID = [], m_Version = [], m_Scope = [], m_Features = None,
     m_Requires = None, m_Resources = None, m_Security = None, m_Compat = None\<rparr>"

record envelope =
  e_ID :: string
  e_Type :: string
  e_Key :: string
  e_Headers :: "(string, string) gomap option"
  e_Payload :: "8 word slice"
  e_OccurredAt :: gotime

section \<open>Exports\<close>

record network_endpoint =
  ne_Name :: string
  ne_Protocol :: string
  ne_Address :: string
  ne_Version :: string
  ne_Endpoints :: "string slice"

record event_spec =
  es_Topic :: string
  es_Description :: string

record stream_spec =
  ss_Topic :: string
  ss_Group :: string
  ss_DLQ :: string
  ss_Delivery :: string

record cli_command =
  cc_Name :: string
  cc_Description :: string

record local_service =
  ls_Name :: string
  ls_Interface :: string
  ls_Version :: string

record kernel_exports =
  x_Network :: "network_endpoint slice"
  x_Events :: "event_spec slice"
  x_Streams :: "stream_spec slice"
  x_CLI :: "cli_command slice"
  x_Local :: "local_service slice"

section \<open>Imports\<close>

record rpc_ref =
  rr_Name :: string
  rr_Version :: string
  rr_Optional :: bool

record topic_ref =
  tr_Topic :: string
  tr_Optional :: bool

record stream_ref =
  sr_Topic :: string
  sr_Group :: string
  sr_Optional :: bool

record storage_ref =
  st_Kind :: string
  st_Name :: string
  st_Optional :: bool

record kernel_imports =
  i_RPC :: "rpc_ref slice"
  i_Events :: "topic_ref slice"
  i_Streams :: "stream_ref slice"
  i_Storages :: "storage_ref slice"
  i_Env :: "string slice"

end
