(* ===== verification/Telemetry.thy ===== *)
theory Telemetry
  imports Contracts
begin

text \<open>
  Log levels, the log record, its filter and the conversion from the protobuf request
  (\<open>platform/telemetry\<close>: \<open>log.go\<close>, \<open>log_v2_gen.go\<close>, \<open>log_filter_gen.go\<close>,
  \<open>from_proto_gen.go\<close>, and the messages of \<open>proto/log_gateway.pb.go\<close>). \<open>Level\<close> is an integer
  type in the source: any integer can occur, the four constants are 0 to 3.
\<close>

section \<open>Levels\<close>

type_synonym level = int

definition Debug :: level where "Debug = 0"
definition Info :: level where "Info = 1"
definition Warn :: level where "Warn = 2"
definition Error :: level where "Error = 3"

lemmas level_defs = Debug_def Info_def Warn_def Error_def

definition level_string :: "level \<Rightarrow> string" where
  "level_string l =
     (if l = Debug then ''DEBUG''
      else if l = Info then ''INFO''
      else if l = Warn then ''WARN''
      else if l = Error then ''ERROR''
      else ''UNKNOWN'')"

definition parse_level :: "string \<Rightarrow> level" where
  "parse_level lv = (let u = go_to_upper lv in
     if u = ''DEBUG'' then Debug
     else if u = ''WARN'' \<or> u = ''WARNING'' then Warn
     else if u = ''ERROR'' then Error
     else Info)"

definition known_levels :: "level list" where
  "known_levels = [Debug, Info, Warn, Error]"

lemma parse_level_known: "parse_level lv \<in> set known_levels"
  by (simp add: parse_level_def known_levels_def Let_def)

lemma go_to_upper_keywords:
  "go_to_upper ''DEBUG'' = ''DEBUG''" "go_to_upper ''INFO'' = ''INFO''"
  "go_to_upper ''WARN'' = ''WARN''" "go_to_upper ''ERROR'' = ''ERROR''"
  "go_to_upper ''UNKNOWN'' = ''UNKNOWN''" "go_to_upper ''WARNING'' = ''WARNING''"
  by code_simp+

section \<open>Records\<close>

record log_record =
  v1_Time :: gotime
  v1_Level :: level
  v1_KernelID :: string
  v1_Scope :: string
  v1_Component :: string
  v1_Message :: string
  v1_Fields :: any_map

record log_record_v2 =
  l_Time :: gotime
  l_Level :: level
  l_KernelID :: string
  l_Scope :: string
  l_Component :: string
  l_Trace :: string
  l_Message :: string
  l_Fields :: any_map

definition zero_record :: log_record_v2 where
  "zero_record = \<lparr>l_Time = zero_time, l_Level = 0, l_KernelID = [], l_Scope = [],
     l_Component = [], l_Trace = [], l_Message = [], l_Fields = None\<rparr>"

definition from_v1 :: "log_record \<Rightarrow> log_record_v2" where
  "from_v1 r = \<lparr>l_Time = v1_Time r, l_Level = v1_Level r, l_KernelID = v1_KernelID r,
     l_Scope = v1_Scope r, l_Component = v1_Component r, l_Trace = [],
     l_Message = v1_Message r, l_Fields = v1_Fields r\<rparr>"

section \<open>The filter\<close>

record log_filter =
  f_LevelMin :: level
  f_KernelID :: string
  f_Scope :: string
  f_Component :: string

record filter_view =
  fv_Level :: level
  fv_KernelID :: string
  fv_Scope :: string
  fv_Component :: string

definition match_v1 :: "log_filter \<Rightarrow> filter_view \<Rightarrow> bool" where
  "match_v1 f r =
     (if f_KernelID f \<noteq> [] \<and> fv_KernelID r \<noteq> f_KernelID f then False
      else if f_Scope f \<noteq> [] \<and> fv_Scope r \<noteq> f_Scope f then False
      else if f_Component f \<noteq> [] \<and>
          (fv_Component r = [] \<or>
           length (fv_Component r) < length (f_Component f) \<or>
           take (length (f_Component f)) (fv_Component r) \<noteq> f_Component f) then False
      else f_LevelMin f \<le> fv_Level r)"

definition match_v2 :: "log_filter \<Rightarrow> log_record_v2 \<Rightarrow> bool" where
  "match_v2 f r = match_v1 f
     \<lparr>fv_Level = l_Level r, fv_KernelID = l_KernelID r, fv_Scope = l_Scope r,
      fv_Component = l_Component r\<rparr>"

lemma match_v2_iff:
  "match_v2 f r \<longleftrightarrow>
     (f_KernelID f = [] \<or> l_KernelID r = f_KernelID f) \<and>
     (f_Scope f = [] \<or> l_Scope r = f_Scope f) \<and>
     prefix (f_Component f) (l_Component r) \<and>
     f_LevelMin f \<le> l_Level r"
proof -
  have "prefix (f_Component f) (l_Component r) \<longleftrightarrow> f_Component f = [] \<or>
      \<not> (l_Component r = [] \<or> length (l_Component r) < length (f_Component f) \<or>
         take (length (f_Component f)) (l_Component r) \<noteq> f_Component f)"
    by (auto simp: has_prefix_iff[symmetric] has_prefix_def)
  then show ?thesis by (auto simp: match_v2_def match_v1_def)
qed

section \<open>Protobuf requests\<close>

record proto_field =
  pf_Key :: string
  pf_Value :: string

record proto_record =
  p_TimeUnixNano :: int
  p_Level :: string
  p_KernelId :: string
  p_Scope :: string
  p_Component :: string
  p_Trace :: string
  p_Message :: string
  p_Fields :: "proto_field option list"

record push_request =
  pr_Record :: "proto_record option"

text \<open>The loop over \<open>r.Fields\<close> skips nil entries and lets a later key overwrite an earlier one.\<close>

fun proto_fields :: "(string, any) gomap \<Rightarrow> proto_field option list \<Rightarrow> (string, any) gomap" where
  "proto_fields m [] = m"
| "proto_fields m (None # fs) = proto_fields m fs"
| "proto_fields m (Some f # fs) = proto_fields (go_put (pf_Key f) (AnyString (pf_Value f)) m) fs"

definition from_proto :: "push_request option \<Rightarrow> gotime \<Rightarrow> log_record_v2" where
  "from_proto req now =
     (case req of
        None \<Rightarrow> zero_record\<lparr>l_Time := now, l_Level := Info\<rparr>
      | Some q \<Rightarrow>
        (case pr_Record q of
           None \<Rightarrow> zero_record\<lparr>l_Time := now, l_Level := Info\<rparr>
         | Some r \<Rightarrow>
           \<lparr>l_Time = (if p_TimeUnixNano r > 0 then unix_epoch + p_TimeUnixNano r else now),
            l_Level = parse_level (p_Level r),
            l_KernelID = p_KernelId r,
            l_Scope = p_Scope r,
            l_Component = p_Component r,
            l_Trace = p_Trace r,
            l_Message = p_Message r,
            l_Fields = (if p_Fields r \<noteq> [] then Some (proto_fields [] (p_Fields r)) else None)\<rparr>))"

text \<open>The last non-nil entry for a key.\<close>

definition last_field :: "proto_field option list \<Rightarrow> string \<Rightarrow> string option" where
  "last_field fs k =
     map_of (rev (List.map_filter (map_option (\<lambda>f. (pf_Key f, pf_Value f))) fs)) k"

lemma last_field_Cons:
  "last_field (Some f # fs) k =
     (case last_field fs k of Some v \<Rightarrow> Some v
      | None \<Rightarrow> if pf_Key f = k then Some (pf_Value f) else None)"
  "last_field (None # fs) k = last_field fs k"
  "last_field [] k = None"
  by (auto simp: last_field_def map_filter_simps map_add_def split: option.splits)

lemma proto_fields_get:
  "go_get (proto_fields m fs) k =
     (case last_field fs k of Some v \<Rightarrow> Some (AnyString v) | None \<Rightarrow> go_get m k)"
  by (induction m fs rule: proto_fields.induct) (auto simp: last_field_Cons split: option.splits)

lemma parse_known_level: "l \<in> set known_levels \<Longrightarrow> parse_level (level_string l) = l"
  by (auto simp: level_string_def parse_level_def known_levels_def go_to_upper_keywords level_defs)

section \<open>Properties of levels, filters and conversion\<close>

text \<open>
  printing a level with \<open>Level.String\<close> and reading it back with \<open>parseLevel\<close> is the identity
  on the four levels; every other integer prints as UNKNOWN and reads back as Info.
\<close>
theorem parse_level_string:
  "parse_level (level_string l) = (if l \<in> set known_levels then l else Info)"
  by (simp add: level_string_def parse_level_def known_levels_def go_to_upper_keywords level_defs)

text \<open>
  \<open>LogFilter.MatchV2\<close> accepts a record exactly when each field that is set agrees: the kernel
  id and the scope are equal to the filter's, the filter's component is a prefix of the
  record's, and the record's level is at least the minimum (which is always compared).
\<close>
theorem match_v2_spec:
  "match_v2 f r \<longleftrightarrow>
     f_KernelID f \<in> {[], l_KernelID r} \<and> f_Scope f \<in> {[], l_Scope r} \<and>
     prefix (f_Component f) (l_Component r) \<and> f_LevelMin f \<le> l_Level r"
  by (auto simp: match_v2_iff)

text \<open>
  \<open>FromProto\<close> copies the identifying fields, always produces one of the four levels, takes the
  sender's time only when it is positive, and gives each field key the value of the last
  non-nil entry that carries it; nil entries never surface.
\<close>
theorem from_proto_faithful:
  "let rec = from_proto (Some \<lparr>pr_Record = Some r\<rparr>) now in
     any_string (l_Fields rec) k = last_field (p_Fields r) k \<and>
     (l_Fields rec = None \<longleftrightarrow> p_Fields r = []) \<and>
     l_Level rec = parse_level (p_Level r) \<and> l_Level rec \<in> set known_levels \<and>
     l_Time rec = (if 0 < p_TimeUnixNano r then unix_epoch + p_TimeUnixNano r else now) \<and>
     (l_KernelID rec, l_Scope rec, l_Component rec, l_Trace rec, l_Message rec) =
       (p_KernelId r, p_Scope r, p_Component r, p_Trace r, p_Message r)"
  by (auto simp: from_proto_def Let_def parse_level_known any_string_def any_get_def
      proto_fields_get last_field_Cons split: option.splits)

end
