(* ===== verification/Ports.thy ===== *)
theory Ports
  imports Prelude
begin

text \<open>
  The \<open>EventBus\<close> port of \<open>platform/ports/ports.go\<close> as an interface: what its clients (the tee
  logger, the log hubs, the health aggregator, the log forwarder) may rely on. The port
  promises at-most-once delivery into bounded queues; a provider interprets the locale.
\<close>

section \<open>Publishing on several topics\<close>

text \<open>How many of the topics \<open>ts\<close> are in \<open>S\<close>, counted with repetitions.\<close>

definition hits :: "string list \<Rightarrow> string set \<Rightarrow> nat" where
  "hits ts S = length (filter (\<lambda>t. t \<in> S) ts)"

lemma hits_simps [simp]:
  "hits [] S = 0" "hits (t # ts) S = (if t \<in> S then Suc (hits ts S) else hits ts S)"
  "hits (ts @ us) S = hits ts S + hits us S"
  by (simp_all add: hits_def)

lemma hits_distinct_le:
  assumes "distinct ts" and "\<And>t u. t \<in> S \<Longrightarrow> u \<in> S \<Longrightarrow> t = u"
  shows "hits ts S \<le> 1"
  using assms(1)
proof (induction ts)
  case (Cons t ts)
  show ?case
  proof (cases "t \<in> S")
    case True
    then have "filter (\<lambda>u. u \<in> S) ts = []"
      using assms(2) Cons.prems by (auto simp: filter_empty_conv)
    then show ?thesis by (simp add: hits_def True)
  next
    case False
    then show ?thesis using Cons by simp
  qed
qed simp

section \<open>The interface\<close>

locale event_bus =
  fixes publish :: "('m, 'w) publisher"
    and invar :: "'w \<Rightarrow> bool"
    and topics_of :: "'w \<Rightarrow> nat \<Rightarrow> string set" \<comment> \<open>topics a subscription listens to\<close>
    and queue :: "'w \<Rightarrow> nat \<Rightarrow> 'm list"
    and capacity :: nat
  assumes invar_publish: "invar w \<Longrightarrow> invar (fst (publish ctx t m w))"
    and topics_publish: "invar w \<Longrightarrow> topics_of (fst (publish ctx t m w)) = topics_of w"
    and queue_publish: "invar w \<Longrightarrow> queue (fst (publish False t m w)) i =
      (if t \<in> topics_of w i \<and> length (queue w i) < capacity then queue w i @ [m] else queue w i)"
    and queue_cancelled: "invar w \<Longrightarrow>
      queue (fst (publish True t m w)) i \<in> {queue w i, queue (fst (publish False t m w)) i}"
    and no_error: "invar w \<Longrightarrow> snd (publish False t m w) = None"
begin

lemma invar_all: "invar w \<Longrightarrow> invar (publish_all publish ctx ts m w)"
  by (induction ts arbitrary: w) (simp_all add: invar_publish)

lemma topics_all: "invar w \<Longrightarrow> topics_of (publish_all publish ctx ts m w) = topics_of w"
  by (induction ts arbitrary: w) (simp_all add: invar_publish topics_publish)

text \<open>At most once: one call adds the message at most once to any queue, and to no foreign one.\<close>

lemma at_most_once:
  assumes "invar w"
  shows "queue (fst (publish ctx t m w)) i \<in> {queue w i, queue w i @ [m]}"
    and "t \<notin> topics_of w i \<Longrightarrow> queue (fst (publish ctx t m w)) i = queue w i"
  using queue_publish[OF assms, of t m i] queue_cancelled[OF assms, of t m i]
  by (cases ctx; auto split: if_splits)+

text \<open>A subscriber gets one copy per topic it listens to, as far as its queue has room.\<close>

lemma queue_all:
  assumes "invar w"
  shows "queue (publish_all publish False ts m w) i =
    queue w i @ replicate (min (hits ts (topics_of w i)) (capacity - length (queue w i))) m"
  using assms
proof (induction ts arbitrary: w)
  case Nil
  then show ?case by simp
next
  case (Cons t ts)
  let ?w = "fst (publish False t m w)"
  have IH: "queue (publish_all publish False ts m ?w) i = queue ?w i @
      replicate (min (hits ts (topics_of w i)) (capacity - length (queue ?w i))) m"
    using Cons.IH[OF invar_publish[OF Cons.prems]] by (simp add: topics_publish[OF Cons.prems])
  show ?case
  proof (cases "t \<in> topics_of w i \<and> length (queue w i) < capacity")
    case True
    then obtain k where k: "capacity - length (queue w i) = Suc k"
      by (metis Suc_diff_Suc)
    then have "capacity - Suc (length (queue w i)) = k" by simp
    then show ?thesis
      using IH queue_publish[OF Cons.prems, of t m i] True k by simp
  next
    case False
    then show ?thesis using IH queue_publish[OF Cons.prems, of t m i] by auto
  qed
qed

lemma queue_all_room:
  assumes "invar w" and "length (queue w i) + hits ts (topics_of w i) \<le> capacity"
  shows "queue (publish_all publish False ts m w) i =
    queue w i @ replicate (hits ts (topics_of w i)) m"
  using queue_all[OF assms(1)] assms(2) by (simp add: min_def)

end

text \<open>A bus whose subscriptions listen to one topic each never delivers a duplicate per call.\<close>

locale single_topic_bus = event_bus +
  assumes one_topic: "invar w \<Longrightarrow> t \<in> topics_of w i \<Longrightarrow> u \<in> topics_of w i \<Longrightarrow> t = u"
begin

lemma distinct_topics_once:
  assumes "invar w" and "distinct ts"
  shows "queue (publish_all publish False ts m w) i \<in> {queue w i, queue w i @ [m]}"
proof -
  have "hits ts (topics_of w i) \<le> 1"
    using assms one_topic by (intro hits_distinct_le) auto
  then have "hits ts (topics_of w i) = 0 \<or> hits ts (topics_of w i) = 1" by linarith
  moreover have "min 1 k = 0 \<or> min 1 k = (1::nat)" for k by (simp add: min_def)
  ultimately show ?thesis
    using queue_all[OF assms(1), of ts m i] by (auto simp: replicate_eq_replicate min_def)
qed

end

end
