(* ===== verification/Event_Bus.thy ===== *)
theory Event_Bus
  imports Ports
begin

text \<open>
  The in-memory event bus of \<open>cmd/rk/event_bus_gen.go\<close>: topics, subscribers with a channel of
  capacity 16, non-blocking fan-out, cancellation that closes the channel. Subscribers are
  pointers in the source (a publisher keeps copies of them after releasing the lock), so they
  live in a heap indexed by the subscription id, which \<open>next\<close> makes unique.

  These are the operations as the lock serialises them; \<open>Bus_Threads\<close> interleaves them, because
  \<open>Publish\<close> sends after it has released the lock.
\<close>

section \<open>State and operations\<close>

record 'm subscriber =
  sub_ch :: "'m chan"
  sub_closed :: bool

record 'm bus =
  bus_subs :: "(string, (nat, nat) gomap) gomap" \<comment> \<open>topic, id, pointer\<close>
  bus_next :: nat
  bus_heap :: "nat \<Rightarrow> 'm subscriber option"

definition new_bus :: "'m bus" where
  "new_bus = \<lparr>bus_subs = [], bus_next = 0, bus_heap = (\<lambda>_. None)\<rparr>"

definition topic_subs :: "'m bus \<Rightarrow> string \<Rightarrow> (nat, nat) gomap" where
  "topic_subs b topic = (case go_get (bus_subs b) topic of None \<Rightarrow> [] | Some m \<Rightarrow> m)"

definition bus_subscribe :: "string \<Rightarrow> 'm bus \<Rightarrow> 'm bus \<times> nat" where
  "bus_subscribe topic b =
     (let i = bus_next b;
          sub = \<lparr>sub_ch = make_chan 16, sub_closed = False\<rparr>
      in (b\<lparr>bus_subs := go_put topic (go_put i i (topic_subs b topic)) (bus_subs b),
            bus_next := Suc i,
            bus_heap := (bus_heap b)(i := Some sub)\<rparr>, i))"

text \<open>
  The cancel function of subscription \<open>i\<close> on \<open>topic\<close>. It finds the subscriber through the map,
  closes its channel once, removes it, and removes the topic when it was the last.
\<close>

definition bus_cancel :: "string \<Rightarrow> nat \<Rightarrow> 'm bus \<Rightarrow> 'm bus" where
  "bus_cancel topic i b =
     (case go_get (bus_subs b) topic of
        None \<Rightarrow> b
      | Some subs \<Rightarrow>
        let (subs', heap') =
              (case go_get subs i of
                 None \<Rightarrow> (subs, bus_heap b)
               | Some p \<Rightarrow>
                 (case bus_heap b p of
                    None \<Rightarrow> (subs, bus_heap b)
                  | Some s \<Rightarrow>
                    if sub_closed s then (subs, bus_heap b)
                    else (go_del i subs,
                          (bus_heap b)(p := Some (s\<lparr>sub_ch := chan_close (sub_ch s),
                                                   sub_closed := True\<rparr>)))))
        in b\<lparr>bus_subs := (if subs' = [] then go_del topic (bus_subs b)
                          else go_put topic subs' (bus_subs b)),
             bus_heap := heap'\<rparr>)"

text \<open>One \<open>select\<close> of the delivery loop on subscriber \<open>p\<close>, when the context is not cancelled.\<close>

datatype 'm delivery = Delivered "'m bus" | Dropped | DeliveryPanic

definition bus_deliver :: "'m \<Rightarrow> nat \<Rightarrow> 'm bus \<Rightarrow> 'm delivery" where
  "bus_deliver m p b =
     (case bus_heap b p of
        None \<Rightarrow> DeliveryPanic
      | Some s \<Rightarrow>
        (case chan_try_send m (sub_ch s) of
           Sent c \<Rightarrow> Delivered (b\<lparr>bus_heap := (bus_heap b)(p := Some (s\<lparr>sub_ch := c\<rparr>))\<rparr>)
         | WouldBlock \<Rightarrow> Dropped
         | SendPanic \<Rightarrow> DeliveryPanic))"

text \<open>
  The delivery loop over the copied pointers. \<open>None\<close> is a panic. When the context is cancelled
  and a send is possible, \<open>select\<close> picks either case at random: the booleans of \<open>choice\<close> say for
  each subscriber whether the send is taken; when the send is not possible the context's case is
  the only ready one and the call returns the context's error.
\<close>

fun deliver_loop :: "ctx_done \<Rightarrow> bool list \<Rightarrow> 'm \<Rightarrow> nat list \<Rightarrow> 'm bus
    \<Rightarrow> ('m bus \<times> go_error option) option" where
  "deliver_loop ctx choice m [] b = Some (b, None)"
| "deliver_loop ctx choice m (p # ps) b =
     (if ctx \<and> \<not> (choice \<noteq> [] \<and> hd choice) then Some (b, Some ''context canceled'')
      else case bus_deliver m p b of
          Delivered b' \<Rightarrow> deliver_loop ctx (drop 1 choice) m ps b'
        | Dropped \<Rightarrow> if ctx then Some (b, Some ''context canceled'')
                     else deliver_loop ctx (drop 1 choice) m ps b
        | DeliveryPanic \<Rightarrow> None)"

definition bus_publish ::
  "((nat, nat) gomap \<Rightarrow> (nat, nat) gomap) \<Rightarrow> bool list \<Rightarrow> ctx_done \<Rightarrow> string \<Rightarrow> 'm \<Rightarrow> 'm bus
    \<Rightarrow> ('m bus \<times> go_error option) option" where
  "bus_publish iter choice ctx topic m b =
     (let subs = topic_subs b topic
      in if subs = [] then Some (b, None)
         else deliver_loop ctx choice m (map snd (iter subs)) b)"

text \<open>A receive by the holder of subscription \<open>i\<close>.\<close>

definition bus_recv :: "nat \<Rightarrow> 'm bus \<Rightarrow> ('m \<times> 'm bus) option" where
  "bus_recv i b = (case bus_heap b i of None \<Rightarrow> None
     | Some s \<Rightarrow> (case chan_try_recv (sub_ch s) of
         Received m c \<Rightarrow> Some (m, b\<lparr>bus_heap := (bus_heap b)(i := Some (s\<lparr>sub_ch := c\<rparr>))\<rparr>)
       | _ \<Rightarrow> None))"

section \<open>The invariant\<close>

text \<open>
  Every registered subscriber is open and stored under its own id in one topic only; no
  registered topic is empty; the closed flag of a subscriber is that of its channel; every
  channel respects its capacity of 16; ids are below \<open>next\<close>.
\<close>

definition heap_ok :: "'m bus \<Rightarrow> bool" where
  "heap_ok b \<longleftrightarrow> (\<forall>p s. bus_heap b p = Some s \<longrightarrow>
     p < bus_next b \<and> chan_ok (sub_ch s) \<and> c_cap (sub_ch s) = 16 \<and>
     c_closed (sub_ch s) = sub_closed s)"

definition subs_ok :: "'m bus \<Rightarrow> bool" where
  "subs_ok b \<longleftrightarrow> go_map (bus_subs b) \<and>
     (\<forall>t. go_get (bus_subs b) t \<noteq> Some []) \<and>
     (\<forall>t. go_map (topic_subs b t)) \<and>
     (\<forall>t i p. go_get (topic_subs b t) i = Some p \<longrightarrow>
        p = i \<and> (\<exists>s. bus_heap b i = Some s \<and> \<not> sub_closed s)) \<and>
     (\<forall>t t' i p p'. go_get (topic_subs b t) i = Some p \<longrightarrow>
        go_get (topic_subs b t') i = Some p' \<longrightarrow> t = t')"

definition bus_ok :: "'m bus \<Rightarrow> bool" where
  "bus_ok b \<longleftrightarrow> heap_ok b \<and> subs_ok b"

lemma bus_ok_new [inv_intros]: "bus_ok new_bus"
  by (simp add: bus_ok_def heap_ok_def subs_ok_def new_bus_def topic_subs_def)

lemma topic_subs_get:
  assumes "bus_ok b" and "go_get (topic_subs b t) i = Some p"
  shows "p = i" and "i < bus_next b"
    and "\<exists>s. bus_heap b i = Some s \<and> \<not> sub_closed s \<and> \<not> c_closed (sub_ch s) \<and>
      chan_ok (sub_ch s) \<and> c_cap (sub_ch s) = 16"
proof -
  obtain s where s: "p = i" "bus_heap b i = Some s" "\<not> sub_closed s"
    using assms unfolding bus_ok_def subs_ok_def by blast
  with assms(1) show "p = i" "i < bus_next b"
      "\<exists>s. bus_heap b i = Some s \<and> \<not> sub_closed s \<and> \<not> c_closed (sub_ch s) \<and>
      chan_ok (sub_ch s) \<and> c_cap (sub_ch s) = 16"
    by (auto simp: bus_ok_def heap_ok_def)
qed

lemma topic_subs_map: "bus_ok b \<Longrightarrow> go_map (topic_subs b t)"
  by (simp add: bus_ok_def subs_ok_def)

lemma topic_subs_unique:
  "bus_ok b \<Longrightarrow> go_get (topic_subs b t) i = Some p \<Longrightarrow> go_get (topic_subs b t') i = Some p' \<Longrightarrow> t = t'"
  unfolding bus_ok_def subs_ok_def by blast

lemma topic_subs_subscribe:
  "topic_subs (fst (bus_subscribe topic b)) t =
     (if t = topic then go_put (bus_next b) (bus_next b) (topic_subs b topic) else topic_subs b t)"
  by (simp add: topic_subs_def bus_subscribe_def Let_def)

lemma go_put_nonempty [simp]: "go_put k v m \<noteq> []"
proof
  assume "go_put k v m = []"
  then have "go_get (go_put k v m) k = None" by (simp only: go_get_Nil)
  then show False by simp
qed

lemma bus_ok_subscribe [inv_intros]:
  assumes "bus_ok b"
  shows "bus_ok (fst (bus_subscribe topic b))"
proof -
  let ?b = "fst (bus_subscribe topic b)"
  have fresh: "go_get (topic_subs b t) (bus_next b) = None" for t
    using topic_subs_get(2)[OF assms, of t "bus_next b"] by fastforce
  have hp: "bus_heap ?b = (bus_heap b)(bus_next b := Some \<lparr>sub_ch = make_chan 16, sub_closed = False\<rparr>)"
    and nx: "bus_next ?b = Suc (bus_next b)"
    by (simp_all add: bus_subscribe_def Let_def)
  have heap: "heap_ok ?b"
    using assms by (auto simp: bus_ok_def heap_ok_def hp nx less_SucI)
  have get: "\<exists>s. bus_heap ?b i = Some s \<and> \<not> sub_closed s" "p = i"
    if "go_get (topic_subs ?b t) i = Some p" for t i p
    using that topic_subs_get(1,3)[OF assms, of t i p]
    by (auto simp: topic_subs_subscribe hp split: if_splits)
  have uniq: "t = t'"
    if "go_get (topic_subs ?b t) i = Some p" "go_get (topic_subs ?b t') i = Some p'" for t t' i p p'
    using that topic_subs_unique[OF assms, of t i p t' p'] fresh
    by (auto simp: topic_subs_subscribe split: if_splits)
  have "go_map (bus_subs ?b)" "go_get (bus_subs ?b) t \<noteq> Some []" "go_map (topic_subs ?b t)" for t
    using assms
    by (auto simp: topic_subs_subscribe topic_subs_map)
      (auto simp: bus_subscribe_def Let_def bus_ok_def subs_ok_def split: if_splits)
  then have "subs_ok ?b"
    unfolding subs_ok_def using get uniq by blast
  with heap show ?thesis by (simp add: bus_ok_def)
qed

text \<open>On a well-formed bus a cancel has two outcomes: nothing, or one subscriber closed and removed.\<close>

definition drop_topic :: "string \<Rightarrow> (nat, nat) gomap \<Rightarrow> (string, (nat, nat) gomap) gomap
    \<Rightarrow> (string, (nat, nat) gomap) gomap" where
  "drop_topic t m subs = (if m = [] then go_del t subs else go_put t m subs)"

lemma bus_cancel_cases:
  assumes "bus_ok b"
  obtains
    (absent) "go_get (topic_subs b t) i = None"
      "\<And>t'. topic_subs (bus_cancel t i b) t' = topic_subs b t'"
      "bus_heap (bus_cancel t i b) = bus_heap b"
  | (present) s where "go_get (topic_subs b t) i = Some i" "bus_heap b i = Some s" "\<not> sub_closed s"
      "\<And>t'. topic_subs (bus_cancel t i b) t' = (if t' = t then go_del i (topic_subs b t)
         else topic_subs b t')"
      "bus_heap (bus_cancel t i b) =
         (bus_heap b)(i := Some (s\<lparr>sub_ch := chan_close (sub_ch s), sub_closed := True\<rparr>))"
proof (cases "go_get (bus_subs b) t")
  case None
  then show thesis by (intro absent) (simp_all add: topic_subs_def bus_cancel_def)
next
  case top: (Some m)
  then have m: "topic_subs b t = m" and ne: "m \<noteq> []"
    using assms by (auto simp: topic_subs_def bus_ok_def subs_ok_def)
  show thesis
  proof (cases "go_get m i")
    case None
    then show thesis
      using top ne m by (intro absent) (auto simp: bus_cancel_def topic_subs_def Let_def)
  next
    case (Some p)
    then obtain s where "p = i" "bus_heap b i = Some s" "\<not> sub_closed s"
      using topic_subs_get[OF assms, of t i p] m by auto
    with Some top m show thesis
      by (intro present[of s]) (auto simp: bus_cancel_def topic_subs_def Let_def)
  qed
qed

lemma bus_cancel_subs:
  assumes "bus_ok b"
  shows "go_map (bus_subs (bus_cancel t i b))"
    and "go_get (bus_subs (bus_cancel t i b)) t' \<noteq> Some []"
    and "bus_next (bus_cancel t i b) = bus_next b"
  using assms by (auto simp: bus_cancel_def bus_ok_def subs_ok_def Let_def split: option.splits)

lemma bus_ok_cancel [inv_intros]:
  assumes "bus_ok b"
  shows "bus_ok (bus_cancel t i b)"
proof -
  let ?b = "bus_cancel t i b"
  note cancel = bus_cancel_cases[OF assms, of t i]
  have heap: "heap_ok ?b"
    by (rule cancel) (use assms in \<open>auto simp: heap_ok_def bus_cancel_subs(3)[OF assms] bus_ok_def\<close>)
  have sub: "go_get (topic_subs ?b t') j = Some p \<Longrightarrow>
      go_get (topic_subs b t') j = Some p \<and> (t' = t \<longrightarrow> j \<noteq> i \<or> bus_heap ?b = bus_heap b)" for t' j p
    by (rule cancel) (auto split: if_splits)
  have get: "p = j" "\<exists>s. bus_heap ?b j = Some s \<and> \<not> sub_closed s"
    if "go_get (topic_subs ?b t') j = Some p" for t' j p
  proof -
    have old: "go_get (topic_subs b t') j = Some p" using sub[OF that] by blast
    show "p = j" by (rule topic_subs_get(1)[OF assms old])
    show "\<exists>s. bus_heap ?b j = Some s \<and> \<not> sub_closed s"
      by (rule cancel)
        (use topic_subs_get(3)[OF assms old] sub[OF that] topic_subs_unique[OF assms old, of t i]
          in \<open>fastforce split: if_splits\<close>)+
  qed
  have maps: "go_map (topic_subs ?b t')" for t'
    by (rule cancel) (simp_all add: topic_subs_map[OF assms])
  have uniq: "u = u'" if "go_get (topic_subs ?b u) j = Some p" "go_get (topic_subs ?b u') j = Some p'"
    for u u' j p p'
    using sub[OF that(1)] sub[OF that(2)] topic_subs_unique[OF assms] by blast
  have "subs_ok ?b"
    unfolding subs_ok_def using get maps uniq bus_cancel_subs[OF assms] by blast
  with heap show ?thesis by (simp add: bus_ok_def)
qed

section \<open>Delivery\<close>

text \<open>What one delivery does to an open subscriber: append, or drop when the 16 slots are full.\<close>

definition offer :: "'m \<Rightarrow> 'm subscriber \<Rightarrow> 'm subscriber" where
  "offer m s = (if length (c_buf (sub_ch s)) < c_cap (sub_ch s)
     then s\<lparr>sub_ch := (sub_ch s)\<lparr>c_buf := c_buf (sub_ch s) @ [m]\<rparr>\<rparr> else s)"

definition offer_all :: "'m \<Rightarrow> nat set \<Rightarrow> (nat \<Rightarrow> 'm subscriber option) \<Rightarrow> nat \<Rightarrow> 'm subscriber option" where
  "offer_all m D h = (\<lambda>i. if i \<in> D then map_option (offer m) (h i) else h i)"

definition bus_open :: "'m bus \<Rightarrow> nat \<Rightarrow> bool" where
  "bus_open b p \<longleftrightarrow> (\<exists>s. bus_heap b p = Some s \<and> \<not> sub_closed s)"

definition bus_offer :: "'m \<Rightarrow> nat set \<Rightarrow> 'm bus \<Rightarrow> 'm bus" where
  "bus_offer m D b = b\<lparr>bus_heap := offer_all m D (bus_heap b)\<rparr>"

lemma bus_offer_simps [simp]:
  "bus_subs (bus_offer m D b) = bus_subs b" "bus_next (bus_offer m D b) = bus_next b"
  "bus_heap (bus_offer m D b) i = (if i \<in> D then map_option (offer m) (bus_heap b i) else bus_heap b i)"
  "bus_offer m {} b = b" "topic_subs (bus_offer m D b) t = topic_subs b t"
  by (simp_all add: bus_offer_def offer_all_def topic_subs_def)

lemma offer_closed [simp]: "sub_closed (offer m s) = sub_closed s"
  by (simp add: offer_def)

lemma bus_offer_open [simp]: "bus_open (bus_offer m D b) p = bus_open b p"
  by (auto simp: bus_open_def)

lemma bus_offer_insert:
  "p \<notin> D \<Longrightarrow> bus_offer m D (bus_offer m {p} b) = bus_offer m (insert p D) b"
  by (auto simp: bus_offer_def offer_all_def fun_eq_iff)

lemma bus_ok_offer [inv_intros]:
  assumes "bus_ok b"
  shows "bus_ok (bus_offer m D b)"
proof -
  have "heap_ok (bus_offer m D b)"
    using assms by (fastforce simp: bus_ok_def heap_ok_def offer_def chan_ok_def split: if_splits)
  moreover have "\<exists>s. bus_heap (bus_offer m D b) i = Some s \<and> \<not> sub_closed s"
    if "\<exists>s. bus_heap b i = Some s \<and> \<not> sub_closed s" for i
    using that by auto
  then have "subs_ok (bus_offer m D b)"
    using assms unfolding bus_ok_def subs_ok_def by simp
  ultimately show ?thesis by (simp add: bus_ok_def)
qed

lemma bus_deliver_open:
  assumes "bus_ok b" and "bus_open b p"
  shows "bus_deliver m p b = Delivered (bus_offer m {p} b) \<or>
    bus_deliver m p b = Dropped \<and> bus_offer m {p} b = b"
proof -
  obtain s where s: "bus_heap b p = Some s" "\<not> c_closed (sub_ch s)"
    using assms by (auto simp: bus_open_def bus_ok_def heap_ok_def)
  show ?thesis
  proof (cases "length (c_buf (sub_ch s)) < c_cap (sub_ch s)")
    case True
    then show ?thesis using s
      by (auto simp: bus_deliver_def chan_try_send_def bus_offer_def offer_all_def offer_def fun_eq_iff
          intro!: bus.equality)
  next
    case False
    then show ?thesis using s
      by (auto simp: bus_deliver_def chan_try_send_def bus_offer_def offer_all_def offer_def fun_eq_iff
          intro!: bus.equality)
  qed
qed

text \<open>
  The delivery loop over open subscribers never panics; it offers the message to a set of them,
  to all of them when the context is not cancelled.
\<close>

lemma deliver_loop_open:
  assumes "bus_ok b" and "distinct ps" and "\<And>p. p \<in> set ps \<Longrightarrow> bus_open b p"
  shows "\<exists>D e. D \<subseteq> set ps \<and> deliver_loop ctx choice m ps b = Some (bus_offer m D b, e) \<and>
    (\<not> ctx \<longrightarrow> D = set ps \<and> e = None)"
  using assms
proof (induction ctx choice m ps b rule: deliver_loop.induct)
  case (1 ctx choice m b)
  then show ?case by (intro exI[of _ "{}"]) simp
next
  case (2 ctx choice m p ps b)
  show ?case
  proof (cases "ctx \<and> \<not> (choice \<noteq> [] \<and> hd choice)")
    case True
    then show ?thesis by (intro exI[of _ "{}"]) simp
  next
    case go: False
    have p: "bus_open b p" and pnot: "p \<notin> set ps" using 2 by auto
    have ok: "bus_ok (bus_offer m {p} b)" using 2 by (intro inv_intros)
    from bus_deliver_open[OF "2.prems"(1) p, of m] consider
        (sent) "bus_deliver m p b = Delivered (bus_offer m {p} b)"
      | (dropped) "bus_deliver m p b = Dropped" "bus_offer m {p} b = b"
      by blast
    then show ?thesis
    proof cases
      case sent
      obtain D e where D: "D \<subseteq> set ps" "\<not> ctx \<longrightarrow> D = set ps \<and> e = None"
          "deliver_loop ctx (drop 1 choice) m ps (bus_offer m {p} b) =
             Some (bus_offer m D (bus_offer m {p} b), e)"
        using "2.IH"(1)[OF go sent ok] "2.prems" by auto
      moreover have "p \<notin> D" using D(1) pnot by blast
      ultimately show ?thesis
        using go sent by (intro exI[of _ "insert p D"] exI[of _ e]) (auto simp: bus_offer_insert)
    next
      case dropped
      show ?thesis
      proof (cases ctx)
        case True
        then show ?thesis using dropped go by (intro exI[of _ "{}"]) simp
      next
        case False
        obtain D e where D: "D \<subseteq> set ps" "\<not> ctx \<longrightarrow> D = set ps \<and> e = None"
            "deliver_loop ctx (drop 1 choice) m ps b = Some (bus_offer m D b, e)"
          using "2.IH"(2)[OF go dropped(1) False] "2.prems" by auto
        moreover have "p \<notin> D" using D(1) pnot by blast
        ultimately show ?thesis
          using go False dropped bus_offer_insert[of p D m b]
          by (intro exI[of _ "insert p D"] exI[of _ e]) auto
      qed
    qed
  qed
qed

text \<open>The subscribers registered on a topic, and the whole of \<open>Publish\<close>.\<close>

definition subscribed :: "'m bus \<Rightarrow> string \<Rightarrow> nat set" where
  "subscribed b topic = go_keys (topic_subs b topic)"

definition iter_ok :: "((nat, nat) gomap \<Rightarrow> (nat, nat) gomap) \<Rightarrow> bool" where
  "iter_ok iter \<longleftrightarrow> (\<forall>m. go_range m (iter m))"

lemma topic_subs_values:
  assumes "bus_ok b" and "go_range (topic_subs b t) ord"
  shows "distinct (map snd ord)" and "set (map snd ord) = subscribed b t"
    and "p \<in> set (map snd ord) \<Longrightarrow> bus_open b p"
proof -
  have eq: "snd e = fst e" if "e \<in> set ord" for e
    using that topic_subs_get(1)[OF assms(1)] go_range_get[OF topic_subs_map[OF assms(1)] assms(2)]
    by (metis prod.collapse)
  then have m: "map snd ord = map fst ord" by simp
  show "distinct (map snd ord)"
    unfolding m by (rule go_range_distinct[OF topic_subs_map[OF assms(1)] assms(2)])
  show set: "set (map snd ord) = subscribed b t"
    unfolding m subscribed_def using go_range_keys[OF assms(2)] by simp
  show "bus_open b p" if "p \<in> set (map snd ord)"
    using that topic_subs_get(3)[OF assms(1), of t p] unfolding set subscribed_def bus_open_def
    by (auto simp: go_keys_get)
qed

lemma bus_publish_result:
  assumes "bus_ok b" and "iter_ok iter"
  shows "\<exists>D e. D \<subseteq> subscribed b topic \<and>
    bus_publish iter choice ctx topic m b = Some (bus_offer m D b, e) \<and>
    (\<not> ctx \<longrightarrow> D = subscribed b topic \<and> e = None)"
proof (cases "topic_subs b topic = []")
  case True
  then show ?thesis by (intro exI[of _ "{}"]) (simp add: bus_publish_def subscribed_def)
next
  case False
  have r: "go_range (topic_subs b topic) (iter (topic_subs b topic))"
    using assms(2) by (simp add: iter_ok_def)
  note v = topic_subs_values[OF assms(1) r]
  show ?thesis
    using deliver_loop_open[OF assms(1) v(1) v(3), of ctx choice m] v(2) False
    by (auto simp: bus_publish_def)
qed

section \<open>The bus provides the port\<close>

text \<open>
  \<open>Publish\<close> as a total publisher, for a fixed iteration order and fixed random choices. The
  panic is mapped to an error here; on a well-formed bus it does not occur.
\<close>

definition bus_publisher ::
  "((nat, nat) gomap \<Rightarrow> (nat, nat) gomap) \<Rightarrow> bool list \<Rightarrow> ('m, 'm bus) publisher" where
  "bus_publisher iter choice ctx topic m b =
     (case bus_publish iter choice ctx topic m b of
        Some r \<Rightarrow> r | None \<Rightarrow> (b, Some ''panic''))"

definition bus_queue :: "'m bus \<Rightarrow> nat \<Rightarrow> 'm list" where
  "bus_queue b i = (case bus_heap b i of None \<Rightarrow> [] | Some s \<Rightarrow> c_buf (sub_ch s))"

definition bus_topics :: "'m bus \<Rightarrow> nat \<Rightarrow> string set" where
  "bus_topics b i = {t. i \<in> subscribed b t}"

lemma bus_publisher_result:
  assumes "bus_ok b" and "iter_ok iter"
  obtains D e where "D \<subseteq> subscribed b topic"
    "bus_publisher iter choice ctx topic m b = (bus_offer m D b, e)"
    "\<not> ctx \<Longrightarrow> D = subscribed b topic \<and> e = None"
proof -
  obtain D e where "D \<subseteq> subscribed b topic"
      "bus_publish iter choice ctx topic m b = Some (bus_offer m D b, e)"
      "\<not> ctx \<longrightarrow> D = subscribed b topic \<and> e = None"
    using bus_publish_result[OF assms, of topic choice ctx m] by (elim exE conjE)
  then show thesis using that[of D e] by (simp add: bus_publisher_def)
qed

lemma subscribed_heap:
  assumes "bus_ok b" and "i \<in> subscribed b t"
  obtains s where "bus_heap b i = Some s" "c_cap (sub_ch s) = 16"
  using topic_subs_get(3)[OF assms(1), of t i] assms(2)
  by (auto simp: subscribed_def go_keys_get)

lemma bus_queue_offer:
  assumes "bus_ok b" and "D \<subseteq> subscribed b t"
  shows "bus_queue (bus_offer m D b) i =
    (if i \<in> D \<and> length (bus_queue b i) < 16 then bus_queue b i @ [m] else bus_queue b i)"
proof (cases "i \<in> D")
  case True
  then obtain s where "bus_heap b i = Some s" "c_cap (sub_ch s) = 16"
    using assms by (meson subscribed_heap subsetD)
  then show ?thesis using True by (simp add: bus_queue_def offer_def)
qed (simp add: bus_queue_def)

interpretation memory_bus: single_topic_bus "bus_publisher iter choice"
  "\<lambda>b. bus_ok b \<and> iter_ok iter" bus_topics bus_queue 16
proof (unfold_locales, goal_cases)
  case (1 w ctx t m)
  then show ?case
    by (metis bus_publisher_result bus_ok_offer fst_conv)
next
  case (2 w ctx t m)
  then show ?case
    using bus_publisher_result[of w iter t choice ctx m]
    by (metis bus_offer_simps(5) bus_topics_def ext fst_conv subscribed_def)
next
  case (3 w t m i)
  then have w: "bus_ok w" "iter_ok iter" by auto
  obtain D e where "D \<subseteq> subscribed w t"
      "bus_publisher iter choice False t m w = (bus_offer m D w, e)" "D = subscribed w t"
    using bus_publisher_result[OF w, of t choice False m] by metis
  then show ?case using bus_queue_offer[OF w(1), of D t m i] by (auto simp: bus_topics_def)
next
  case (4 w t m i)
  then have w: "bus_ok w" "iter_ok iter" by auto
  obtain D e where D: "D \<subseteq> subscribed w t"
      "bus_publisher iter choice True t m w = (bus_offer m D w, e)"
    using bus_publisher_result[OF w, of t choice True m] by metis
  moreover obtain e' where "bus_publisher iter choice False t m w = (bus_offer m (subscribed w t) w, e')"
    using bus_publisher_result[OF w, of t choice False m] by metis
  ultimately show ?case
    using bus_queue_offer[OF w(1) D(1), of m i] bus_queue_offer[OF w(1), of "subscribed w t" t m i]
    by auto
next
  case (5 w t m)
  then show ?case using bus_publisher_result[of w iter t choice False m] by (metis snd_conv)
next
  case (6 w t i u)
  then show ?case
    using topic_subs_unique[of w t i _ u] by (auto simp: bus_topics_def subscribed_def go_keys_get)
qed

section \<open>Receiving and cancelling, as seen by the others\<close>

lemma bus_recv_ok:
  assumes "bus_recv i b = Some (m, b')" and "bus_ok b"
  shows "bus_ok b'" and "bus_open b' p = bus_open b p" and "bus_subs b' = bus_subs b"
proof -
  obtain s c where sc: "bus_heap b i = Some s" "chan_try_recv (sub_ch s) = Received m c"
      "b' = b\<lparr>bus_heap := (bus_heap b)(i := Some (s\<lparr>sub_ch := c\<rparr>))\<rparr>"
    using assms(1) by (auto simp: bus_recv_def split: option.splits recv_result.splits)
  have c: "c_cap c = c_cap (sub_ch s)" "c_closed c = c_closed (sub_ch s)"
    using sc(2) by (auto simp: chan_recv_Received)
  have heap: "heap_ok b'"
    using assms(2) sc c chan_ok_recv[OF _ sc(2)] by (auto simp: bus_ok_def heap_ok_def)
  have ts: "topic_subs b' t = topic_subs b t" for t by (simp add: sc topic_subs_def)
  have op: "(\<exists>s. bus_heap b' j = Some s \<and> \<not> sub_closed s) \<longleftrightarrow>
      (\<exists>s. bus_heap b j = Some s \<and> \<not> sub_closed s)" for j
    using sc by auto
  have "subs_ok b'"
    using assms(2) unfolding bus_ok_def subs_ok_def ts op by (simp add: sc)
  with heap show "bus_ok b'" by (simp add: bus_ok_def)
  show "bus_open b' p = bus_open b p" using op by (simp add: bus_open_def)
  show "bus_subs b' = bus_subs b" by (simp add: sc)
qed

lemma bus_subscribe_open:
  "bus_ok b \<Longrightarrow> bus_open b p \<Longrightarrow> bus_open (fst (bus_subscribe t b)) p"
  by (auto simp: bus_open_def bus_subscribe_def Let_def)

lemma bus_cancel_open:
  assumes "bus_ok b" and "bus_open b p" and "p \<noteq> i"
  shows "bus_open (bus_cancel t i b) p"
  by (rule bus_cancel_cases[OF assms(1), of t i]) (use assms in \<open>auto simp: bus_open_def\<close>)

section \<open>Properties of the bus\<close>

text \<open>
  C5: On a well-formed bus, Publish with a live context never panics and never fails, whatever the
  map iteration order: it appends the message to the queue of exactly the topic's
  subscribers that have room among their 16 slots, drops it for the full ones, and changes
  nothing else, so the result does not depend on the iteration order.
\<close>
theorem bus_publish_delivers:
  assumes "bus_ok b" and "iter_ok iter"
  shows "\<exists>b'. bus_publish iter choice False topic m b = Some (b', None) \<and> bus_ok b' \<and>
    bus_subs b' = bus_subs b \<and>
    (\<forall>i. bus_queue b' i = (if i \<in> subscribed b topic \<and> length (bus_queue b i) < 16
       then bus_queue b i @ [m] else bus_queue b i))"
proof -
  let ?b = "bus_offer m (subscribed b topic) b"
  have "bus_publish iter choice False topic m b = Some (?b, None)"
    using bus_publish_result[OF assms, of topic choice False m] by auto
  then show ?thesis
    using bus_ok_offer[OF assms(1)] bus_queue_offer[OF assms(1) order.refl, of m topic] by auto
qed

definition sample_bus :: "nat bus" where
  "sample_bus = fst (bus_subscribe ''t'' (fst (bus_subscribe ''u'' (fst (bus_subscribe ''t'' new_bus)))))"

lemma sample_bus_ok: "bus_ok sample_bus"
  by (simp add: sample_bus_def inv_intros)

lemma iter_ok_rev: "iter_ok rev"
  by (simp add: iter_ok_def go_range_def)

theorem bus_publish_delivers_witness:
  "\<exists>b'. bus_publish rev [] False ''t'' 7 sample_bus = Some (b', None) \<and>
     bus_queue b' 0 = [7] \<and> bus_queue b' 1 = [] \<and> bus_queue b' 2 = [7]"
  using bus_publish_delivers[OF sample_bus_ok iter_ok_rev, of "[]" "''t''" 7]
  by (auto simp: sample_bus_def bus_queue_def subscribed_def go_keys_get topic_subs_def
      bus_subscribe_def new_bus_def)

text \<open>
  Subscribe, Publish, receive and cancel keep the bus well formed: registered subscribers are
  open, sit in one topic under their own id, no topic entry is empty, and no channel exceeds
  its 16 slots; cancelling twice is the same as cancelling once.
\<close>
theorem bus_operations_ok:
  assumes "bus_ok b"
  shows "bus_ok (fst (bus_subscribe t b)) \<and> bus_ok (bus_cancel t i b) \<and>
    (iter_ok iter \<longrightarrow> bus_ok (fst (bus_publisher iter choice ctx t m b))) \<and>
    (\<forall>x b'. bus_recv i b = Some (x, b') \<longrightarrow> bus_ok b') \<and>
    bus_heap (bus_cancel t i (bus_cancel t i b)) = bus_heap (bus_cancel t i b) \<and>
    subscribed (bus_cancel t i b) t = subscribed b t - {i}"
proof -
  have gone: "go_get (topic_subs (bus_cancel t i b) t) i = None"
    by (rule bus_cancel_cases[OF assms, of t i]) simp_all
  have idem: "bus_heap (bus_cancel t i (bus_cancel t i b)) = bus_heap (bus_cancel t i b)"
    by (rule bus_cancel_cases[OF bus_ok_cancel[OF assms], of t i t i]) (simp_all add: gone)
  have sub: "subscribed (bus_cancel t i b) t = subscribed b t - {i}"
    by (rule bus_cancel_cases[OF assms, of t i]) (auto simp: subscribed_def go_keys_get)
  show ?thesis
    using assms idem sub memory_bus.invar_publish[of b iter choice ctx t m]
    by (auto simp: bus_ok_subscribe bus_ok_cancel bus_recv_ok)
qed

theorem bus_operations_ok_witness:
  "subscribed (bus_cancel ''t'' 0 sample_bus) ''t'' = subscribed sample_bus ''t'' - {0}"
  using bus_operations_ok[OF sample_bus_ok, of "''t''" 0 rev "[]" False 7] by blast

end
