(* ===== verification/Log_Ports.thy ===== *)
theory Log_Ports
  imports Telemetry Event_Bus
begin

text \<open>
  The two components that put log records on the event bus: the tee logger
  (\<open>platform/ports/tee_logger_gen.go\<close>), which every domain kernel gets as its logger, and the
  root kernel's log hub (\<open>cmd/rk/log_hub_gen.go\<close>), which re-publishes the records received over
  gRPC. Both are clients of the \<open>EventBus\<close> port; their properties follow from the port's laws.
\<close>

section \<open>Topics\<close>

definition topic_logs_all :: string where "topic_logs_all = ''telemetry.logs''"
definition topic_logs_root :: string where "topic_logs_root = ''telemetry.logs.root''"
definition topic_logs_domain :: string where "topic_logs_domain = ''telemetry.logs.domain''"
definition topic_logs_function :: string where "topic_logs_function = ''telemetry.logs.function''"

lemmas topic_defs =
  topic_logs_all_def topic_logs_root_def topic_logs_domain_def topic_logs_function_def

section \<open>The tee logger\<close>

type_synonym 'w logger = "ctx_done \<Rightarrow> string \<Rightarrow> string \<Rightarrow> any_map \<Rightarrow> 'w \<Rightarrow> 'w"

record 'w tee_logger =
  t_bus :: "(log_record_v2, 'w) publisher option"
  t_kernelID :: string
  t_scope :: string
  t_component :: string
  t_next :: "'w logger option"

definition new_tee_logger ::
  "(log_record_v2, 'w) publisher option \<Rightarrow> string \<Rightarrow> string \<Rightarrow> string \<Rightarrow> 'w logger list
    \<Rightarrow> 'w tee_logger" where
  "new_tee_logger bus kernelID scope component delegates =
     \<lparr>t_bus = bus, t_kernelID = kernelID, t_scope = scope, t_component = component,
      t_next = (case delegates of [] \<Rightarrow> None | d # _ \<Rightarrow> Some d)\<rparr>"

definition tee_level :: "string \<Rightarrow> level" where
  "tee_level lv = (let u = go_to_upper lv in
     if u = ''DEBUG'' then Debug
     else if u = ''INFO'' then Info
     else if u = ''WARN'' \<or> u = ''WARNING'' then Warn
     else if u = ''ERROR'' then Error
     else Info)"

definition tee_topics :: "string \<Rightarrow> string list" where
  "tee_topics scope = ''telemetry.logs'' #
     (let s = go_to_lower scope in
      if s = ''root'' then [''telemetry.logs.root'']
      else if s = ''domain'' then [''telemetry.logs.domain'']
      else if s = ''function'' then [''telemetry.logs.function'']
      else [])"

definition tee_record :: "'w tee_logger \<Rightarrow> string \<Rightarrow> string \<Rightarrow> any_map \<Rightarrow> gotime \<Rightarrow> log_record_v2" where
  "tee_record l lv message flds now =
     \<lparr>l_Time = now, l_Level = tee_level lv, l_KernelID = t_kernelID l, l_Scope = t_scope l,
      l_Component = t_component l, l_Trace = [], l_Message = message,
      l_Fields = (case flds of None \<Rightarrow> None | Some [] \<Rightarrow> None | Some es \<Rightarrow> Some es)\<rparr>"

definition tee_log ::
  "'w tee_logger option \<Rightarrow> ctx_done \<Rightarrow> string \<Rightarrow> string \<Rightarrow> any_map \<Rightarrow> gotime \<Rightarrow> 'w \<Rightarrow> 'w" where
  "tee_log lo ctx lv message flds now w =
     (case lo of
        None \<Rightarrow> w
      | Some l \<Rightarrow>
        let w1 = (case t_next l of None \<Rightarrow> w | Some nxt \<Rightarrow> nxt ctx lv message flds w);
            rec = tee_record l lv message flds now
        in case t_bus l of
             None \<Rightarrow> w1
           | Some pub \<Rightarrow> publish_all pub ctx (tee_topics (t_scope l)) rec w1)"

lemma distinct_tee_topics: "distinct (tee_topics scope)"
  by (simp add: tee_topics_def Let_def)

section \<open>The root log hub\<close>

record 'w log_hub =
  lh_bus :: "(log_record_v2, 'w) publisher option"

definition log_hub_topics :: "log_record_v2 \<Rightarrow> string list" where
  "log_hub_topics rec = [topic_logs_all, topic_logs_root] @
     (if l_Scope rec \<noteq> [] then [''telemetry.logs.'' @ l_Scope rec] else [])"

definition log_hub_publish ::
  "'w log_hub option \<Rightarrow> ctx_done \<Rightarrow> log_record_v2 \<Rightarrow> 'w \<Rightarrow> 'w" where
  "log_hub_publish ho ctx rec w =
     (case ho of
        None \<Rightarrow> w
      | Some h \<Rightarrow>
        (case lh_bus h of
           None \<Rightarrow> w
         | Some pub \<Rightarrow> publish_all pub ctx (log_hub_topics rec) rec w))"

section \<open>Clients of the port\<close>

context single_topic_bus
begin

text \<open>Distinct topics: a subscription receives the record once, when one of them is its topic.\<close>

lemma distinct_topics_queue:
  assumes "invar w" and "distinct ts"
  shows "queue (publish_all publish False ts m w) i =
    (if (\<exists>t \<in> topics_of w i. t \<in> set ts) \<and> length (queue w i) < capacity
     then queue w i @ [m] else queue w i)"
proof (cases "\<exists>t \<in> topics_of w i. t \<in> set ts")
  case True
  then have "hits ts (topics_of w i) \<noteq> 0" by (auto simp: hits_def filter_empty_conv)
  moreover have "hits ts (topics_of w i) \<le> 1"
    using assms one_topic by (intro hits_distinct_le) auto
  ultimately have "hits ts (topics_of w i) = 1" by linarith
  then show ?thesis using queue_all[OF assms(1), of ts m i] True by (auto simp: min_def)
next
  case False
  then have "hits ts (topics_of w i) = 0" by (auto simp: hits_def filter_empty_conv)
  then show ?thesis using queue_all[OF assms(1), of ts m i] False by simp
qed

end

section \<open>Properties of the loggers\<close>

text \<open>
  The tee logger and the protobuf conversion read level names alike: the two independently
  written parsers are the same function of the string.
\<close>
theorem tee_level_parse_level: "tee_level lv = parse_level lv"
  by (simp add: tee_level_def parse_level_def Let_def)

text \<open>
  One call of the tee logger on the in-memory bus puts the record at most once into every
  subscription: exactly once into those on the common topic or on the topic of the logger's
  scope that have room, and nothing anywhere else; a delegate sees the call first.
\<close>
theorem tee_log_delivery:
  assumes "bus_ok b" and "iter_ok iter"
    and "l = new_tee_logger (Some (bus_publisher iter choice)) kid scope cmp []"
  shows "bus_queue (tee_log (Some l) False lv msg flds now b) i =
    (if (\<exists>t \<in> set (tee_topics scope). i \<in> subscribed b t) \<and> length (bus_queue b i) < 16
     then bus_queue b i @ [tee_record l lv msg flds now] else bus_queue b i)"
  using memory_bus.distinct_topics_queue[of b iter "tee_topics scope" choice
      "tee_record l lv msg flds now" i] assms
  by (auto simp: tee_log_def new_tee_logger_def Let_def distinct_tee_topics bus_topics_def)

definition sample_log_bus :: "log_record_v2 bus" where
  "sample_log_bus = fst (bus_subscribe topic_logs_root (fst (bus_subscribe topic_logs_all new_bus)))"

lemma sample_log_bus_ok: "bus_ok sample_log_bus"
  by (simp add: sample_log_bus_def inv_intros)

lemma sample_log_bus_subscribed:
  "subscribed sample_log_bus topic_logs_all = {0}" "subscribed sample_log_bus topic_logs_root = {1}"
  "bus_queue sample_log_bus i = []"
  by (auto simp: sample_log_bus_def bus_queue_def subscribed_def topic_subs_def bus_subscribe_def
      new_bus_def topic_defs go_put_def go_get_def go_keys_def)

theorem tee_log_delivery_witness:
  "length (bus_queue (tee_log (Some (new_tee_logger (Some (bus_publisher rev [])) ''site'' ''x'' [] []))
     False ''WARN'' ''m'' None 5 sample_log_bus) 0) = 1"
  using tee_log_delivery[OF sample_log_bus_ok iter_ok_rev refl, of "[]" "''site''" "''x''" "[]"
      "''WARN''" "''m''" None 5 0] sample_log_bus_subscribed
  by (simp add: tee_topics_def topic_defs)

text \<open>
  The root log hub delivers a record whose scope is root twice to every subscriber of the root
  topic that has room for two: the topic is in the fixed list and is also the scope's topic.
  Every other record reaches such a subscriber once, whatever its scope.
\<close>
theorem log_hub_root_twice:
  assumes "bus_ok b" and "iter_ok iter" and "i \<in> subscribed b topic_logs_root"
    and "length (bus_queue b i) + 2 \<le> 16"
  shows "bus_queue (log_hub_publish (Some \<lparr>lh_bus = Some (bus_publisher iter choice)\<rparr>) False rec b) i =
    bus_queue b i @ (if l_Scope rec = ''root'' then [rec, rec] else [rec])"
proof -
  have tp: "bus_topics b i = {topic_logs_root}"
    using assms(3) memory_bus.one_topic[of b iter] assms(1,2) by (auto simp: bus_topics_def)
  have "hits (log_hub_topics rec) (bus_topics b i) = (if l_Scope rec = ''root'' then 2 else 1)"
    by (auto simp: tp log_hub_topics_def topic_defs)
  then show ?thesis
    using memory_bus.queue_all_room[of b iter i "log_hub_topics rec" choice rec] assms
    by (auto simp: log_hub_publish_def numeral_2_eq_2)
qed

theorem log_hub_root_twice_witness:
  "bus_queue (log_hub_publish (Some \<lparr>lh_bus = Some (bus_publisher rev [])\<rparr>) False
     (zero_record\<lparr>l_Scope := ''root''\<rparr>) sample_log_bus) 1 =
   replicate 2 (zero_record\<lparr>l_Scope := ''root''\<rparr>)"
  using log_hub_root_twice[OF sample_log_bus_ok iter_ok_rev, of 1 "[]" "zero_record\<lparr>l_Scope := ''root''\<rparr>"]
    sample_log_bus_subscribed
  by (simp add: numeral_2_eq_2)

end
