(* ===== verification/Gateway.thy ===== *)
theory Gateway
  imports Log_Ports
begin

text \<open>
  The gateway that receives log records over gRPC, \<open>cmd/rk/log_gateway_server_gen.go\<close>, and the
  stand-in for the gRPC server kept under \<open>third_party/google.golang.org/grpc\<close>. What the stream
  delivers is an argument: a list of the results of \<open>Recv\<close>, each with the clock readings and the state
  of the stream's context in its turn.
\<close>

section \<open>The server of the gRPC stand-in\<close>

text \<open>
  Of a server only the presence of an interceptor and the closed stop channel are kept; the services
  given to \<open>RegisterService\<close> are thrown away.
\<close>

record grpc_server =
  gs_intercepted :: bool
  gs_stopped :: bool

datatype grpc_option = StreamInterceptor bool

definition grpc_new_server :: "grpc_option option list \<Rightarrow> grpc_server" where
  "grpc_new_server opts = foldl
     (\<lambda>s o1. case o1 of None \<Rightarrow> s | Some (StreamInterceptor i) \<Rightarrow> s\<lparr>gs_intercepted := i\<rparr>)
     \<lparr>gs_intercepted = False, gs_stopped = False\<rparr> opts"

definition grpc_register_service :: "'desc \<Rightarrow> 'srv \<Rightarrow> grpc_server \<Rightarrow> grpc_server" where
  "grpc_register_service desc srv s = s"

definition grpc_graceful_stop :: "grpc_server \<Rightarrow> grpc_server" where
  "grpc_graceful_stop s = (if gs_stopped s then s else s\<lparr>gs_stopped := True\<rparr>)"

text \<open>\<open>Serve\<close> blocks (no result) until the server is stopped, then returns nil.\<close>

definition grpc_serve :: "grpc_server \<Rightarrow> go_error option option" where
  "grpc_serve s = (if gs_stopped s then Some None else None)"

text \<open>
  \<open>StartLogGatewayServer\<close>, with the result of \<open>net.Listen\<close> and whether the context is over: no result
  while it serves, else the error.
\<close>

definition start_log_gateway ::
  "(string \<Rightarrow> go_error option) \<Rightarrow> ctx_done \<Rightarrow> string \<Rightarrow> 'hub \<Rightarrow> go_error option option" where
  "start_log_gateway listen ctx addr0 hub =
     (let addr = (if addr0 = [] then '':8079'' else addr0)
      in case listen addr of
           Some err \<Rightarrow> Some (Some err)
         | None \<Rightarrow>
           let srv = grpc_register_service ''telemetry.LogGateway'' hub
                 (grpc_new_server [Some (StreamInterceptor True)]);
               srv = (if ctx then grpc_graceful_stop srv else srv)
           in grpc_serve srv)"

lemma start_log_gateway_result:
  "start_log_gateway listen ctx addr hub =
     (case listen (if addr = [] then '':8079'' else addr) of
        Some err \<Rightarrow> Some (Some err) | None \<Rightarrow> if ctx then Some None else None)"
  by (simp add: start_log_gateway_def grpc_new_server_def grpc_register_service_def
      grpc_graceful_stop_def grpc_serve_def Let_def split: option.splits)

section \<open>PushLogs\<close>

record push_response =
  ps_Status :: string
  ps_Received :: "64 word"

datatype recv_result = RecvRecord push_request | RecvEOF | RecvError go_error

record recv_turn =
  rt_result :: recv_result
  rt_cancelled :: ctx_done   \<comment> \<open>the stream's context when the record is published\<close>
  rt_now :: gotime           \<comment> \<open>\<open>FromProto\<close>\<close>
  rt_elapsed :: gotime       \<comment> \<open>\<open>time.Since\<close>\<close>
  rt_last :: gotime          \<comment> \<open>the new \<open>last\<close>\<close>

text \<open>The local variables, the acknowledgements sent and the world the hub publishes in.\<close>

record 'w push_state =
  ps_count :: "64 word"
  ps_last :: gotime
  ps_acks :: "push_response list"
  ps_world :: 'w

definition ack :: "'w push_state \<Rightarrow> 'w push_state" where
  "ack s = s\<lparr>ps_acks := ps_acks s @ [\<lparr>ps_Status = ''ok'', ps_Received = ps_count s\<rparr>]\<rparr>"

definition push_one :: "'w log_hub option \<Rightarrow> duration \<Rightarrow> recv_turn \<Rightarrow> push_request \<Rightarrow> 'w push_state
    \<Rightarrow> 'w push_state" where
  "push_one hub interval t msg s =
     (let rec = from_proto (Some msg) (rt_now t);
          s1 = s\<lparr>ps_world := log_hub_publish hub (rt_cancelled t) rec (ps_world s),
                 ps_count := ps_count s + 1\<rparr>
      in if rt_elapsed t - ps_last s \<ge> interval then (ack s1)\<lparr>ps_last := rt_last t\<rparr> else s1)"

text \<open>No result means that the handler is still in \<open>Recv\<close>.\<close>

fun push_logs :: "'w log_hub option \<Rightarrow> duration \<Rightarrow> recv_turn list \<Rightarrow> 'w push_state
    \<Rightarrow> 'w push_state \<times> go_error option option" where
  "push_logs hub interval [] s = (s, None)"
| "push_logs hub interval (t # ts) s =
     (case rt_result t of
        RecvEOF \<Rightarrow> (ack s, Some None)
      | RecvError err \<Rightarrow> (s, Some (Some err))
      | RecvRecord msg \<Rightarrow> push_logs hub interval ts (push_one hub interval t msg s))"

definition push_start :: "gotime \<Rightarrow> 'w \<Rightarrow> 'w push_state" where
  "push_start now w = \<lparr>ps_count = 0, ps_last = now, ps_acks = [], ps_world = w\<rparr>"

section \<open>Runs over records\<close>

text \<open>A turn that receives the message \<open>msg\<close> on a live stream.\<close>

definition receives :: "recv_turn \<Rightarrow> push_request \<Rightarrow> bool" where
  "receives t msg \<longleftrightarrow> rt_result t = RecvRecord msg"

definition turn_record :: "recv_turn \<Rightarrow> log_record_v2" where
  "turn_record t = (case rt_result t of
     RecvRecord msg \<Rightarrow> from_proto (Some msg) (rt_now t) | _ \<Rightarrow> zero_record)"

definition is_record :: "recv_turn \<Rightarrow> bool" where
  "is_record t \<longleftrightarrow> (case rt_result t of RecvRecord _ \<Rightarrow> True | _ \<Rightarrow> False)"

lemma is_record_simps:
  "rt_result t = RecvRecord msg \<Longrightarrow> is_record t"
  "rt_result t = RecvEOF \<Longrightarrow> \<not> is_record t" "rt_result t = RecvError e \<Longrightarrow> \<not> is_record t"
  by (simp_all add: is_record_def)

lemma push_one_fields [simp]:
  "ps_count (push_one hub interval t msg s) = ps_count s + 1"
  "ps_world (push_one hub interval t msg s) =
     log_hub_publish hub (rt_cancelled t) (from_proto (Some msg) (rt_now t)) (ps_world s)"
  "ps_count (ack s) = ps_count s" "ps_world (ack s) = ps_world s"
  by (simp_all add: push_one_def ack_def Let_def)

lemma push_one_acks:
  "ps_acks (push_one hub interval t msg s) = ps_acks s \<or>
   ps_acks (push_one hub interval t msg s) =
     ps_acks s @ [\<lparr>ps_Status = ''ok'', ps_Received = ps_count s + 1\<rparr>]"
  by (simp add: push_one_def ack_def Let_def)

definition publish_turns :: "'w log_hub option \<Rightarrow> recv_turn list \<Rightarrow> 'w \<Rightarrow> 'w" where
  "publish_turns hub ts w = foldl (\<lambda>w t. log_hub_publish hub (rt_cancelled t) (turn_record t) w) w ts"

lemma push_logs_records:
  assumes "list_all is_record ts"
  shows "\<exists>s'. push_logs hub interval (ts @ us) s = push_logs hub interval us s' \<and>
    ps_count s' = ps_count s + of_nat (length ts) \<and> ps_world s' = publish_turns hub ts (ps_world s)"
  using assms
proof (induction ts arbitrary: s)
  case (Cons t ts)
  then obtain msg where msg: "rt_result t = RecvRecord msg"
    by (auto simp: is_record_def split: recv_result.splits)
  show ?case
    using Cons.IH[of "push_one hub interval t msg s"] Cons.prems msg
    by (auto simp: publish_turns_def turn_record_def algebra_simps)
qed (auto simp: publish_turns_def)

text \<open>Acknowledgements count up: each is at most the number of records received so far, and sorted.\<close>

definition acks_ok :: "nat \<Rightarrow> push_response list \<Rightarrow> bool" where
  "acks_ok n as \<longleftrightarrow> (\<forall>a \<in> set as. ps_Status a = ''ok'' \<and> unat (ps_Received a) \<le> n) \<and>
     sorted (map (\<lambda>a. unat (ps_Received a)) as)"

lemma acks_ok_snoc:
  assumes "acks_ok n as" and "n \<le> m" and "m < 2 ^ 64"
  shows "acks_ok m (as @ [\<lparr>ps_Status = ''ok'', ps_Received = of_nat m\<rparr>])"
  using assms by (auto simp: acks_ok_def sorted_append unat_of_nat)

lemma acks_ok_mono: "acks_ok n as \<Longrightarrow> n \<le> m \<Longrightarrow> acks_ok m as"
  by (auto simp: acks_ok_def)

lemma push_logs_acks:
  assumes "ps_count s = of_nat n" and "acks_ok n (ps_acks s)" and "n + length ts < 2 ^ 64"
  shows "acks_ok (n + length (filter is_record ts)) (ps_acks (fst (push_logs hub interval ts s)))"
  using assms
proof (induction ts arbitrary: s n)
  case (Cons t ts)
  show ?case
  proof (cases "rt_result t")
    case (RecvRecord msg)
    let ?s = "push_one hub interval t msg s"
    have c: "ps_count s + 1 = of_nat (Suc n)" using Cons.prems(1) by simp
    have "acks_ok (Suc n) (ps_acks ?s)"
      using push_one_acks[of hub interval t msg s] acks_ok_snoc[OF Cons.prems(2), of "Suc n"]
        acks_ok_mono[OF Cons.prems(2), of "Suc n"] Cons.prems(3) c by auto
    then show ?thesis
      using Cons.IH[of ?s "Suc n"] Cons.prems RecvRecord by (simp add: is_record_simps)
  next
    case RecvEOF
    then show ?thesis
      using acks_ok_snoc[OF Cons.prems(2), of n] Cons.prems RecvEOF
        acks_ok_mono[of n _ "n + length (filter is_record ts)"]
      by (simp add: ack_def is_record_simps)
  next
    case (RecvError e)
    then show ?thesis
      using acks_ok_mono[OF Cons.prems(2)] RecvError by (simp add: is_record_simps)
  qed
qed (simp add: acks_ok_mono)

section \<open>Properties of the gateway\<close>

text \<open>How often a subscriber of a topic sees a record that the hub publishes.\<close>

lemma hub_queue:
  assumes "bus_ok b" and "iter_ok iter"
    and "length (bus_queue b i) + hits (log_hub_topics rec) (bus_topics b i) \<le> 16"
  shows "bus_queue (log_hub_publish (Some \<lparr>lh_bus = Some (bus_publisher iter choice)\<rparr>) False rec b) i =
    bus_queue b i @ replicate (hits (log_hub_topics rec) (bus_topics b i)) rec"
  using memory_bus.queue_all_room[of b iter i "log_hub_topics rec" choice rec] assms
  by (simp add: log_hub_publish_def)

lemma hub_bus:
  assumes "bus_ok b" and "iter_ok iter"
  shows "bus_ok (log_hub_publish (Some \<lparr>lh_bus = Some (bus_publisher iter choice)\<rparr>) ctx rec b)"
    and "bus_topics (log_hub_publish (Some \<lparr>lh_bus = Some (bus_publisher iter choice)\<rparr>) ctx rec b) = bus_topics b"
  using memory_bus.invar_all[of b iter choice ctx "log_hub_topics rec" rec]
    memory_bus.topics_all[of b iter choice ctx "log_hub_topics rec" rec] assms
  by (simp_all add: log_hub_publish_def)

lemma hub_queue_turns:
  assumes "bus_ok b" and "iter_ok iter" and "list_all (\<lambda>t. \<not> rt_cancelled t) ts"
    and "length (bus_queue b i) + (\<Sum>t \<leftarrow> ts. hits (log_hub_topics (turn_record t)) (bus_topics b i)) \<le> 16"
  shows "bus_queue (publish_turns (Some \<lparr>lh_bus = Some (bus_publisher iter choice)\<rparr>) ts b) i =
    bus_queue b i @ concat (map (\<lambda>t. replicate (hits (log_hub_topics (turn_record t)) (bus_topics b i))
      (turn_record t)) ts)"
  using assms
proof (induction ts arbitrary: b)
  case (Cons t ts)
  let ?hub = "Some \<lparr>lh_bus = Some (bus_publisher iter choice)\<rparr>"
  let ?b = "log_hub_publish ?hub (rt_cancelled t) (turn_record t) b"
  have q: "bus_queue ?b i = bus_queue b i @
      replicate (hits (log_hub_topics (turn_record t)) (bus_topics b i)) (turn_record t)"
    using hub_queue[OF Cons.prems(1,2)] Cons.prems(3,4) by simp
  have "bus_queue (publish_turns ?hub ts ?b) i = bus_queue ?b i @
      concat (map (\<lambda>t. replicate (hits (log_hub_topics (turn_record t)) (bus_topics b i)) (turn_record t)) ts)"
    using Cons.IH[of ?b] hub_bus[OF Cons.prems(1,2), of choice "rt_cancelled t" "turn_record t"]
      Cons.prems(2-4) q by simp
  then show ?case using q by (simp add: publish_turns_def)
qed (simp add: publish_turns_def)

text \<open>
  C26: What a client pushes reaches the bus: when a stream of records ends regularly, PushLogs returns
  nil, its last acknowledgement carries the number of records modulo 2^64, and a subscriber of
  the common topic that has room has received exactly the records, each once, in the
  order they were pushed (converted as FromProto does).
\<close>
theorem push_logs_delivers:
  assumes "bus_ok b" and "iter_ok iter"
    and "list_all is_record ts" and "list_all (\<lambda>t. \<not> rt_cancelled t) ts" and "rt_result eof = RecvEOF"
    and "i \<in> subscribed b topic_logs_all" and "length (bus_queue b i) + length ts \<le> 16"
  shows "\<exists>s. push_logs (Some \<lparr>lh_bus = Some (bus_publisher iter choice)\<rparr>) interval (ts @ [eof])
        (push_start now b) = (s, Some None) \<and>
      last (ps_acks s) = \<lparr>ps_Status = ''ok'', ps_Received = of_nat (length ts)\<rparr> \<and>
      bus_queue (ps_world s) i = bus_queue b i @ map turn_record ts"
proof -
  let ?hub = "Some \<lparr>lh_bus = Some (bus_publisher iter choice)\<rparr>"
  obtain s where s: "push_logs ?hub interval (ts @ [eof]) (push_start now b) = push_logs ?hub interval [eof] s"
      "ps_count s = of_nat (length ts)" "ps_world s = publish_turns ?hub ts b"
    using push_logs_records[OF assms(3), of ?hub interval "[eof]" "push_start now b"]
    by (auto simp: push_start_def)
  have "bus_topics b i = {topic_logs_all}"
    using assms(6) memory_bus.one_topic[of b iter] assms(1,2) by (auto simp: bus_topics_def)
  then have once: "hits (log_hub_topics r) (bus_topics b i) = 1" for r
    by (auto simp: log_hub_topics_def topic_defs)
  have "bus_queue (publish_turns ?hub ts b) i = bus_queue b i @ map turn_record ts"
    using hub_queue_turns[OF assms(1,2,4), of i choice] assms(7) once by (simp add: sum_list_triv)
  then show ?thesis using s assms(5) by (intro exI[of _ "ack s"]) (simp add: ack_def)
qed

definition sample_turn :: "gotime \<Rightarrow> recv_result \<Rightarrow> recv_turn" where
  "sample_turn t r = \<lparr>rt_result = r, rt_cancelled = False, rt_now = t, rt_elapsed = t, rt_last = t\<rparr>"

definition sample_push :: push_request where
  "sample_push = \<lparr>pr_Record = None\<rparr>"

theorem push_logs_delivers_witness:
  "\<exists>s. push_logs (Some \<lparr>lh_bus = Some (bus_publisher rev [])\<rparr>) second
       ([sample_turn 1 (RecvRecord sample_push), sample_turn 2 (RecvRecord sample_push)] @ [sample_turn 3 RecvEOF])
       (push_start 0 sample_log_bus) = (s, Some None) \<and> length (bus_queue (ps_world s) 0) = 2"
  using push_logs_delivers[OF sample_log_bus_ok iter_ok_rev, where
      ts = "[sample_turn 1 (RecvRecord sample_push), sample_turn 2 (RecvRecord sample_push)]" and
      eof = "sample_turn 3 RecvEOF" and i = 0 and choice = "[]" and interval = second and now = 0]
  by (force simp: sample_turn_def is_record_def sample_log_bus_subscribed)

lemma push_logs_result:
  "snd (push_logs hub interval ts s) =
     map_option (\<lambda>t. case rt_result t of RecvError e \<Rightarrow> Some e | _ \<Rightarrow> None) (find (\<lambda>t. \<not> is_record t) ts)"
  by (induction hub interval ts s rule: push_logs.induct)
    (auto simp: is_record_simps split: recv_result.splits)

text \<open>
  On any stream shorter than 2^64 turns the acknowledgements all say ok, never count more than the
  records received, and never go down; the handler returns at the first turn that is not a
  record, with nil at the end of the stream and with the error of a broken one, and otherwise
  waits.
\<close>
theorem push_logs_acknowledges:
  assumes "length ts < 2 ^ 64"
  shows "let (s, r) = push_logs hub interval ts (push_start now w) in
    (\<forall>a \<in> set (ps_acks s). ps_Status a = ''ok'' \<and> unat (ps_Received a) \<le> length (filter is_record ts)) \<and>
    sorted (map (\<lambda>a. unat (ps_Received a)) (ps_acks s)) \<and>
    r = map_option (\<lambda>t. case rt_result t of RecvError e \<Rightarrow> Some e | _ \<Rightarrow> None) (find (\<lambda>t. \<not> is_record t) ts)"
  using push_logs_acks[of "push_start now w" 0 ts hub interval] push_logs_result[of hub interval ts "push_start now w"] assms
  by (auto simp: push_start_def acks_ok_def case_prod_beta)

theorem push_logs_acknowledges_witness:
  "snd (push_logs (None :: unit log_hub option) second [sample_turn 1 (RecvRecord sample_push), sample_turn 2 (RecvError ''reset'')]
     (push_start 0 ())) = Some (Some ''reset'')"
  using push_logs_acknowledges[of "[sample_turn 1 (RecvRecord sample_push), sample_turn 2 (RecvError ''reset'')]"
      None second 0 "()"]
  by (simp add: case_prod_beta sample_turn_def is_record_def)

end
