(* ===== verification/Registry.thy ===== *)
theory Registry
  imports Contracts
begin

text \<open>
  The discovery registry of the root kernel (\<open>cmd/rk/discovery_registry_gen.go\<close>,
  \<open>discovery_registry_exports_gen.go\<close>). Every operation runs under the registry's mutex, so each is
  one function of the registry. The records in the map never escape by pointer (readers get
  copies), and nobody writes through an exports pointer, so both are values here. Each reading
  of the clock is an argument, used only where the code reads it. \<open>sort.Slice\<close> is not stable: the
  order of records that compare equal is that of the iteration order, which is arbitrary.
\<close>

section \<open>Records\<close>

record kernel_record =
  k_ID :: string
  k_Scope :: scope
  k_Manifest :: manifest
  k_Health :: health
  k_Exports :: "kernel_exports option"
  k_RegisteredAt :: gotime
  k_UpdatedAt :: gotime

definition zero_kernel_record :: kernel_record where
  "zero_kernel_record = \<lparr>k_ID = [], k_Scope = [], k_Manifest = zero_manifest, k_Health = zero_health,
     k_Exports = None, k_RegisteredAt = zero_time, k_UpdatedAt = zero_time\<rparr>"

type_synonym registry = "(string, kernel_record) gomap"

record discovery_record =
  d_ID :: string
  d_Health :: health
  d_Exports :: "kernel_exports option"

definition new_registry :: registry where
  "new_registry = []"

section \<open>Operations\<close>

definition register_kernel :: "manifest \<Rightarrow> gotime \<Rightarrow> gotime \<Rightarrow> gotime \<Rightarrow> registry \<Rightarrow> registry" where
  "register_kernel m t1 t2 t3 r =
     (let rec0 = (case go_get r (m_KernelID m) of Some rec \<Rightarrow> rec | None \<Rightarrow> zero_kernel_record);
          rec1 = rec0\<lparr>k_ID := m_KernelID m, k_Scope := m_Scope m, k_Manifest := m\<rparr>;
          rec2 = (if is_zero_time (k_RegisteredAt rec1) then rec1\<lparr>k_RegisteredAt := t1\<rparr> else rec1);
          rec3 = (if h_Status (k_Health rec2) = []
                  then rec2\<lparr>k_Health := \<lparr>h_Status = HealthReady, h_Reason = [], h_Since = t2\<rparr>\<rparr>
                  else rec2)
      in go_put (m_KernelID m) (rec3\<lparr>k_UpdatedAt := t3\<rparr>) r)"

definition register :: "kernel_record \<Rightarrow> gotime \<Rightarrow> gotime \<Rightarrow> registry \<Rightarrow> registry" where
  "register rec0 t1 t2 r =
     (let rec1 = (if m_KernelID (k_Manifest rec0) = [] \<and> k_ID rec0 \<noteq> []
                  then rec0\<lparr>k_Manifest := (k_Manifest rec0)\<lparr>m_KernelID := k_ID rec0\<rparr>\<rparr> else rec0);
          rec2 = (if k_ID rec1 = [] then rec1\<lparr>k_ID := m_KernelID (k_Manifest rec1)\<rparr> else rec1);
          rec3 = (if k_Scope rec2 = [] then rec2\<lparr>k_Scope := m_Scope (k_Manifest rec2)\<rparr> else rec2);
          rec4 = (if is_zero_time (k_RegisteredAt rec3) then rec3\<lparr>k_RegisteredAt := t1\<rparr> else rec3);
          rec5 = rec4\<lparr>k_UpdatedAt := t2\<rparr>
      in go_put (k_ID rec5) rec5 r)"

definition unregister :: "string \<Rightarrow> registry \<Rightarrow> registry" where
  "unregister i r = go_del i r"

definition update_health ::
  "string \<Rightarrow> health \<Rightarrow> gotime \<Rightarrow> gotime \<Rightarrow> gotime \<Rightarrow> registry \<Rightarrow> registry" where
  "update_health i hl t1 t2 t3 r =
     (let rec0 = (case go_get r i of
            Some rec \<Rightarrow> rec
          | None \<Rightarrow> zero_kernel_record\<lparr>k_Manifest := zero_manifest\<lparr>m_KernelID := i\<rparr>, k_ID := i\<rparr>);
          rec1 = rec0\<lparr>k_Health := hl\<rparr>;
          rec2 = (if k_Scope rec1 = [] then rec1\<lparr>k_Scope := m_Scope (k_Manifest rec1)\<rparr> else rec1);
          rec3 = (if is_zero_time (h_Since (k_Health rec2))
                  then rec2\<lparr>k_Health := (k_Health rec2)\<lparr>h_Since := t1\<rparr>\<rparr> else rec2);
          rec4 = (if is_zero_time (k_RegisteredAt rec3) then rec3\<lparr>k_RegisteredAt := t2\<rparr> else rec3)
      in go_put i (rec4\<lparr>k_UpdatedAt := t3\<rparr>) r)"

definition set_exports :: "string \<Rightarrow> kernel_exports option \<Rightarrow> registry \<Rightarrow> registry" where
  "set_exports i ex r = (case go_get r i of
       None \<Rightarrow> r
     | Some rec \<Rightarrow> go_put i (rec\<lparr>k_Exports := ex\<rparr>) r)"

text \<open>The readers, over the order \<open>ord\<close> in which the loop visits the map.\<close>

definition kernels :: "(string \<times> kernel_record) list \<Rightarrow> kernel_record list" where
  "kernels ord = sort_key (\<lambda>rec. m_KernelID (k_Manifest rec)) (map snd ord)"

definition kernel_health :: "(string \<times> kernel_record) list \<Rightarrow> (string, health) gomap" where
  "kernel_health ord = foldl (\<lambda>res (i, rec). go_put i (k_Health rec) res) [] ord"

definition discovery_list :: "(string \<times> kernel_record) list \<Rightarrow> discovery_record list" where
  "discovery_list ord = sort_key d_ID
     (map (\<lambda>(i, rec). \<lparr>d_ID = i, d_Health = k_Health rec, d_Exports = k_Exports rec\<rparr>) ord)"

text \<open>One turn of the loop of \<open>AggregateHealth\<close>, on the summary and the reason.\<close>

definition aggregate_step :: "health \<times> string \<Rightarrow> string \<times> kernel_record \<Rightarrow> health \<times> string" where
  "aggregate_step sr e = (case (sr, e) of ((s0, reason), (_, rec)) \<Rightarrow>
     (let hl = k_Health rec; kid = m_KernelID (k_Manifest rec);
          s = (if is_zero_time (h_Since s0) \<or> h_Since hl < h_Since s0
               then s0\<lparr>h_Since := h_Since hl\<rparr> else s0);
          because = (\<lambda>p. if reason = [] then p @ kid else reason)
      in if h_Status hl = [] then (s0, reason)
         else if h_Status hl = HealthFailed
           then (s\<lparr>h_Status := HealthFailed\<rparr>, because ''kernel failed: '')
         else if h_Status hl = HealthDegraded
           then (if h_Status s \<noteq> HealthFailed
                 then (s\<lparr>h_Status := HealthDegraded\<rparr>, because ''kernel degraded: '') else (s, reason))
         else if h_Status hl = HealthDraining
           then (if h_Status s \<noteq> HealthFailed \<and> h_Status s \<noteq> HealthDegraded
                 then (s\<lparr>h_Status := HealthDraining\<rparr>, because ''kernel draining: '') else (s, reason))
         else if h_Status hl = HealthStopped
           then (if h_Status s = HealthReady
                 then (s\<lparr>h_Status := HealthStopped\<rparr>, because ''kernel stopped: '') else (s, reason))
         else if h_Status s = [] then (s\<lparr>h_Status := HealthReady\<rparr>, reason)
         else (s, reason)))"

definition aggregate_health :: "(string \<times> kernel_record) list \<Rightarrow> gotime \<Rightarrow> gotime \<Rightarrow> health" where
  "aggregate_health ord now1 now2 =
     (if ord = [] then \<lparr>h_Status = HealthReady, h_Reason = [], h_Since = now1\<rparr>
      else case foldl aggregate_step
             (\<lparr>h_Status = HealthReady, h_Reason = [], h_Since = now1\<rparr>, []) ord of
        (s, reason) \<Rightarrow>
          let s1 = (if is_zero_time (h_Since s) then s\<lparr>h_Since := now2\<rparr> else s);
              s2 = s1\<lparr>h_Reason := reason\<rparr>
          in if h_Status s2 = [] then s2\<lparr>h_Status := HealthReady\<rparr> else s2)"

section \<open>Severity\<close>

text \<open>The order of statuses that the nested conditions of \<open>AggregateHealth\<close> implement.\<close>

datatype severity = SevReady | SevStopped | SevDraining | SevDegraded | SevFailed

fun severity_rank :: "severity \<Rightarrow> nat" where
  "severity_rank SevReady = 0"
| "severity_rank SevStopped = 1"
| "severity_rank SevDraining = 2"
| "severity_rank SevDegraded = 3"
| "severity_rank SevFailed = 4"

lemma severity_rank_eq [simp]: "severity_rank a = severity_rank b \<longleftrightarrow> a = b"
  by (cases a; cases b) simp_all

instantiation severity :: linorder
begin

definition less_eq_severity :: "severity \<Rightarrow> severity \<Rightarrow> bool" where
  "less_eq_severity a b \<longleftrightarrow> severity_rank a \<le> severity_rank b"

definition less_severity :: "severity \<Rightarrow> severity \<Rightarrow> bool" where
  "less_severity a b \<longleftrightarrow> severity_rank a < severity_rank b"

instance
  by standard (auto simp: less_eq_severity_def less_severity_def)

end

lemma severity_max: "severity_rank (max a b) = max (severity_rank a) (severity_rank b)"
  by (auto simp: max_def less_eq_severity_def)

definition severity_of :: "health_status \<Rightarrow> severity" where
  "severity_of s =
     (if s = HealthFailed then SevFailed
      else if s = HealthDegraded then SevDegraded
      else if s = HealthDraining then SevDraining
      else if s = HealthStopped then SevStopped
      else SevReady)"

fun status_of :: "severity \<Rightarrow> health_status" where
  "status_of SevReady = HealthReady"
| "status_of SevStopped = HealthStopped"
| "status_of SevDraining = HealthDraining"
| "status_of SevDegraded = HealthDegraded"
| "status_of SevFailed = HealthFailed"

lemma severity_of_status_of [simp]: "severity_of (status_of v) = v"
  by (cases v) (simp_all add: severity_of_def)

definition rec_severity :: "kernel_record \<Rightarrow> severity" where
  "rec_severity rec = severity_of (h_Status (k_Health rec))"

lemma severity_of_empty [simp]: "severity_of [] = SevReady"
  by (simp add: severity_of_def health_defs)

lemma severity_ready_least [simp]: "max v SevReady = v" "max SevReady v = v"
  by (cases v; simp add: max_def less_eq_severity_def)+

lemma aggregate_step_status:
  assumes "h_Status s = status_of v"
  shows "h_Status (fst (aggregate_step (s, reason) (i, rec))) = status_of (max v (rec_severity rec))"
  using assms
  by (cases v) (auto simp: aggregate_step_def Let_def rec_severity_def severity_of_def max_def
      less_eq_severity_def)

lemma aggregate_step_reason:
  assumes "h_Status s = status_of v" and "reason = [] \<longleftrightarrow> v = SevReady"
  shows "snd (aggregate_step (s, reason) (i, rec)) = [] \<longleftrightarrow> max v (rec_severity rec) = SevReady"
  using assms
  by (cases v) (auto simp: aggregate_step_def Let_def rec_severity_def severity_of_def max_def
      less_eq_severity_def)

lemma aggregate_fold_status:
  "h_Status s = status_of v \<Longrightarrow> (reason = [] \<longleftrightarrow> v = SevReady) \<Longrightarrow>
     (\<exists>w. w = foldl max v (map (rec_severity \<circ> snd) ord) \<and>
        h_Status (fst (foldl aggregate_step (s, reason) ord)) = status_of w \<and>
        (snd (foldl aggregate_step (s, reason) ord) = [] \<longleftrightarrow> w = SevReady))"
proof (induction ord arbitrary: s reason v)
  case (Cons e ord)
  obtain i rec where e: "e = (i, rec)" by fastforce
  obtain s' reason' where sr: "aggregate_step (s, reason) (i, rec) = (s', reason')" by fastforce
  show ?case
    using Cons.IH[of s' "max v (rec_severity rec)" reason'] aggregate_step_status[OF Cons.prems(1)]
      aggregate_step_reason[OF Cons.prems] sr
    by (simp add: e) (metis fst_conv snd_conv)
qed simp

lemma Max_insert_max:
  "finite S \<Longrightarrow> Max (insert (max a b) S) = Max (insert a (insert b (S :: 'a :: linorder set)))"
  by (cases "S = {}") (simp_all add: max.assoc)

lemma Min_insert_min:
  "finite S \<Longrightarrow> Min (insert (min a b) S) = Min (insert a (insert b (S :: 'a :: linorder set)))"
  by (cases "S = {}") (simp_all add: min.assoc)

lemma foldl_max_Max: "foldl max (a :: 'a :: linorder) xs = Max (insert a (set xs))"
  by (induction xs arbitrary: a) (simp_all add: Max_insert_max)

lemma aggregate_fold_init:
  fixes now :: gotime and ord :: "(string \<times> kernel_record) list"
  defines "sr \<equiv> foldl aggregate_step (\<lparr>h_Status = HealthReady, h_Reason = [], h_Since = now\<rparr>, []) ord"
  shows "h_Status (fst sr) = status_of (Max (insert SevReady (rec_severity ` snd ` set ord)))"
    and "snd sr = [] \<longleftrightarrow> Max (insert SevReady (rec_severity ` snd ` set ord)) = SevReady"
  using aggregate_fold_status[of "\<lparr>h_Status = HealthReady, h_Reason = [], h_Since = now\<rparr>" SevReady "[]" ord]
  by (auto simp: sr_def foldl_max_Max image_image comp_def)

lemma aggregate_order_free:
  assumes "go_range r ord"
  shows "h_Status (aggregate_health ord now1 now2) =
      status_of (Max (insert SevReady (rec_severity ` snd ` set r)))"
    and "h_Reason (aggregate_health ord now1 now2) = [] \<longleftrightarrow>
      Max (insert SevReady (rec_severity ` snd ` set r)) = SevReady"
proof (atomize (full), cases "ord = []")
  case True
  then have "set r = {}" using go_range_set[OF assms] by simp
  then show "h_Status (aggregate_health ord now1 now2) =
      status_of (Max (insert SevReady (rec_severity ` snd ` set r))) \<and>
    (h_Reason (aggregate_health ord now1 now2) = []) =
      (Max (insert SevReady (rec_severity ` snd ` set r)) = SevReady)"
    using True by (simp add: aggregate_health_def)
next
  case False
  obtain s reason where sr: "foldl aggregate_step
      (\<lparr>h_Status = HealthReady, h_Reason = [], h_Since = now1\<rparr>, []) ord = (s, reason)" by fastforce
  have "status_of v \<noteq> []" for v by (cases v) simp_all
  then show "h_Status (aggregate_health ord now1 now2) =
      status_of (Max (insert SevReady (rec_severity ` snd ` set r))) \<and>
    (h_Reason (aggregate_health ord now1 now2) = []) =
      (Max (insert SevReady (rec_severity ` snd ` set r)) = SevReady)"
    using aggregate_fold_init[of now1 ord] False
    by (auto simp: aggregate_health_def sr Let_def go_range_set[OF assms])
qed

text \<open>The earliest of the reported times.\<close>

definition reported :: "(string \<times> kernel_record) list \<Rightarrow> gotime list" where
  "reported ord = map (h_Since \<circ> k_Health \<circ> snd) (filter (\<lambda>(i, rec). h_Status (k_Health rec) \<noteq> []) ord)"

lemma aggregate_step_since:
  assumes "0 < h_Since s"
  shows "h_Since (fst (aggregate_step (s, reason) (i, rec))) =
    (if h_Status (k_Health rec) = [] then h_Since s else min (h_Since s) (h_Since (k_Health rec)))"
  using assms
  by (auto simp: aggregate_step_def Let_def is_zero_time_def zero_time_def min_def)

lemma aggregate_fold_since:
  "0 < h_Since s \<Longrightarrow> \<forall>t\<in>set (reported ord). 0 < t \<Longrightarrow>
     h_Since (fst (foldl aggregate_step (s, reason) ord)) = Min (insert (h_Since s) (set (reported ord)))"
proof (induction ord arbitrary: s reason)
  case Nil
  then show ?case by (simp add: reported_def)
next
  case (Cons e ord)
  obtain i rec where e: "e = (i, rec)" by fastforce
  obtain s' reason' where sr: "aggregate_step (s, reason) (i, rec) = (s', reason')" by fastforce
  have s': "h_Since s' = (if h_Status (k_Health rec) = [] then h_Since s
      else min (h_Since s) (h_Since (k_Health rec)))"
    using aggregate_step_since[OF Cons.prems(1), of reason i rec] sr by simp
  have pos: "0 < h_Since s'" "\<forall>t\<in>set (reported ord). 0 < t"
    using Cons.prems s' by (auto simp: reported_def e)
  have "h_Since (fst (foldl aggregate_step (s, reason) (e # ord))) =
      Min (insert (h_Since s') (set (reported ord)))"
    using Cons.IH[OF pos] by (simp add: e sr)
  also have "\<dots> = Min (insert (h_Since s) (set (reported (e # ord))))"
  proof (cases "h_Status (k_Health rec) = []")
    case True
    then show ?thesis using s' by (simp add: reported_def e)
  next
    case False
    then have "set (reported (e # ord)) = insert (h_Since (k_Health rec)) (set (reported ord))"
      by (simp add: reported_def e)
    then show ?thesis using s' False by (simp add: Min_insert_min)
  qed
  finally show ?case .
qed

section \<open>The invariant\<close>

text \<open>
  Every record is filed under its own id and knows when it was registered. The clock never
  shows Go's zero time.
\<close>

definition registry_ok :: "registry \<Rightarrow> bool" where
  "registry_ok r \<longleftrightarrow> go_map r \<and>
     (\<forall>i rec. go_get r i = Some rec \<longrightarrow> k_ID rec = i \<and> k_RegisteredAt rec \<noteq> zero_time)"

datatype registry_op =
    OpRegisterKernel manifest
  | OpRegister kernel_record
  | OpUnregister string
  | OpUpdateHealth string health
  | OpSetExports string "kernel_exports option"

fun registry_exec :: "registry_op \<times> gotime \<Rightarrow> registry \<Rightarrow> registry" where
  "registry_exec (OpRegisterKernel m, t) r = register_kernel m t t t r"
| "registry_exec (OpRegister rec, t) r = register rec t t r"
| "registry_exec (OpUnregister i, t) r = unregister i r"
| "registry_exec (OpUpdateHealth i hl, t) r = update_health i hl t t t r"
| "registry_exec (OpSetExports i ex, t) r = set_exports i ex r"

lemma registry_ok_new [inv_intros]: "registry_ok new_registry"
  by (simp add: registry_ok_def new_registry_def)

lemma registry_ok_register_kernel [inv_intros]:
  "registry_ok r \<Longrightarrow> t1 \<noteq> zero_time \<Longrightarrow> registry_ok (register_kernel m t1 t2 t3 r)"
  by (auto simp: registry_ok_def register_kernel_def Let_def is_zero_time_def)

text \<open>What \<open>Register\<close> stores.\<close>

lemma register_put:
  obtains R where "register rec t1 t2 r = go_put (k_ID R) R r"
    and "k_ID R = (if k_ID rec = [] then m_KernelID (k_Manifest rec) else k_ID rec)"
    and "k_Health R = k_Health rec" and "k_Exports R = k_Exports rec" and "k_UpdatedAt R = t2"
    and "k_RegisteredAt R = (if k_RegisteredAt rec = zero_time then t1 else k_RegisteredAt rec)"
proof -
  define rec1 where "rec1 = (if m_KernelID (k_Manifest rec) = [] \<and> k_ID rec \<noteq> []
    then rec\<lparr>k_Manifest := (k_Manifest rec)\<lparr>m_KernelID := k_ID rec\<rparr>\<rparr> else rec)"
  define rec2 where "rec2 = (if k_ID rec1 = [] then rec1\<lparr>k_ID := m_KernelID (k_Manifest rec1)\<rparr> else rec1)"
  define rec3 where "rec3 = (if k_Scope rec2 = [] then rec2\<lparr>k_Scope := m_Scope (k_Manifest rec2)\<rparr> else rec2)"
  define rec4 where "rec4 = (if is_zero_time (k_RegisteredAt rec3) then rec3\<lparr>k_RegisteredAt := t1\<rparr> else rec3)"
  define rec5 where "rec5 = rec4\<lparr>k_UpdatedAt := t2\<rparr>"
  have 1: "k_ID rec1 = k_ID rec" "k_Health rec1 = k_Health rec" "k_Exports rec1 = k_Exports rec"
    "k_RegisteredAt rec1 = k_RegisteredAt rec"
    "k_ID rec = [] \<Longrightarrow> k_Manifest rec1 = k_Manifest rec"
    by (simp_all add: rec1_def)
  have 2: "k_ID rec2 = (if k_ID rec = [] then m_KernelID (k_Manifest rec) else k_ID rec)"
    "k_Health rec2 = k_Health rec" "k_Exports rec2 = k_Exports rec"
    "k_RegisteredAt rec2 = k_RegisteredAt rec"
    using 1 by (simp_all add: rec2_def)
  have 3: "k_ID rec3 = k_ID rec2" "k_Health rec3 = k_Health rec" "k_Exports rec3 = k_Exports rec"
    "k_RegisteredAt rec3 = k_RegisteredAt rec"
    using 2 by (simp_all add: rec3_def)
  have "register rec t1 t2 r = go_put (k_ID rec5) rec5 r"
    unfolding register_def Let_def rec5_def rec4_def rec3_def rec2_def rec1_def ..
  then show thesis
    by (rule that) (use 2 3 in \<open>simp_all add: rec5_def rec4_def is_zero_time_def\<close>)
qed

lemma registry_ok_register [inv_intros]:
  assumes "registry_ok r" and "t1 \<noteq> zero_time"
  shows "registry_ok (register rec t1 t2 r)"
proof -
  obtain R where "register rec t1 t2 r = go_put (k_ID R) R r" "k_RegisteredAt R \<noteq> zero_time"
    using register_put[of rec t1 t2 r] assms(2) by metis
  then show ?thesis using assms(1) by (auto simp: registry_ok_def)
qed

lemma registry_ok_unregister [inv_intros]: "registry_ok r \<Longrightarrow> registry_ok (unregister i r)"
  by (auto simp: registry_ok_def unregister_def)

lemma registry_ok_update_health [inv_intros]:
  "registry_ok r \<Longrightarrow> t2 \<noteq> zero_time \<Longrightarrow> registry_ok (update_health i hl t1 t2 t3 r)"
  by (auto simp: registry_ok_def update_health_def Let_def is_zero_time_def split: option.splits)

lemma registry_ok_set_exports [inv_intros]: "registry_ok r \<Longrightarrow> registry_ok (set_exports i ex r)"
  by (auto simp: registry_ok_def set_exports_def split: option.splits)

lemma registry_ok_exec [inv_intros]:
  "registry_ok r \<Longrightarrow> t \<noteq> zero_time \<Longrightarrow> registry_ok (registry_exec (op, t) r)"
  by (cases op) (auto intro: inv_intros)

lemma go_get_set_exports [gomap_simps, simp]:
  "go_get (set_exports i ex r) j =
     (if i = j then map_option (k_Exports_update (\<lambda>_. ex)) (go_get r j) else go_get r j)"
  by (auto simp: set_exports_def split: option.splits)

lemma go_get_update_health_other [gomap_simps, simp]:
  "i \<noteq> j \<Longrightarrow> go_get (update_health i hl t1 t2 t3 r) j = go_get r j"
  by (simp add: update_health_def Let_def)

lemma go_get_update_health_same:
  "\<exists>rec. go_get (update_health i hl t1 t2 t3 r) i = Some rec \<and>
     h_Status (k_Health rec) = h_Status hl \<and> h_Reason (k_Health rec) = h_Reason hl \<and>
     h_Since (k_Health rec) = (if is_zero_time (h_Since hl) then t1 else h_Since hl) \<and>
     k_UpdatedAt rec = t3 \<and>
     (case go_get r i of
        Some old \<Rightarrow> k_ID rec = k_ID old \<and> k_Manifest rec = k_Manifest old \<and>
          k_Exports rec = k_Exports old \<and>
          (k_RegisteredAt old \<noteq> zero_time \<longrightarrow> k_RegisteredAt rec = k_RegisteredAt old)
      | None \<Rightarrow> k_ID rec = i \<and> m_KernelID (k_Manifest rec) = i \<and> k_Exports rec = None \<and>
          k_Scope rec = [])"
  by (auto simp: update_health_def Let_def zero_kernel_record_def zero_manifest_def is_zero_time_def
      split: option.splits)

section \<open>The registry as a store of exports\<close>

text \<open>
  What a component that hides and restores exports relies on: writing the exports of a known
  kernel changes that entry and nothing else, and an unknown kernel stays unknown.
\<close>

locale exports_store =
  fixes known_exports :: "'r \<Rightarrow> string \<Rightarrow> kernel_exports option option"
    and health_at :: "'r \<Rightarrow> string \<Rightarrow> health option"
    and setx :: "string \<Rightarrow> kernel_exports option \<Rightarrow> 'r \<Rightarrow> 'r"
  assumes known_setx: "known_exports (setx i ex r) j =
      (if i = j then map_option (\<lambda>_. ex) (known_exports r j) else known_exports r j)"
    and health_setx: "health_at (setx i ex r) j = health_at r j"
begin

lemma setx_last: "known_exports (setx i a (setx i b r)) j = known_exports (setx i a r) j"
  by (cases "known_exports r j") (simp_all add: known_setx)

lemma setx_commute:
  "i \<noteq> j \<Longrightarrow> known_exports (setx i a (setx j b r)) k = known_exports (setx j b (setx i a r)) k"
  by (auto simp: known_setx)

lemma setx_same: "known_exports r i = Some ex \<Longrightarrow> known_exports (setx i ex r) j = known_exports r j"
  by (auto simp: known_setx)

end

definition registry_exports :: "registry \<Rightarrow> string \<Rightarrow> kernel_exports option option" where
  "registry_exports r i = map_option k_Exports (go_get r i)"

definition registry_health :: "registry \<Rightarrow> string \<Rightarrow> health option" where
  "registry_health r i = map_option k_Health (go_get r i)"

interpretation registry_store: exports_store registry_exports registry_health set_exports
  by unfold_locales (auto simp: registry_exports_def registry_health_def option.map_comp comp_def)

text \<open>The summary is never better than the health of a kernel.\<close>

lemma summary_at_least:
  assumes "go_get r i = Some rec" and "go_range r ord"
  shows "rec_severity rec \<le> severity_of (h_Status (aggregate_health ord now1 now2))"
proof -
  have "rec_severity rec \<in> insert SevReady (rec_severity ` snd ` set r)"
    using go_get_in[OF assms(1)] by force
  then have "rec_severity rec \<le> Max (insert SevReady (rec_severity ` snd ` set r))"
    by (intro Max_ge) auto
  then show ?thesis using aggregate_order_free[OF assms(2), of now1 now2] by simp
qed

section \<open>Properties of the registry\<close>

definition demo_manifest :: "string \<Rightarrow> manifest" where
  "demo_manifest i = zero_manifest\<lparr>m_KernelID := i, m_Scope := DomainScope\<rparr>"

definition demo_registry :: registry where
  "demo_registry = [(''a'', zero_kernel_record\<lparr>k_ID := ''a'', k_Manifest := demo_manifest ''a'',
       k_Health := \<lparr>h_Status = HealthStopped, h_Reason = [], h_Since = 5\<rparr>, k_RegisteredAt := 1\<rparr>),
     (''b'', zero_kernel_record\<lparr>k_ID := ''b'', k_Manifest := demo_manifest ''b'',
       k_Health := \<lparr>h_Status = HealthFailed, h_Reason = [], h_Since = 7\<rparr>, k_RegisteredAt := 1\<rparr>)]"

lemma demo_registry_ok: "registry_ok demo_registry"
  by (auto simp: registry_ok_def demo_registry_def go_map_def zero_kernel_record_def zero_time_def
      split: if_splits)



text \<open>
  UpdateHealth stores the given health (dating it when it carries no time), stamps the record, keeps
  its identity, manifest, exports and registration time, touches no other kernel, and
  creates a record with an empty scope and no exports for an id nobody registered.
\<close>
theorem update_health_effect:
  assumes "registry_ok r" and "r' = update_health i hl t1 t2 t3 r"
  shows "(\<exists>rec. go_get r' i = Some rec \<and>
      k_Health rec = (if is_zero_time (h_Since hl) then hl\<lparr>h_Since := t1\<rparr> else hl) \<and>
      k_ID rec = i \<and> k_UpdatedAt rec = t3 \<and>
      (case go_get r i of
         Some old \<Rightarrow> k_Manifest rec = k_Manifest old \<and> k_Exports rec = k_Exports old \<and>
           k_RegisteredAt rec = k_RegisteredAt old
       | None \<Rightarrow> k_Scope rec = [] \<and> k_Exports rec = None)) \<and>
    go_get r' j = (if j = i then go_get r' i else go_get r j)"
proof -
  obtain rec where rec: "go_get r' i = Some rec"
    and h: "h_Status (k_Health rec) = h_Status hl" "h_Reason (k_Health rec) = h_Reason hl"
      "h_Since (k_Health rec) = (if is_zero_time (h_Since hl) then t1 else h_Since hl)"
    and rest: "k_UpdatedAt rec = t3" "(case go_get r i of
        Some old \<Rightarrow> k_ID rec = k_ID old \<and> k_Manifest rec = k_Manifest old \<and>
          k_Exports rec = k_Exports old \<and>
          (k_RegisteredAt old \<noteq> zero_time \<longrightarrow> k_RegisteredAt rec = k_RegisteredAt old)
      | None \<Rightarrow> k_ID rec = i \<and> m_KernelID (k_Manifest rec) = i \<and> k_Exports rec = None \<and>
          k_Scope rec = [])"
    using go_get_update_health_same[of i hl t1 t2 t3 r] assms(2) by blast
  have "k_Health rec = (if is_zero_time (h_Since hl) then hl\<lparr>h_Since := t1\<rparr> else hl)"
    using h by (cases "is_zero_time (h_Since hl)") (auto intro!: health.equality)
  moreover have "go_get r' j = (if j = i then go_get r' i else go_get r j)"
    using assms(2) by simp
  ultimately show ?thesis
    using rec rest assms(1) by (auto simp: registry_ok_def split: option.splits)
qed

theorem update_health_effect_witness:
  "\<exists>rec. go_get (update_health ''a'' zero_health 1 2 3 demo_registry) ''a'' = Some rec \<and> k_UpdatedAt rec = 3"
  using update_health_effect[OF demo_registry_ok refl, of "''a''" zero_health 1 2 3] by blast

text \<open>
  C33: The status that AggregateHealth reports does not depend on the order in which Go visits the map: it is
  the most severe of the kernels' statuses (ready < stopped < draining < degraded < failed), ready
  when there are none; and it comes with a reason exactly when it is not ready.
\<close>
theorem aggregate_status:
  assumes "go_range r ord"
  shows "h_Status (aggregate_health ord now1 now2) =
      status_of (Max (insert SevReady (rec_severity ` snd ` set r))) \<and>
    (h_Reason (aggregate_health ord now1 now2) = [] \<longleftrightarrow>
      Max (insert SevReady (rec_severity ` snd ` set r)) = SevReady)"
  using aggregate_order_free[OF assms] by blast

theorem aggregate_status_witness:
  "h_Status (aggregate_health (rev demo_registry) 9 9) = HealthFailed"
  using aggregate_status[of demo_registry "rev demo_registry" 9 9]
  by (simp add: go_range_def demo_registry_def rec_severity_def severity_of_def max_def
      less_eq_severity_def)

text \<open>
  The summary dates from the earliest report: when all reporting kernels carry a time, Since is the minimum
  of their times and the current one, whatever the order of the map.
\<close>
theorem aggregate_since:
  assumes "go_range r ord" and "0 < now1" and "\<forall>t\<in>set (reported r). 0 < t"
  shows "h_Since (aggregate_health ord now1 now2) = Min (insert now1 (set (reported r)))"
proof (cases "ord = []")
  case True
  then have "r = []" using assms(1) by (simp add: go_range_def)
  then show ?thesis using True by (simp add: aggregate_health_def reported_def)
next
  case False
  obtain s reason where sr: "foldl aggregate_step
      (\<lparr>h_Status = HealthReady, h_Reason = [], h_Since = now1\<rparr>, []) ord = (s, reason)" by fastforce
  have rep: "set (reported ord) = set (reported r)"
    using go_range_set[OF assms(1)] by (simp add: reported_def)
  have "h_Since s = Min (insert now1 (set (reported r)))"
    using aggregate_fold_since[of "\<lparr>h_Status = HealthReady, h_Reason = [], h_Since = now1\<rparr>" ord "[]"]
      assms(2,3) rep sr by simp
  moreover have "Min (insert now1 (set (reported r))) \<noteq> 0"
    using assms(2,3) Min_in[of "insert now1 (set (reported r))"] by auto
  ultimately show ?thesis
    using False by (simp add: aggregate_health_def sr Let_def is_zero_time_def zero_time_def)
qed

theorem aggregate_since_witness:
  "h_Since (aggregate_health (rev demo_registry) 9 9) = 5"
  using aggregate_since[of demo_registry "rev demo_registry" 9 9]
  by (simp add: go_range_def demo_registry_def reported_def)

text \<open>
  The reason does depend on the order of the map, and can name a kernel that is not the
  cause: with a stopped kernel a and a failed kernel b the status is failed either way, but
  one order blames b and the other reports that a is stopped.
\<close>
theorem aggregate_reason_order:
  "\<exists>r ord1 ord2. registry_ok r \<and> go_range r ord1 \<and> go_range r ord2 \<and>
     h_Status (aggregate_health ord1 9 9) = HealthFailed \<and>
     h_Status (aggregate_health ord2 9 9) = HealthFailed \<and>
     h_Reason (aggregate_health ord1 9 9) = ''kernel stopped: a'' \<and>
     h_Reason (aggregate_health ord2 9 9) = ''kernel failed: b''"
proof (rule exI[of _ demo_registry], rule exI[of _ demo_registry], rule exI[of _ "rev demo_registry"],
    intro conjI)
  show "registry_ok demo_registry" by (rule demo_registry_ok)
  show "go_range demo_registry demo_registry" "go_range demo_registry (rev demo_registry)"
    by (simp_all add: go_range_def)
  show "h_Status (aggregate_health demo_registry 9 9) = HealthFailed"
    "h_Status (aggregate_health (rev demo_registry) 9 9) = HealthFailed"
    "h_Reason (aggregate_health demo_registry 9 9) = ''kernel stopped: a''"
    "h_Reason (aggregate_health (rev demo_registry) 9 9) = ''kernel failed: b''"
    by (simp_all add: aggregate_health_def demo_registry_def aggregate_step_def Let_def
        is_zero_time_def zero_time_def demo_manifest_def)
qed

text \<open>
  The discovery list shows every kernel exactly once, with its current health and exports, in
  strictly increasing order of ids; and Kernels returns exactly the stored records, ordered by
  the id in their manifest.
\<close>
theorem registry_listings:
  assumes "registry_ok r" and "go_range r ord"
  shows "sorted_wrt (<) (map d_ID (discovery_list ord)) \<and>
    (\<lparr>d_ID = i, d_Health = hl, d_Exports = ex\<rparr> \<in> set (discovery_list ord) \<longleftrightarrow>
      (\<exists>rec. go_get r i = Some rec \<and> k_Health rec = hl \<and> k_Exports rec = ex)) \<and>
    sorted (map (\<lambda>rec. m_KernelID (k_Manifest rec)) (kernels ord)) \<and>
    mset (kernels ord) = mset (map snd r)"
proof -
  have m: "go_map r" using assms(1) by (simp add: registry_ok_def)
  have ids: "mset (map d_ID (discovery_list ord)) = mset (map fst ord)"
    by (simp add: discovery_list_def case_prod_beta multiset.map_comp comp_def)
  have "distinct (map d_ID (discovery_list ord))"
    using go_range_distinct[OF m assms(2)] ids by (metis mset_eq_imp_distinct_iff)
  moreover have "sorted (map d_ID (discovery_list ord))"
    by (simp add: discovery_list_def)
  ultimately have "sorted_wrt (<) (map d_ID (discovery_list ord))"
    by (simp add: strict_sorted_iff)
  moreover have "(\<lparr>d_ID = i, d_Health = hl, d_Exports = ex\<rparr> \<in> set (discovery_list ord)) \<longleftrightarrow>
      (\<exists>rec. go_get r i = Some rec \<and> k_Health rec = hl \<and> k_Exports rec = ex)"
    using go_range_get[OF m assms(2)] by (force simp: discovery_list_def image_iff)
  moreover have "mset (kernels ord) = mset (map snd r)"
    using assms(2) by (simp add: kernels_def go_range_def)
  ultimately show ?thesis by (simp add: kernels_def)
qed

theorem registry_listings_witness:
  "sorted_wrt (<) (map d_ID (discovery_list (rev demo_registry)))"
  using registry_listings[OF demo_registry_ok, of "rev demo_registry"] by (simp add: go_range_def)

end
