(* ===== verification/Degradation.thy ===== *)
theory Degradation
  imports Registry
begin

text \<open>
  The degradation policy (\<open>cmd/rk/degradation_policy_gen.go\<close>): on every tick it hides the exports
  of the kernels that are not ready and restores them when they are ready again. The policy is a
  client of the registry; it is written over the function that sets exports, and its lemmas are
  proved from the laws of \<open>exports_store\<close>.
\<close>

section \<open>Copies\<close>

text \<open>\<open>append([]T(nil), xs...)\<close> of an empty slice is nil.\<close>

definition copy_slice :: "'a slice \<Rightarrow> 'a slice" where
  "copy_slice s = (case s of None \<Rightarrow> None | Some xs \<Rightarrow> if xs = [] then None else Some xs)"

definition copy_exports :: "kernel_exports option \<Rightarrow> kernel_exports option" where
  "copy_exports eo = (case eo of None \<Rightarrow> None | Some ex \<Rightarrow> Some
     (ex\<lparr>x_Network := copy_slice (x_Network ex), x_Events := copy_slice (x_Events ex),
         x_Streams := copy_slice (x_Streams ex), x_CLI := copy_slice (x_CLI ex),
         x_Local := copy_slice (x_Local ex)\<rparr>))"

lemma copy_slice_idem [simp]: "copy_slice (copy_slice s) = copy_slice s"
  by (simp add: copy_slice_def split: option.splits)

lemma copy_exports_idem [simp]: "copy_exports (copy_exports eo) = copy_exports eo"
  by (cases eo) (simp_all add: copy_exports_def)

lemma copy_exports_None [simp]: "copy_exports eo = None \<longleftrightarrow> eo = None"
  by (simp add: copy_exports_def split: option.splits)

section \<open>One tick\<close>

type_synonym snapshot = "(string, kernel_exports option) gomap"

definition hidden_statuses :: "health_status list" where
  "hidden_statuses = [HealthDegraded, HealthFailed, HealthDraining, HealthStopped]"

definition policy_record ::
  "(string \<Rightarrow> kernel_exports option \<Rightarrow> 'r \<Rightarrow> 'r) \<Rightarrow> discovery_record \<Rightarrow> snapshot \<times> 'r \<Rightarrow> snapshot \<times> 'r" where
  "policy_record setx rec sr = (case sr of (snap, r) \<Rightarrow>
     (if h_Status (d_Health rec) = HealthReady
      then (case go_get snap (d_ID rec) of
              Some ex \<Rightarrow> (go_del (d_ID rec) snap, setx (d_ID rec) ex r)
            | None \<Rightarrow> (snap, r))
      else if h_Status (d_Health rec) \<in> set hidden_statuses
      then (case d_Exports rec of
              None \<Rightarrow> (snap, r)
            | Some ex \<Rightarrow>
                ((case go_get snap (d_ID rec) of
                    Some _ \<Rightarrow> snap
                  | None \<Rightarrow> go_put (d_ID rec) (copy_exports (Some ex)) snap),
                 setx (d_ID rec) None r))
      else (snap, r)))"

definition policy_records ::
  "(string \<Rightarrow> kernel_exports option \<Rightarrow> 'r \<Rightarrow> 'r) \<Rightarrow> discovery_record list \<Rightarrow> snapshot \<times> 'r \<Rightarrow> snapshot \<times> 'r" where
  "policy_records setx ds sr = foldl (\<lambda>sr rec. policy_record setx rec sr) sr ds"

text \<open>
  The tick on the registry itself, the map visited in the order \<open>ord\<close>, with no other call in between.
\<close>

definition policy_tick :: "(string \<times> kernel_record) list \<Rightarrow> snapshot \<times> registry \<Rightarrow> snapshot \<times> registry" where
  "policy_tick ord sr = policy_records set_exports (discovery_list ord) sr"

section \<open>The effect, kernel by kernel\<close>

definition next_snap ::
  "discovery_record \<Rightarrow> kernel_exports option option \<Rightarrow> kernel_exports option option" where
  "next_snap d so =
     (if h_Status (d_Health d) = HealthReady then None
      else if h_Status (d_Health d) \<in> set hidden_statuses
      then (case d_Exports d of
              None \<Rightarrow> so
            | Some ex \<Rightarrow> (case so of Some s \<Rightarrow> Some s | None \<Rightarrow> Some (copy_exports (Some ex))))
      else so)"

definition next_exports ::
  "discovery_record \<Rightarrow> kernel_exports option option \<Rightarrow> kernel_exports option \<Rightarrow> kernel_exports option" where
  "next_exports d so cur =
     (if h_Status (d_Health d) = HealthReady then (case so of Some ex \<Rightarrow> ex | None \<Rightarrow> cur)
      else if h_Status (d_Health d) \<in> set hidden_statuses \<and> d_Exports d \<noteq> None then None
      else cur)"

context exports_store
begin

lemma policy_record_effect:
  "go_get (fst (policy_record setx d (snap, r))) j =
     (if j = d_ID d then next_snap d (go_get snap j) else go_get snap j)"
  "known_exports (snd (policy_record setx d (snap, r))) j =
     (if j = d_ID d then map_option (next_exports d (go_get snap j)) (known_exports r j)
      else known_exports r j)"
  "health_at (snd (policy_record setx d (snap, r))) j = health_at r j"
proof -
  show "go_get (fst (policy_record setx d (snap, r))) j =
     (if j = d_ID d then next_snap d (go_get snap j) else go_get snap j)"
    by (simp add: policy_record_def next_snap_def split: option.splits)
  show "known_exports (snd (policy_record setx d (snap, r))) j =
     (if j = d_ID d then map_option (next_exports d (go_get snap j)) (known_exports r j)
      else known_exports r j)"
    by (cases "j = d_ID d"; cases "known_exports r (d_ID d)")
      (simp_all add: policy_record_def next_exports_def known_setx split: option.splits)
  show "health_at (snd (policy_record setx d (snap, r))) j = health_at r j"
    by (simp add: policy_record_def health_setx split: option.splits)
qed

lemma policy_records_effect:
  "distinct (map d_ID ds) \<Longrightarrow>
     go_get (fst (policy_records setx ds (snap, r))) j =
       (case find (\<lambda>d. d_ID d = j) ds of
          Some d \<Rightarrow> next_snap d (go_get snap j) | None \<Rightarrow> go_get snap j) \<and>
     known_exports (snd (policy_records setx ds (snap, r))) j =
       (case find (\<lambda>d. d_ID d = j) ds of
          Some d \<Rightarrow> map_option (next_exports d (go_get snap j)) (known_exports r j)
        | None \<Rightarrow> known_exports r j) \<and>
     health_at (snd (policy_records setx ds (snap, r))) j = health_at r j"
proof (induction ds arbitrary: snap r)
  case Nil
  then show ?case by (simp add: policy_records_def)
next
  case (Cons d ds)
  obtain snap' r' where p: "policy_record setx d (snap, r) = (snap', r')" by fastforce
  have "find (\<lambda>d'. d_ID d' = d_ID d) ds = None"
    using Cons.prems by (simp add: find_None_iff image_iff) metis
  then show ?case
    using Cons.IH[of snap' r'] Cons.prems policy_record_effect[of d snap r j] p
    by (cases "d_ID d = j") (auto simp: policy_records_def split: option.splits)
qed

end

lemma find_distinct:
  "distinct (map f xs) \<Longrightarrow> x \<in> set xs \<Longrightarrow> f x = i \<Longrightarrow> find (\<lambda>d. f d = i) xs = Some x"
  by (induction xs) auto

lemma discovery_list_ids:
  assumes "registry_ok r" and "go_range r ord"
  shows "distinct (map d_ID (discovery_list ord))"
    and "find (\<lambda>d. d_ID d = i) (discovery_list ord) =
      map_option (\<lambda>rec. \<lparr>d_ID = i, d_Health = k_Health rec, d_Exports = k_Exports rec\<rparr>) (go_get r i)"
proof -
  have m: "go_map r" using assms(1) by (simp add: registry_ok_def)
  have "mset (map d_ID (discovery_list ord)) = mset (map fst ord)"
    by (simp add: discovery_list_def case_prod_beta multiset.map_comp comp_def)
  then show d: "distinct (map d_ID (discovery_list ord))"
    using go_range_distinct[OF m assms(2)] by (metis mset_eq_imp_distinct_iff)
  show "find (\<lambda>d. d_ID d = i) (discovery_list ord) =
      map_option (\<lambda>rec. \<lparr>d_ID = i, d_Health = k_Health rec, d_Exports = k_Exports rec\<rparr>) (go_get r i)"
  proof (cases "go_get r i")
    case None
    then have "(i, rec) \<notin> set ord" for rec using go_range_get[OF m assms(2)] by simp
    then show ?thesis using None by (auto simp: find_None_iff discovery_list_def)
  next
    case (Some rec)
    then have "\<lparr>d_ID = i, d_Health = k_Health rec, d_Exports = k_Exports rec\<rparr> \<in> set (discovery_list ord)"
      using go_range_get[OF m assms(2)] by (force simp: discovery_list_def image_iff)
    then show ?thesis using find_distinct[OF d] Some by simp
  qed
qed

lemma registry_ok_record:
  "registry_ok r \<Longrightarrow> registry_ok (snd (policy_record set_exports d (snap, r)))"
  by (auto simp: policy_record_def intro: registry_ok_set_exports split: option.splits)

lemma registry_ok_tick [inv_intros]: "registry_ok (snd sr) \<Longrightarrow> registry_ok (snd (policy_tick ord sr))"
proof -
  have "registry_ok (snd sr) \<Longrightarrow> registry_ok (snd (policy_records set_exports ds sr))" for ds
  proof (induction ds arbitrary: sr)
    case (Cons d ds)
    then show ?case
      using registry_ok_record[of "snd sr" d "fst sr"] Cons.IH by (simp add: policy_records_def)
  qed (simp add: policy_records_def)
  then show "registry_ok (snd sr) \<Longrightarrow> ?thesis" by (simp add: policy_tick_def)
qed

text \<open>What a tick does to the kernel \<open>i\<close>, by its status.\<close>

lemma tick_effect:
  assumes "registry_ok r" and "go_range r ord" and "go_get r i = Some rec"
    and "policy_tick ord (snap, r) = (snap', r')"
  shows "registry_health r' i = Some (k_Health rec) \<and>
    (if h_Status (k_Health rec) = HealthReady
     then registry_exports r' i = Some (case go_get snap i of Some ex \<Rightarrow> ex | None \<Rightarrow> k_Exports rec) \<and>
       go_get snap' i = None
     else if h_Status (k_Health rec) \<in> set hidden_statuses \<and> k_Exports rec \<noteq> None
     then registry_exports r' i = Some None \<and>
       go_get snap' i = Some (case go_get snap i of Some ex \<Rightarrow> ex | None \<Rightarrow> copy_exports (k_Exports rec))
     else registry_exports r' i = Some (k_Exports rec) \<and> go_get snap' i = go_get snap i)"
  using registry_store.policy_records_effect[OF discovery_list_ids(1)[OF assms(1,2)], of snap r i]
    discovery_list_ids(2)[OF assms(1,2), of i] assms(3,4)
  by (auto simp: policy_tick_def next_snap_def next_exports_def registry_exports_def
      registry_health_def split: option.splits)

section \<open>Properties of the policy\<close>

text \<open>
  A tick treats every kernel by its own status, in whatever order Go visits the map: a ready kernel gets
  the exports saved for it, if any, and its save is forgotten; a kernel that is degraded, failed,
  draining or stopped loses its exports, which are saved unless something is saved already;
  any other kernel keeps both; and no kernel's health changes.
\<close>
theorem policy_tick_effect:
  assumes "registry_ok r" and "go_range r ord" and "go_get r i = Some rec"
    and "policy_tick ord (snap, r) = (snap', r')"
  shows "registry_health r' i = Some (k_Health rec) \<and>
    (if h_Status (k_Health rec) = HealthReady
     then registry_exports r' i = Some (case go_get snap i of Some ex \<Rightarrow> ex | None \<Rightarrow> k_Exports rec) \<and>
       go_get snap' i = None
     else if h_Status (k_Health rec) \<in> set hidden_statuses \<and> k_Exports rec \<noteq> None
     then registry_exports r' i = Some None \<and>
       go_get snap' i = Some (case go_get snap i of Some ex \<Rightarrow> ex | None \<Rightarrow> copy_exports (k_Exports rec))
     else registry_exports r' i = Some (k_Exports rec) \<and> go_get snap' i = go_get snap i)"
  using tick_effect[OF assms] .

definition some_exports :: "string \<Rightarrow> kernel_exports" where
  "some_exports a = \<lparr>x_Network = Some [\<lparr>ne_Name = ''hello'', ne_Protocol = ''http'', ne_Address = a,
     ne_Version = ''v1'', ne_Endpoints = Some [''/hello'']\<rparr>], x_Events = None, x_Streams = None,
     x_CLI = None, x_Local = None\<rparr>"

definition exporting_registry :: "health_status \<Rightarrow> registry" where
  "exporting_registry st = [(''site'', zero_kernel_record\<lparr>k_ID := ''site'',
     k_Manifest := demo_manifest ''site'', k_Exports := Some (some_exports '':8081''),
     k_Health := \<lparr>h_Status = st, h_Reason = [], h_Since = 5\<rparr>, k_RegisteredAt := 1\<rparr>)]"

lemma exporting_registry_ok: "registry_ok (exporting_registry st)"
  by (auto simp: registry_ok_def exporting_registry_def go_map_def zero_time_def split: if_splits)

lemma exporting_registry_get:
  "\<exists>rec. go_get (exporting_registry st) ''site'' = Some rec \<and> h_Status (k_Health rec) = st \<and>
     k_Exports rec = Some (some_exports '':8081'')"
  by (simp add: exporting_registry_def)

theorem policy_tick_effect_witness:
  "registry_exports (snd (policy_tick (exporting_registry HealthFailed) ([], exporting_registry HealthFailed)))
     ''site'' = Some None"
proof -
  obtain rec where rec: "go_get (exporting_registry HealthFailed) ''site'' = Some rec"
    "h_Status (k_Health rec) = HealthFailed" "k_Exports rec = Some (some_exports '':8081'')"
    using exporting_registry_get by blast
  show ?thesis
    using policy_tick_effect[OF exporting_registry_ok go_range_refl rec(1), of "[]"] rec(2,3)
    by (cases "policy_tick (exporting_registry HealthFailed) ([], exporting_registry HealthFailed)")
      (simp add: hidden_statuses_def)
qed

text \<open>
  Hiding and restoring loses nothing: a kernel with exports that stops being ready has none after the next tick,
  and once its health is ready again the tick after that puts back the very exports it had (up
  to empty slices, which come back as nil), and nothing stays saved.
\<close>
theorem degradation_roundtrip:
  assumes "registry_ok r" and "go_get r i = Some rec" and "k_Exports rec = Some ex"
    and "h_Status (k_Health rec) \<in> set hidden_statuses" and "go_get snap i = None"
    and "go_range r ord1" and "policy_tick ord1 (snap, r) = (snap1, r1)"
    and "r2 = update_health i hl t t t r1" and "h_Status hl = HealthReady" and "t \<noteq> zero_time"
    and "go_range r2 ord2" and "policy_tick ord2 (snap1, r2) = (snap2, r3)"
  shows "registry_exports r1 i = Some None \<and>
    registry_exports r3 i = Some (copy_exports (Some ex)) \<and> go_get snap2 i = None"
proof -
  have 1: "registry_exports r1 i = Some None" "go_get snap1 i = Some (copy_exports (Some ex))"
    using tick_effect[OF assms(1,6,2,7)] assms(3,4,5) by (auto simp: hidden_statuses_def)
  have ok1: "registry_ok r1" using registry_ok_tick[of "(snap, r)" ord1] assms(1,7) by simp
  then have ok2: "registry_ok r2" using assms(8,10) by (auto intro: inv_intros)
  obtain rec2 where "go_get r2 i = Some rec2" "h_Status (k_Health rec2) = HealthReady"
    using go_get_update_health_same[of i hl t t t r1] assms(8,9) by metis
  then show ?thesis
    using tick_effect[OF ok2 assms(11) _ assms(12), of i] 1 by auto
qed

theorem degradation_roundtrip_witness:
  "\<exists>r1 r3. registry_exports r1 ''site'' = Some None \<and>
     registry_exports r3 ''site'' = Some (Some (some_exports '':8081''))"
proof -
  let ?r = "exporting_registry HealthFailed"
  obtain snap1 r1 where t1: "policy_tick ?r ([], ?r) = (snap1, r1)" by fastforce
  let ?hl = "\<lparr>h_Status = HealthReady, h_Reason = [], h_Since = 9\<rparr>"
  obtain snap2 r3 where t2: "policy_tick (update_health ''site'' ?hl 9 9 9 r1)
      (snap1, update_health ''site'' ?hl 9 9 9 r1) = (snap2, r3)" by fastforce
  obtain rec where rec: "go_get ?r ''site'' = Some rec"
    "h_Status (k_Health rec) = HealthFailed" "k_Exports rec = Some (some_exports '':8081'')"
    using exporting_registry_get by blast
  have "copy_exports (Some (some_exports '':8081'')) = Some (some_exports '':8081'')"
    by (simp add: copy_exports_def some_exports_def copy_slice_def)
  then show ?thesis
    using degradation_roundtrip[OF exporting_registry_ok rec(1) rec(3) _ _ go_range_refl t1 refl
        _ _ go_range_refl t2] rec(2)
    by (auto simp: hidden_statuses_def zero_time_def)
qed

text \<open>
  A save outlives the kernel it was made for: when a kernel whose exports are saved is
  registered anew (by a reload that relaunches its domain, say), ready and with new exports, the
  next tick replaces the new exports by the saved old ones.
\<close>
theorem degradation_stale_snapshot:
  assumes "registry_ok r" and "go_get snap i = Some old"
    and "k_ID new = i" and "i \<noteq> []" and "h_Status (k_Health new) = HealthReady" and "t \<noteq> zero_time"
    and "r1 = register new t t r" and "go_range r1 ord" and "policy_tick ord (snap, r1) = (snap', r2)"
  shows "registry_exports r1 i = Some (k_Exports new) \<and> registry_exports r2 i = Some old"
proof -
  obtain R where R: "r1 = go_put (k_ID R) R r" "k_ID R = i" "k_Health R = k_Health new"
    "k_Exports R = k_Exports new"
    using register_put[of new t t r] assms(3,4,7) by metis
  have "registry_ok r1" using assms(1,6,7) by (auto intro: inv_intros)
  then show ?thesis
    using tick_effect[OF _ assms(8) _ assms(9), of i R] R assms(2,5)
    by (auto simp: registry_exports_def)
qed

theorem degradation_stale_snapshot_witness:
  "\<exists>r1 r2. registry_exports r1 ''site'' = Some (Some (some_exports '':9000'')) \<and>
     registry_exports r2 ''site'' = Some (Some (some_exports '':8081''))"
proof -
  let ?new = "zero_kernel_record\<lparr>k_ID := ''site'', k_Exports := Some (some_exports '':9000''),
    k_Health := \<lparr>h_Status = HealthReady, h_Reason = [], h_Since = 5\<rparr>\<rparr>"
  let ?snap = "[(''site'', Some (some_exports '':8081''))]"
  obtain snap' r2 where t: "policy_tick (register ?new 1 1 new_registry)
      (?snap, register ?new 1 1 new_registry) = (snap', r2)" by fastforce
  show ?thesis
    using degradation_stale_snapshot[OF registry_ok_new _ _ _ _ _ refl go_range_refl t]
    by (auto simp: zero_time_def)
qed

end
