(* ===== verification/Admin.thy ===== *)
theory Admin
  imports Degradation Log_Ports
begin

text \<open>
  The health aggregator (\<open>cmd/rk/health_aggregator_gen.go\<close>) and the admin HTTP server
  (\<open>http_admin_server_gen.go\<close>, \<open>http_admin_control_gen.go\<close>, \<open>http_admin_telemetry_gen.go\<close>,
  \<open>http_admin_logs_gen.go\<close>). A handler is a function from the parts of the request it reads and the
  state it changes to the response and the new state. The JSON encoder and decoder of the
  standard library are arguments where their output matters.
\<close>

section \<open>Messages of the bus and the health aggregator\<close>

text \<open>The values that the root kernel puts on the bus; the bus itself carries \<open>any\<close>.\<close>

datatype bus_msg = MsgLog log_record_v2 | MsgHealth health | MsgOther

record health_aggregator =
  ha_last :: "health option"

definition new_health_aggregator :: "gotime \<Rightarrow> health_aggregator" where
  "new_health_aggregator now =
     \<lparr>ha_last = Some \<lparr>h_Status = HealthReady, h_Reason = [], h_Since = now\<rparr>\<rparr>"

definition ha_snapshot :: "health_aggregator \<Rightarrow> gotime \<Rightarrow> health" where
  "ha_snapshot h now = (case ha_last h of Some v \<Rightarrow> v
     | None \<Rightarrow> \<lparr>h_Status = HealthReady, h_Reason = [], h_Since = now\<rparr>)"

text \<open>One tick of \<open>Run\<close>: aggregate, store, publish.\<close>

definition ha_tick ::
  "(bus_msg, 'w) publisher \<Rightarrow> ctx_done \<Rightarrow> (string \<times> kernel_record) list \<Rightarrow> gotime \<Rightarrow> gotime
    \<Rightarrow> health_aggregator \<times> 'w \<Rightarrow> health_aggregator \<times> 'w" where
  "ha_tick pub ctx ord now1 now2 hw = (case hw of (h, w) \<Rightarrow>
     (let v = aggregate_health ord now1 now2
      in (h\<lparr>ha_last := Some v\<rparr>, fst (pub ctx ''telemetry.health.root'' (MsgHealth v) w))))"

section \<open>Responses\<close>

datatype body = TextBody string | JsonBody "(string \<times> string) list" | NoBody

record http_response =
  rs_code :: nat
  rs_body :: body

definition http_error :: "string \<Rightarrow> nat \<Rightarrow> http_response" where
  "http_error msg code = \<lparr>rs_code = code, rs_body = TextBody msg\<rparr>"

text \<open>\<open>/admin/health\<close>: the summary and the health of every kernel.\<close>

definition admin_health ::
  "health_aggregator option \<Rightarrow> (string \<times> kernel_record) list \<Rightarrow> (string \<times> kernel_record) list
    \<Rightarrow> gotime \<Rightarrow> gotime \<Rightarrow> gotime \<Rightarrow> health \<times> (string, health) gomap" where
  "admin_health ha ord1 ord2 now1 now2 now3 =
     (let summary = aggregate_health ord1 now1 now2;
          summary' = (case ha of None \<Rightarrow> summary | Some h \<Rightarrow> ha_snapshot h now3)
      in (summary', kernel_health ord2))"

section \<open>The control handler\<close>

definition control_prefix :: string where "control_prefix = ''/admin/kernels/''"

definition control_handler ::
  "string \<Rightarrow> string \<Rightarrow> gotime \<Rightarrow> gotime \<Rightarrow> gotime \<Rightarrow> gotime \<Rightarrow> registry \<Rightarrow> http_response \<times> registry" where
  "control_handler meth path now t1 t2 t3 r =
     (let parts = split_on (CHR ''/'') (trim_prefix path control_prefix)
      in if length parts < 2 then (http_error ''bad path'' 400, r)
         else let i = parts ! 0; action = parts ! 1
         in if meth = ''POST''
            then if action = ''restart''
                 then (\<lparr>rs_code = 202, rs_body = JsonBody
                         [(''status'', ''accepted''), (''action'', ''restart''), (''id'', i)]\<rparr>,
                       update_health i \<lparr>h_Status = HealthReady,
                         h_Reason = ''manual restart (placeholder)'', h_Since = now\<rparr> t1 t2 t3 r)
                 else if action = ''drain''
                 then (\<lparr>rs_code = 202, rs_body = JsonBody
                         [(''status'', ''accepted''), (''action'', ''drain''), (''id'', i)]\<rparr>,
                       update_health i \<lparr>h_Status = HealthDraining,
                         h_Reason = ''manual drain (placeholder)'', h_Since = now\<rparr> t1 t2 t3 r)
                 else (http_error ''unknown action'' 404, r)
            else (http_error ''method not allowed'' 405, r))"

section \<open>The telemetry level handler\<close>

definition initial_log_level :: string where "initial_log_level = ''INFO''"

text \<open>
  \<open>decoded\<close> is the level that the JSON decoder reads from the request body, \<open>None\<close> when it fails.
\<close>

definition telemetry_handler :: "string \<Rightarrow> string option \<Rightarrow> string \<Rightarrow> http_response \<times> string" where
  "telemetry_handler meth decoded cur =
     (if meth \<noteq> ''POST'' then (http_error ''method not allowed'' 405, cur)
      else case decoded of
          None \<Rightarrow> (http_error ''bad json'' 400, cur)
        | Some level \<Rightarrow>
            let lv = go_to_upper level
            in if lv = ''DEBUG'' \<or> lv = ''INFO'' \<or> lv = ''WARN'' \<or> lv = ''ERROR''
               then (\<lparr>rs_code = 200, rs_body = JsonBody [(''level'', lv), (''ok'', ''true'')]\<rparr>, lv)
               else (http_error ''bad level'' 400, cur))"

section \<open>The log stream\<close>

definition stream_level :: "string \<Rightarrow> level" where
  "stream_level lv =
     (if lv = [] then 0
      else if lv = ''DEBUG'' \<or> lv = ''debug'' then Debug
      else if lv = ''WARN'' \<or> lv = ''warn'' \<or> lv = ''warning'' then Warn
      else if lv = ''ERROR'' \<or> lv = ''error'' then Error
      else Info)"

definition stream_filter :: "string \<Rightarrow> string \<Rightarrow> string \<Rightarrow> string \<Rightarrow> log_filter" where
  "stream_filter lv krn scope cmp =
     \<lparr>f_LevelMin = stream_level lv, f_KernelID = krn, f_Scope = scope, f_Component = cmp\<rparr>"

text \<open>The topics it subscribes to, in this order.\<close>

definition stream_topics :: "log_filter \<Rightarrow> string list" where
  "stream_topics f = ''telemetry.logs'' #
     (if f_Scope f \<noteq> [] then [''telemetry.logs.'' @ f_Scope f] else [])"

text \<open>
  What can wake the loop of the handler before the context ends: the ticker, or a message on
  one of the two channels (\<open>None\<close> is nil, which a closed channel also yields).
\<close>

datatype stream_event = KeepTick | FromAll "bus_msg option" | FromScope "bus_msg option"

datatype chunk = SseEvent string string | SseComment

definition newline :: string where "newline = [CHR 0x0A]"

fun render :: "chunk \<Rightarrow> string" where
  "render (SseEvent tag d) = ''event: '' @ tag @ newline @ ''data: '' @ d @ newline @ newline"
| "render SseComment = '': keep-alive'' @ newline @ newline"

fun stream_turn :: "(log_record_v2 \<Rightarrow> string) \<Rightarrow> log_filter \<Rightarrow> stream_event \<Rightarrow> chunk list" where
  "stream_turn enc f KeepTick = [SseComment]"
| "stream_turn enc f (FromAll (Some (MsgLog rec))) =
     (if match_v2 f rec then [SseEvent ''log'' (enc rec)] else [])"
| "stream_turn enc f (FromAll _) = []"
| "stream_turn enc f (FromScope (Some (MsgLog rec))) =
     (if match_v2 f rec then [SseEvent ''log'' (enc rec)] else [])"
| "stream_turn enc f (FromScope _) = []"

definition stream_run ::
  "(log_record_v2 \<Rightarrow> string) \<Rightarrow> string \<Rightarrow> log_filter \<Rightarrow> stream_event list \<Rightarrow> chunk list" where
  "stream_run enc hello f evs = SseEvent ''hello'' hello # concat (map (stream_turn enc f) evs)"

section \<open>Lemmas\<close>

lemma control_parse:
  assumes "CHR ''/'' \<notin> set i" and "CHR ''/'' \<notin> set action"
  shows "split_on (CHR ''/'') (trim_prefix (control_prefix @ i @ ''/'' @ action) control_prefix) = [i, action]"
  using split_on_append[OF assms(1), of action] split_on_no_sep[OF assms(2)] by simp

lemma publish_all_wrap:
  "publish_all (\<lambda>ctx t m. pub ctx t (g m)) ctx ts m w = publish_all pub ctx ts (g m) w"
  by (induction ts arbitrary: w) auto

lemma go_to_upper_admin:
  "go_to_upper ''INFO'' = ''INFO''" "go_to_upper ''Debug'' = ''DEBUG''" "go_to_upper ''debug'' = ''DEBUG''"
  "go_to_upper ''info'' = ''INFO''" "go_to_upper ''warn'' = ''WARN''" "go_to_upper ''warning'' = ''WARNING''"
  "go_to_upper ''error'' = ''ERROR''"
  by code_simp+

lemma level_names: "lv \<in> set (map level_string known_levels) \<longleftrightarrow>
    lv = ''DEBUG'' \<or> lv = ''INFO'' \<or> lv = ''WARN'' \<or> lv = ''ERROR''"
  by (simp add: known_levels_def level_string_def level_defs)

lemma telemetry_handler_cases:
  "snd (telemetry_handler meth d cur) =
     (if meth = ''POST'' \<and> d \<noteq> None \<and> go_to_upper (the d) \<in> set (map level_string known_levels)
      then go_to_upper (the d) else cur)"
  "rs_code (fst (telemetry_handler meth d cur)) = 200 \<longleftrightarrow>
     meth = ''POST'' \<and> d \<noteq> None \<and> go_to_upper (the d) \<in> set (map level_string known_levels)"
  unfolding level_names
  by (auto simp: telemetry_handler_def Let_def http_error_def split: option.splits)

lemma telemetry_levels:
  "c \<in> set (map level_string known_levels) \<Longrightarrow>
     foldl (\<lambda>c (meth, d). snd (telemetry_handler meth d c)) c reqs \<in> set (map level_string known_levels)"
proof (induction reqs arbitrary: c)
  case (Cons q reqs)
  have "snd (telemetry_handler (fst q) (snd q) c) \<in> set (map level_string known_levels)"
    using Cons.prems telemetry_handler_cases(1)[of "fst q" "snd q" c] by (simp del: set_map)
  then show ?case using Cons.IH by (simp add: case_prod_beta)
qed simp

section \<open>Properties of the admin server\<close>

text \<open>
  The control handler changes the registry only by the two documented requests: an accepted
  answer means that the addressed kernel's health was set to ready or draining and nothing
  else happened; every other answer leaves the registry as it was.
\<close>
theorem control_handler_effect:
  assumes "control_handler meth path now t1 t2 t3 r = (resp, r')"
  shows "if rs_code resp = 202
    then \<exists>i hl. r' = update_health i hl t1 t2 t3 r \<and> meth = ''POST'' \<and> h_Since hl = now \<and>
      (h_Status hl = HealthReady \<and> has_prefix (trim_prefix path control_prefix) (i @ ''/restart'') \<or>
       h_Status hl = HealthDraining \<and> has_prefix (trim_prefix path control_prefix) (i @ ''/drain''))
    else r' = r \<and> rs_code resp \<in> {400, 404, 405}"
proof -
  let ?p = "trim_prefix path control_prefix"
  let ?i = "split_on (CHR ''/'') ?p ! 0" and ?a = "split_on (CHR ''/'') ?p ! 1"
  consider (none) "length (split_on (CHR ''/'') ?p) < 2"
    | (some) "has_prefix ?p (?i @ ''/'' @ ?a)" "\<not> length (split_on (CHR ''/'') ?p) < 2"
    using split_on_two_nth[of "CHR ''/''" ?p] by auto
  then show ?thesis
  proof cases
    case none
    then show ?thesis using assms by (auto simp: control_handler_def Let_def http_error_def)
  next
    case some
    show ?thesis
    proof (cases "rs_code resp = 202")
      case True
      then have "meth = ''POST''" and "?a = ''restart'' \<or> ?a = ''drain''"
        using assms some(2) by (auto simp: control_handler_def Let_def http_error_def split: if_splits)
      then show ?thesis
        using assms some True by (fastforce simp: control_handler_def Let_def)
    next
      case False
      then show ?thesis
        using assms some(2) by (auto simp: control_handler_def Let_def http_error_def split: if_splits)
    qed
  qed
qed

theorem control_handler_effect_witness:
  "\<exists>resp r'. control_handler ''GET'' ''/admin/kernels/a/drain'' 1 1 1 1 demo_registry = (resp, r') \<and>
     r' = demo_registry"
proof -
  obtain resp r' where h: "control_handler ''GET'' ''/admin/kernels/a/drain'' 1 1 1 1 demo_registry = (resp, r')"
    by fastforce
  show ?thesis
    using control_handler_effect[OF h] h by (auto split: if_splits)
qed

text \<open>
  Draining a kernel that does not exist is accepted and brings it into existence: the answer is 202, the
  registry gains a record for the id with an empty scope and no exports, and from then on the
  summary of the whole node is at least draining.
\<close>
theorem drain_creates_kernel:
  assumes "go_get r i = None" and "CHR ''/'' \<notin> set i"
    and "control_handler ''POST'' (control_prefix @ i @ ''/drain'') now t1 t2 t3 r = (resp, r')"
    and "go_range r' ord"
  shows "rs_code resp = 202 \<and>
    (\<exists>rec. go_get r' i = Some rec \<and> k_Scope rec = [] \<and> k_Exports rec = None) \<and>
    SevDraining \<le> severity_of (h_Status (aggregate_health ord now1 now2))"
proof -
  have parts: "split_on (CHR ''/'') (trim_prefix (control_prefix @ i @ ''/drain'') control_prefix) =
      [i, ''drain'']"
    using control_parse[OF assms(2), of "''drain''"] by simp
  have r': "r' = update_health i \<lparr>h_Status = HealthDraining,
      h_Reason = ''manual drain (placeholder)'', h_Since = now\<rparr> t1 t2 t3 r" and "rs_code resp = 202"
    using assms(3) unfolding control_handler_def parts by (auto simp: Let_def)
  then obtain rec where rec: "go_get r' i = Some rec" "h_Status (k_Health rec) = HealthDraining"
      "k_Scope rec = []" "k_Exports rec = None"
    using go_get_update_health_same[of i _ t1 t2 t3 r] assms(1) by fastforce
  have "SevDraining \<le> severity_of (h_Status (aggregate_health ord now1 now2))"
    using summary_at_least[OF rec(1) assms(4), of now1 now2] rec(2)
    by (simp add: rec_severity_def severity_of_def)
  then show ?thesis using rec \<open>rs_code resp = 202\<close> by blast
qed

theorem drain_creates_kernel_witness:
  "\<exists>resp r'. control_handler ''POST'' ''/admin/kernels/ghost/drain'' 1 1 1 1 new_registry = (resp, r') \<and>
     go_get r' ''ghost'' \<noteq> None"
proof -
  obtain resp r' where h: "control_handler ''POST'' (control_prefix @ ''ghost'' @ ''/drain'') 1 1 1 1
      new_registry = (resp, r')" by fastforce
  then show ?thesis
    using drain_creates_kernel[OF _ _ h go_range_refl] by (auto simp: new_registry_def control_prefix_def)
qed

text \<open>
  Whatever requests arrive, the stored log level stays one of the four level names in upper
  case, which the level parser and printer of the records map to itself; a request is answered
  200 exactly when it is a POST whose level is one of the names in any case, and only then stored.
\<close>
theorem telemetry_level_invariant:
  "(let cur = foldl (\<lambda>c (meth, d). snd (telemetry_handler meth d c)) initial_log_level reqs
    in cur \<in> set (map level_string known_levels) \<and> level_string (parse_level cur) = cur) \<and>
   (rs_code (fst (telemetry_handler meth d cur)) = 200 \<longleftrightarrow>
     meth = ''POST'' \<and> d \<noteq> None \<and> go_to_upper (the d) \<in> set (map level_string known_levels)) \<and>
   snd (telemetry_handler meth d cur) =
     (if rs_code (fst (telemetry_handler meth d cur)) = 200 then go_to_upper (the d) else cur)"
proof -
  have "initial_log_level \<in> set (map level_string known_levels)"
    unfolding level_names by (simp add: initial_log_level_def)
  then have "foldl (\<lambda>c (meth, d). snd (telemetry_handler meth d c)) initial_log_level reqs
      \<in> set (map level_string known_levels)"
    by (rule telemetry_levels)
  moreover have "level_string (parse_level c) = c" if "c \<in> set (map level_string known_levels)" for c
    using that by (auto simp: parse_known_level)
  ultimately show ?thesis
    unfolding Let_def telemetry_handler_cases by blast
qed

text \<open>
  The log stream reads its level parameter almost like the rest of the system: it agrees with parseLevel on
  the four names and on warning in lower case, but it takes WARNING, and names in mixed case,
  for Info.
\<close>
theorem stream_level_agreement:
  "list_all (\<lambda>lv. stream_level lv = parse_level lv)
     [''DEBUG'', ''debug'', ''INFO'', ''info'', ''WARN'', ''warn'', ''warning'', ''ERROR'', ''error''] \<and>
   stream_level ''WARNING'' = Info \<and> parse_level ''WARNING'' = Warn \<and>
   stream_level ''Debug'' = Info \<and> parse_level ''Debug'' = Debug"
  by (simp add: stream_level_def parse_level_def go_to_upper_keywords go_to_upper_admin level_defs)

text \<open>
  A client that filters by the scope of a domain sees every record twice: the handler subscribes
  to the common topic and to the scope's, the tee logger publishes on both, the bus puts the
  record into both fresh subscriptions, and the loop writes it for each.
\<close>
theorem scoped_stream_doubles:
  assumes "bus_ok b" and "iter_ok iter"
    and "bus_subscribe ''telemetry.logs'' b = (b1, i)"
    and "bus_subscribe ''telemetry.logs.domain'' b1 = (b2, j)"
    and "l = new_tee_logger (Some (\<lambda>ctx t m. bus_publisher iter choice ctx t (MsgLog m))) kid ''domain'' cmp []"
    and "rec = tee_record l lv msg flds now" and "match_v2 f rec"
  shows "bus_queue (tee_log (Some l) False lv msg flds now b2) i = [MsgLog rec] \<and>
    bus_queue (tee_log (Some l) False lv msg flds now b2) j = [MsgLog rec] \<and>
    concat (map (stream_turn enc f) [FromAll (Some (MsgLog rec)), FromScope (Some (MsgLog rec))]) =
      [SseEvent ''log'' (enc rec), SseEvent ''log'' (enc rec)]"
proof -
  have b2: "bus_ok b2" "bus_ok b1"
    using assms(1,3,4) by (metis bus_ok_subscribe fst_conv)+
  have ts: "tee_topics ''domain'' = [''telemetry.logs'', ''telemetry.logs.domain'']" by code_simp
  have log: "tee_log (Some l) False lv msg flds now b2 =
      publish_all (bus_publisher iter choice) False (tee_topics ''domain'') (MsgLog rec) b2"
    using assms(5,6) by (simp add: tee_log_def new_tee_logger_def Let_def
        publish_all_wrap[where g = MsgLog and pub = "bus_publisher iter choice"])
  have sub: "i \<in> subscribed b2 ''telemetry.logs''" "j \<in> subscribed b2 ''telemetry.logs.domain''"
    and q: "bus_queue b2 i = []" "bus_queue b2 j = []"
    using assms(3,4) by (auto simp: bus_subscribe_def Let_def subscribed_def topic_subs_def bus_queue_def)
  show ?thesis
    using memory_bus.distinct_topics_queue[of b2 iter "tee_topics ''domain''" choice "MsgLog rec" i]
      memory_bus.distinct_topics_queue[of b2 iter "tee_topics ''domain''" choice "MsgLog rec" j]
      b2 assms(2,7) sub q
    by (auto simp: log distinct_tee_topics bus_topics_def ts)
qed

theorem scoped_stream_doubles_witness:
  "\<exists>b i rec. bus_queue b i = [MsgLog rec] \<and> l_Scope rec = ''domain''"
proof -
  let ?l = "new_tee_logger (Some (\<lambda>ctx t m. bus_publisher rev [] ctx t (MsgLog m))) ''site'' ''domain'' [] []"
  let ?f = "stream_filter [] [] ''domain'' []"
  obtain b1 i where b1: "bus_subscribe ''telemetry.logs'' (new_bus :: bus_msg bus) = (b1, i)" by fastforce
  obtain b2 j where b2: "bus_subscribe ''telemetry.logs.domain'' b1 = (b2, j)" by fastforce
  have m: "match_v2 ?f (tee_record ?l ''INFO'' ''m'' None 1)"
    by (simp add: match_v2_iff stream_filter_def stream_level_def tee_record_def new_tee_logger_def
        tee_level_def go_to_upper_keywords Let_def level_defs)
  show ?thesis
    using scoped_stream_doubles[OF bus_ok_new iter_ok_rev b1 b2 refl refl m]
    by (intro exI conjI) (auto simp: tee_record_def new_tee_logger_def)
qed

end
