(* ===== verification/Forwarder.thy ===== *)
theory Forwarder
  imports Gateway Admin Backoff "HOL-Library.Sublist"
begin

text \<open>
  The log forwarder (\<open>kernels/infra/log-forwarder/forwarder_gen.go\<close>): it merges its subscriptions into
  one bounded channel and runs connect, open stream, send, sleep as a state machine, one step per
  synchronisation point. The network (whether a dial, an open or a send succeeds) and the bus (which
  messages arrive) are choices of the steps. The conversion to protobuf is not in the repository;
  what is sent is recorded as the record itself.
\<close>

section \<open>The forwarder and its options\<close>

record forwarder =
  fw_addr :: string
  fw_bus :: bool       \<comment> \<open>the bus is set\<close>
  fw_logger :: bool    \<comment> \<open>the logger is set\<close>
  fw_topics :: "string list"
  fw_backoff :: backoff_policy

datatype fw_option = WithTopics "string list" | WithBackoff backoff_policy

fun apply_fw_option :: "forwarder \<Rightarrow> fw_option \<Rightarrow> forwarder" where
  "apply_fw_option f (WithTopics t) = (if length t > 0 then f\<lparr>fw_topics := t\<rparr> else f)"
| "apply_fw_option f (WithBackoff b) = f\<lparr>fw_backoff := b\<rparr>"

text \<open>The jitter \<open>0.2\<close> is the double nearest to one fifth.\<close>

definition fw_default_backoff :: backoff_policy where
  "fw_default_backoff = \<lparr>b_Min = 200 * millisecond, b_Max = 10 * second, b_Factor = Fin 2,
     b_Jitter = Fin (3602879701896397 / 2 ^ 54)\<rparr>"

definition new_forwarder :: "string \<Rightarrow> bool \<Rightarrow> bool \<Rightarrow> fw_option list \<Rightarrow> forwarder" where
  "new_forwarder addr bus logger opts = foldl apply_fw_option
     \<lparr>fw_addr = addr, fw_bus = bus, fw_logger = logger,
      fw_topics = [topic_logs_all, topic_logs_domain, topic_logs_function],
      fw_backoff = fw_default_backoff\<rparr> opts"

section \<open>The run as a state machine\<close>

text \<open>A received message may be a nil interface value.\<close>

type_synonym fw_msg = "bus_msg option"

text \<open>One turn of a merging goroutine: a message that does not fit is dropped.\<close>

definition fw_merge :: "fw_msg \<Rightarrow> fw_msg chan \<Rightarrow> fw_msg chan" where
  "fw_merge m c = (case chan_try_send m c of Sent c' \<Rightarrow> c' | _ \<Rightarrow> c)"

text \<open>What the sending goroutine does with a message: skip it, or send a record.\<close>

definition fw_select :: "fw_msg \<Rightarrow> log_record_v2 option" where
  "fw_select m = (case m of
       None \<Rightarrow> None
     | Some (MsgLog rec) \<Rightarrow>
         if l_Scope rec = ''root'' \<or> l_KernelID rec = ''rk'' then None else Some rec
     | Some _ \<Rightarrow> None)"

datatype fw_phase =
    Dialing                          \<comment> \<open>the head of the loop, in the dial\<close>
  | Opening                          \<comment> \<open>connected, opening the stream\<close>
  | Streaming                        \<comment> \<open>the sending goroutine runs\<close>
  | SendFailed go_error              \<comment> \<open>it has reported an error\<close>
  | Backoff duration                 \<comment> \<open>waiting to reconnect\<close>
  | Returned "go_error option"

text \<open>
  The local variables of \<open>Run\<close>, with three histories: the messages the subscriptions delivered, the
  records sent without error, and the durations slept.
\<close>

record fw_run =
  fr_phase :: fw_phase
  fr_attempt :: int
  fr_in :: "fw_msg chan"
  fr_arrived :: "fw_msg list"
  fr_sent :: "log_record_v2 list"
  fr_sleeps :: "duration list"

definition fw_duration :: "(f64 \<Rightarrow> int) \<Rightarrow> backoff_policy \<Rightarrow> int \<Rightarrow> gotime \<Rightarrow> duration" where
  "fw_duration oor b attempt nano = pr_duration oor b attempt nano"

definition fw_start :: "forwarder \<Rightarrow> go_error + fw_run" where
  "fw_start f =
     (if \<not> fw_bus f \<or> fw_addr f = [] then Inl ''forwarder: bus or addr missing''
      else Inr \<lparr>fr_phase = Dialing, fr_attempt = 0, fr_in = make_chan 256, fr_arrived = [],
                fr_sent = [], fr_sleeps = []\<rparr>)"

definition fw_sleep :: "duration \<Rightarrow> fw_run \<Rightarrow> fw_run" where
  "fw_sleep d s = s\<lparr>fr_phase := Backoff d, fr_sleeps := fr_sleeps s @ [d]\<rparr>"

inductive fw_step :: "(f64 \<Rightarrow> int) \<Rightarrow> forwarder \<Rightarrow> fw_run \<Rightarrow> fw_run \<Rightarrow> bool" for oor f where
  arrive: "fw_step oor f s (s\<lparr>fr_in := fw_merge m (fr_in s), fr_arrived := fr_arrived s @ [m]\<rparr>)"
| dial_failed: "fr_phase s = Dialing \<Longrightarrow>
    fw_step oor f s (fw_sleep (fw_duration oor (fw_backoff f) (fr_attempt s + 1) nano)
      (s\<lparr>fr_attempt := fr_attempt s + 1\<rparr>))"
| dialed: "fr_phase s = Dialing \<Longrightarrow>
    fw_step oor f s (s\<lparr>fr_attempt := 0, fr_phase := Opening\<rparr>)"
| open_failed: "fr_phase s = Opening \<Longrightarrow>
    fw_step oor f s (fw_sleep (fw_duration oor (fw_backoff f) 1 nano) s)"
| opened: "fr_phase s = Opening \<Longrightarrow> fw_step oor f s (s\<lparr>fr_phase := Streaming\<rparr>)"
| skip: "fr_phase s = Streaming \<Longrightarrow> chan_try_recv (fr_in s) = Received m c \<Longrightarrow>
    fw_select m = None \<Longrightarrow> fw_step oor f s (s\<lparr>fr_in := c\<rparr>)"
| sent: "fr_phase s = Streaming \<Longrightarrow> chan_try_recv (fr_in s) = Received m c \<Longrightarrow>
    fw_select m = Some rec \<Longrightarrow> fw_step oor f s (s\<lparr>fr_in := c, fr_sent := fr_sent s @ [rec]\<rparr>)"
| send_failed: "fr_phase s = Streaming \<Longrightarrow> chan_try_recv (fr_in s) = Received m c \<Longrightarrow>
    fw_select m = Some rec \<Longrightarrow> fw_step oor f s (s\<lparr>fr_in := c, fr_phase := SendFailed err\<rparr>)"
| reconnect: "fr_phase s = SendFailed err \<Longrightarrow>
    fw_step oor f s (fw_sleep (fw_duration oor (fw_backoff f) (fr_attempt s + 1) nano)
      (s\<lparr>fr_attempt := fr_attempt s + 1\<rparr>))"
| woken: "fr_phase s = Backoff d \<Longrightarrow> fw_step oor f s (s\<lparr>fr_phase := Dialing\<rparr>)"
| cancelled: "fr_phase s = Streaming \<or> (\<exists>e. fr_phase s = SendFailed e) \<or> (\<exists>d. fr_phase s = Backoff d) \<Longrightarrow>
    fw_step oor f s (s\<lparr>fr_phase := Returned (Some ''context canceled'')\<rparr>)"
| closed: "fr_phase s = Streaming \<Longrightarrow> fw_step oor f s (s\<lparr>fr_phase := Returned None\<rparr>)"

inductive_cases fw_stepE: "fw_step oor f s t"

inductive fw_reachable :: "(f64 \<Rightarrow> int) \<Rightarrow> forwarder \<Rightarrow> fw_run \<Rightarrow> bool" for oor f where
  start: "fw_start f = Inr s \<Longrightarrow> fw_reachable oor f s"
| step: "fw_reachable oor f s \<Longrightarrow> fw_step oor f s t \<Longrightarrow> fw_reachable oor f t"

section \<open>What is sent\<close>

definition selected :: "fw_msg list \<Rightarrow> log_record_v2 list" where
  "selected ms = List.map_filter fw_select ms"

lemma selected_simps [simp]:
  "selected [] = []"
  "selected (m # ms) = (case fw_select m of None \<Rightarrow> selected ms | Some r \<Rightarrow> r # selected ms)"
  "selected (xs @ ys) = selected xs @ selected ys"
proof -
  show "selected (m # ms) = (case fw_select m of None \<Rightarrow> selected ms | Some r \<Rightarrow> r # selected ms)" for m ms
    by (simp add: selected_def map_filter_simps split: option.splits)
  then show "selected (xs @ ys) = selected xs @ selected ys"
    by (induction xs) (simp_all add: selected_def map_filter_simps split: option.splits)
qed (simp add: selected_def map_filter_simps)

definition fw_ok :: "fw_run \<Rightarrow> bool" where
  "fw_ok s \<longleftrightarrow> subseq (fr_sent s @ selected (c_buf (fr_in s))) (selected (fr_arrived s)) \<and>
     chan_ok (fr_in s) \<and> c_cap (fr_in s) = 256 \<and> \<not> c_closed (fr_in s) \<and>
     0 \<le> fr_attempt s \<and> (fr_phase s \<notin> {Dialing} \<union> range Backoff \<union> range Returned \<longrightarrow> fr_attempt s = 0)"

lemma subseq_member: "subseq xs ys \<Longrightarrow> x \<in> set xs \<Longrightarrow> x \<in> set ys"
  by (induction rule: list_emb.induct) auto

lemma subseq_snoc: "subseq xs ys \<Longrightarrow> subseq (xs @ zs) (ys @ zs)"
  by (rule list_emb_append_mono) simp_all

lemma fw_ok_merge:
  assumes "fw_ok s"
  shows "fw_ok (s\<lparr>fr_in := fw_merge m (fr_in s), fr_arrived := fr_arrived s @ [m]\<rparr>)"
proof (cases "length (c_buf (fr_in s)) < 256")
  case True
  then show ?thesis
    using assms subseq_snoc[of "fr_sent s @ selected (c_buf (fr_in s))" "selected (fr_arrived s)" "selected [m]"]
    by (auto simp: fw_ok_def fw_merge_def chan_try_send_def chan_ok_def)
next
  case False
  have "subseq (fr_sent s @ selected (c_buf (fr_in s))) (selected (fr_arrived s) @ selected [m])"
    using assms list_emb_append_mono[of "(=)" _ _ "[]" "selected [m]"]
    unfolding fw_ok_def by (metis append_Nil2 list_emb_Nil)
  then show ?thesis
    using False assms by (auto simp: fw_ok_def fw_merge_def chan_try_send_def)
qed

lemma subseq_drop_mid: "subseq (xs @ y # zs) ws \<Longrightarrow> subseq (xs @ zs) ws"
  by (meson list_emb_Cons list_emb_append_mono subseq_order.order_refl subseq_order.trans)

lemma fw_ok_step: "fw_step oor f s t \<Longrightarrow> fw_ok s \<Longrightarrow> fw_ok t"
proof (induction rule: fw_step.induct)
  case (arrive s m)
  then show ?case by (rule fw_ok_merge)
next
  case (skip s m c)
  then show ?case by (auto simp: fw_ok_def chan_recv_Received chan_ok_def)
next
  case (sent s m c rec)
  then show ?case by (auto simp: fw_ok_def chan_recv_Received chan_ok_def)
next
  case (send_failed s m c rec err)
  then show ?case
    by (auto simp: fw_ok_def chan_recv_Received chan_ok_def intro: subseq_drop_mid)
qed (auto simp: fw_ok_def fw_sleep_def)

lemma fw_ok_reachable: "fw_reachable oor f s \<Longrightarrow> fw_ok s"
proof (induction rule: fw_reachable.induct)
  case (start s)
  then show ?case by (auto simp: fw_start_def fw_ok_def split: if_splits)
qed (rule fw_ok_step)

lemma fw_select_Some: "fw_select m = Some rec \<longleftrightarrow>
    m = Some (MsgLog rec) \<and> l_Scope rec \<noteq> ''root'' \<and> l_KernelID rec \<noteq> ''rk''"
  by (auto simp: fw_select_def split: option.splits bus_msg.splits)

lemma selected_member: "rec \<in> set (selected ms) \<Longrightarrow>
    Some (MsgLog rec) \<in> set ms \<and> l_Scope rec \<noteq> ''root'' \<and> l_KernelID rec \<noteq> ''rk''"
  by (induction ms) (auto simp: fw_select_Some split: option.splits)

section \<open>How long it sleeps\<close>

definition fw_window :: "backoff_policy \<Rightarrow> duration set" where
  "fw_window b = {b_Min (with_defaults b) .. b_Max (with_defaults b)}"

lemma fw_sleeps_window:
  assumes "f64_gt_const (b_Jitter (with_defaults (fw_backoff f))) 0"
    and "b_Min (with_defaults (fw_backoff f)) \<le> b_Max (with_defaults (fw_backoff f))"
  shows "fw_reachable oor f s \<Longrightarrow> set (fr_sleeps s) \<subseteq> fw_window (fw_backoff f)"
proof (induction rule: fw_reachable.induct)
  case (start s)
  then show ?case by (auto simp: fw_start_def split: if_splits)
next
  case (step s t)
  have d: "fw_duration oor (fw_backoff f) n nano \<in> fw_window (fw_backoff f)" for n nano
    unfolding fw_duration_def fw_window_def by (rule pr_backoff.dur_window[OF assms])
  from step.hyps(2) step.IH show ?case
    by (cases rule: fw_step.cases) (simp_all add: fw_sleep_def d)
qed

lemma fw_default_window:
  "f64_gt_const (b_Jitter (with_defaults fw_default_backoff)) 0"
  "with_defaults fw_default_backoff = fw_default_backoff"
  by (simp_all add: fw_default_backoff_def with_defaults_def millisecond_def second_def Let_def)

lemma fw_topics_options:
  "fw_backoff (foldl apply_fw_option f opts) = fw_backoff f" if "\<forall>o1 \<in> set opts. \<exists>t. o1 = WithTopics t"
  using that by (induction opts arbitrary: f) auto

section \<open>Properties of the forwarder\<close>

text \<open>
  C23: At most once and in order: at every moment the records sent are a subsequence of the forwardable
  records that arrived, with nothing sent twice and nothing reordered, no record of the root
  scope or of the root kernel among them; at most 256 messages wait, and what waits can still
  be sent after what was sent.
\<close>
theorem forwarder_at_most_once:
  assumes "fw_reachable oor f s"
  shows "subseq (fr_sent s @ selected (c_buf (fr_in s))) (selected (fr_arrived s)) \<and>
    (\<forall>rec \<in> set (fr_sent s). Some (MsgLog rec) \<in> set (fr_arrived s) \<and>
       l_Scope rec \<noteq> ''root'' \<and> l_KernelID rec \<noteq> ''rk'') \<and>
    length (c_buf (fr_in s)) \<le> 256"
proof (intro conjI ballI)
  note ok = fw_ok_reachable[OF assms]
  show sub: "subseq (fr_sent s @ selected (c_buf (fr_in s))) (selected (fr_arrived s))"
    using ok by (simp add: fw_ok_def)
  show "length (c_buf (fr_in s)) \<le> 256" using ok by (simp add: fw_ok_def chan_ok_def)
  fix rec
  assume "rec \<in> set (fr_sent s)"
  then have "rec \<in> set (selected (fr_arrived s))"
    by (intro subseq_member[OF sub]) simp
  from selected_member[OF this]
  show "Some (MsgLog rec) \<in> set (fr_arrived s)" "l_Scope rec \<noteq> ''root''" "l_KernelID rec \<noteq> ''rk''"
    by simp_all
qed

text \<open>
  With its default backoff the forwarder always waits between 200 milliseconds and 10 seconds before
  it reconnects, however many dials have failed and whatever the clock and the target's
  conversion of overlong floats do; topics given as options do not change that.
\<close>
theorem forwarder_sleeps:
  assumes "fw_reachable oor (new_forwarder addr bus lg (map WithTopics ts)) s"
  shows "set (fr_sleeps s) \<subseteq> {200 * millisecond .. 10 * second}"
proof -
  have b: "fw_backoff (new_forwarder addr bus lg (map WithTopics ts)) = fw_default_backoff"
    unfolding new_forwarder_def by (subst fw_topics_options) auto
  have "set (fr_sleeps s) \<subseteq> fw_window fw_default_backoff"
    using fw_sleeps_window[of "new_forwarder addr bus lg (map WithTopics ts)" oor s] assms
    unfolding b fw_default_window(2) using fw_default_window(1)[unfolded fw_default_window(2)]
    by (simp add: fw_default_backoff_def millisecond_def second_def)
  then show ?thesis by (simp add: fw_window_def fw_default_window(2)) (simp add: fw_default_backoff_def)
qed

definition sample_record :: log_record_v2 where
  "sample_record = zero_record\<lparr>l_Scope := ''domain'', l_KernelID := ''site''\<rparr>"

definition sample_forwarder :: forwarder where
  "sample_forwarder = new_forwarder ''127.0.0.1:8079'' True True (map WithTopics [])"

lemma sample_forwarder_run:
  "\<exists>s. fw_reachable oor_amd64 sample_forwarder s \<and> fr_sent s = [sample_record] \<and>
     fr_sleeps s \<noteq> []"
proof -
  let ?m = "Some (MsgLog sample_record)" and ?f = sample_forwarder
  obtain s0 where s0: "fw_start ?f = Inr s0" "fr_phase s0 = Dialing" "fr_in s0 = make_chan 256"
      "fr_sent s0 = []"
    by (simp add: sample_forwarder_def new_forwarder_def fw_start_def)
  let ?s1 = "s0\<lparr>fr_in := fw_merge ?m (fr_in s0), fr_arrived := fr_arrived s0 @ [?m]\<rparr>"
  let ?s2 = "?s1\<lparr>fr_attempt := 0, fr_phase := Opening\<rparr>"
  let ?s3 = "?s2\<lparr>fr_phase := Streaming\<rparr>"
  let ?s4 = "?s3\<lparr>fr_in := make_chan 256, fr_sent := fr_sent ?s3 @ [sample_record]\<rparr>"
  let ?s5 = "?s4\<lparr>fr_phase := Dialing\<rparr>"
  have r1: "fw_reachable oor_amd64 ?f ?s1"
    by (rule fw_reachable.step[OF fw_reachable.start[OF s0(1)] arrive])
  have r2: "fw_reachable oor_amd64 ?f ?s2"
    by (rule fw_reachable.step[OF r1 dialed]) (simp add: s0)
  have "fw_step oor_amd64 ?f ?s2 (fw_sleep (fw_duration oor_amd64 (fw_backoff ?f) 1 0) ?s2)"
    by (rule open_failed) simp
  then have r3: "fw_reachable oor_amd64 ?f (fw_sleep (fw_duration oor_amd64 (fw_backoff ?f) 1 0) ?s2)"
    (is "fw_reachable _ _ ?t3") by (rule fw_reachable.step[OF r2])
  have r4: "fw_reachable oor_amd64 ?f (?t3\<lparr>fr_phase := Dialing\<rparr>)" (is "fw_reachable _ _ ?t4")
    by (rule fw_reachable.step[OF r3 woken]) (simp add: fw_sleep_def)
  have r5: "fw_reachable oor_amd64 ?f (?t4\<lparr>fr_attempt := 0, fr_phase := Opening\<rparr>)" (is "fw_reachable _ _ ?t5")
    by (rule fw_reachable.step[OF r4 dialed]) simp
  have r6: "fw_reachable oor_amd64 ?f (?t5\<lparr>fr_phase := Streaming\<rparr>)" (is "fw_reachable _ _ ?t6")
    by (rule fw_reachable.step[OF r5 opened]) simp
  have "fw_step oor_amd64 ?f ?t6 (?t6\<lparr>fr_in := make_chan 256, fr_sent := fr_sent ?t6 @ [sample_record]\<rparr>)"
    by (rule fw_step.sent[of _ ?m])
      (simp_all add: s0 fw_sleep_def fw_merge_def chan_try_send_def chan_recv_Received make_chan_def
        fw_select_Some sample_record_def)
  from fw_reachable.step[OF r6 this] show ?thesis
    by (intro exI conjI, assumption) (simp_all add: s0 fw_sleep_def)
qed

theorem forwarder_at_most_once_witness:
  "\<exists>s. fw_reachable oor_amd64 sample_forwarder s \<and> fr_sent s = [sample_record] \<and>
     Some (MsgLog sample_record) \<in> set (fr_arrived s)"
proof -
  obtain s where "fw_reachable oor_amd64 sample_forwarder s" "fr_sent s = [sample_record]"
    using sample_forwarder_run by blast
  then show ?thesis using forwarder_at_most_once[of oor_amd64 sample_forwarder s] by auto
qed

theorem forwarder_sleeps_witness:
  "\<exists>s. fw_reachable oor_amd64 sample_forwarder s \<and> fr_sleeps s \<noteq> [] \<and>
     set (fr_sleeps s) \<subseteq> {200 * millisecond .. 10 * second}"
  using sample_forwarder_run forwarder_sleeps[of oor_amd64 "''127.0.0.1:8079''" True True "[]"]
  unfolding sample_forwarder_def by blast

section \<open>A forwarder on the bus of its own gateway\<close>

text \<open>
  What one subscription hands to the forwarder when it is drained: its queue, each record as a
  message.
\<close>

definition drained :: "log_record_v2 bus \<Rightarrow> nat \<Rightarrow> fw_msg list" where
  "drained b i = map (\<lambda>rec. Some (MsgLog rec)) (bus_queue b i)"

definition forwardable :: "log_record_v2 \<Rightarrow> bool" where
  "forwardable rec \<longleftrightarrow> l_Scope rec \<noteq> ''root'' \<and> l_KernelID rec \<noteq> ''rk''"

lemma selected_drained: "selected (drained b i) = filter forwardable (bus_queue b i)"
proof -
  have "selected (map (\<lambda>rec. Some (MsgLog rec)) rs) = filter forwardable rs" for rs
    by (induction rs) (auto simp: fw_select_def forwardable_def)
  then show ?thesis by (simp add: drained_def)
qed

text \<open>
  In one process with the root kernel the forwarder feeds itself: its subscriptions on the common and
  on the domain topic listen to the bus its gateway publishes on, so a stream of records of
  domain scope (none from the root kernel, none kept out by the filter) comes back twice, each
  record once per topic. The filter against loops stops none of them: every record pushed is
  replaced by two that will be pushed again, as long as the queues have room.
\<close>
theorem forwarder_feeds_itself:
  assumes "bus_ok b" and "iter_ok iter"
    and "i \<in> subscribed b topic_logs_all" and "j \<in> subscribed b topic_logs_domain"
    and "bus_queue b i = []" and "bus_queue b j = []"
    and "list_all is_record ts" and "list_all (\<lambda>t. \<not> rt_cancelled t) ts" and "length ts \<le> 16"
    and "\<forall>t \<in> set ts. l_Scope (turn_record t) = ''domain'' \<and> l_KernelID (turn_record t) \<noteq> ''rk''"
  shows "let b' = ps_world (fst (push_logs (Some \<lparr>lh_bus = Some (bus_publisher iter choice)\<rparr>) interval ts
        (push_start now b)))
    in selected (drained b' i) = map turn_record ts \<and> selected (drained b' j) = map turn_record ts"
proof -
  let ?hub = "Some \<lparr>lh_bus = Some (bus_publisher iter choice)\<rparr>"
  have world: "ps_world (fst (push_logs ?hub interval ts (push_start now b))) = publish_turns ?hub ts b"
    using push_logs_records[OF assms(7), of ?hub interval "[]" "push_start now b"]
    by (auto simp: push_start_def)
  have tp: "bus_topics b i = {topic_logs_all}" "bus_topics b j = {topic_logs_domain}"
    using assms(3,4) memory_bus.one_topic[of b iter] assms(1,2) by (auto simp: bus_topics_def)
  have once: "hits (log_hub_topics (turn_record t)) (bus_topics b k) = 1"
    if "k \<in> {i, j}" and "t \<in> set ts" for k t
  proof -
    have sc: "l_Scope (turn_record t) = ''domain''" using that(2) assms(10) by blast
    from that(1) show ?thesis by (elim insertE emptyE) (simp_all add: log_hub_topics_def topic_defs sc tp)
  qed
  have q: "bus_queue (publish_turns ?hub ts b) k = map turn_record ts" if k: "k \<in> {i, j}" for k
  proof -
    have h: "map (\<lambda>t. hits (log_hub_topics (turn_record t)) (bus_topics b k)) ts = map (\<lambda>_. 1) ts"
      and c: "map (\<lambda>t. replicate (hits (log_hub_topics (turn_record t)) (bus_topics b k)) (turn_record t)) ts =
        map (\<lambda>t. [turn_record t]) ts"
      using once[OF k] by (auto intro!: map_cong)
    show ?thesis
      using hub_queue_turns[OF assms(1,2,8), of k choice] assms(5,6,9) k
      unfolding h c by (auto simp: sum_list_triv)
  qed
  have "filter forwardable (map turn_record ts) = map turn_record ts"
    using assms(10) by (auto simp: filter_id_conv forwardable_def)
  then show ?thesis using q world by (simp add: selected_drained)
qed

definition sample_fw_bus :: "log_record_v2 bus" where
  "sample_fw_bus = fst (bus_subscribe topic_logs_domain (fst (bus_subscribe topic_logs_all new_bus)))"

lemma sample_fw_bus_ok: "bus_ok sample_fw_bus"
  by (simp add: sample_fw_bus_def inv_intros)

lemma sample_fw_bus_subscribed:
  "subscribed sample_fw_bus topic_logs_all = {0}" "subscribed sample_fw_bus topic_logs_domain = {1}"
  "bus_queue sample_fw_bus i = []"
  by (auto simp: sample_fw_bus_def bus_queue_def subscribed_def topic_subs_def bus_subscribe_def
      new_bus_def topic_defs go_put_def go_get_def go_keys_def)

definition sample_domain_turn :: recv_turn where
  "sample_domain_turn = sample_turn 1 (RecvRecord \<lparr>pr_Record = Some
     \<lparr>p_TimeUnixNano = 0, p_Level = ''INFO'', p_KernelId = ''site'', p_Scope = ''domain'',
      p_Component = [], p_Trace = [], p_Message = ''m'', p_Fields = []\<rparr>\<rparr>)"

lemma sample_domain_turn_simps:
  "is_record sample_domain_turn" "\<not> rt_cancelled sample_domain_turn"
  "l_Scope (turn_record sample_domain_turn) = ''domain''"
  "l_KernelID (turn_record sample_domain_turn) = ''site''"
  by (simp_all add: sample_domain_turn_def sample_turn_def is_record_def turn_record_def from_proto_def)

theorem forwarder_feeds_itself_witness:
  "let b' = ps_world (fst (push_logs (Some \<lparr>lh_bus = Some (bus_publisher rev [])\<rparr>) second
        [sample_domain_turn] (push_start 0 sample_fw_bus)))
    in selected (drained b' 0) @ selected (drained b' 1) = replicate 2 (turn_record sample_domain_turn)"
  using forwarder_feeds_itself[OF sample_fw_bus_ok iter_ok_rev, of 0 1 "[sample_domain_turn]" "[]" second 0]
  by (simp add: sample_fw_bus_subscribed sample_domain_turn_simps Let_def numeral_2_eq_2)

end
