(* ===== verification/Json.thy ===== *)
theory Json
  imports Prelude "HOL-Library.List_Lexorder" "HOL-Library.Char_ord"
begin

text \<open>
  The text format of \<open>encoding/json\<close>, which carries the log records from the admin server to \<open>rkctl\<close>
  and the manifests to people: the printer with its escapes (compact and indented), the parser,
  and UTF-8, because the printer replaces what is not valid UTF-8. Numbers stay numerals: how
  a numeral becomes a floating point value is a matter of the user of the parser.
\<close>

section \<open>UTF-8\<close>

definition byte_of :: "char \<Rightarrow> nat" where "byte_of c = of_char c"

definition code_in :: "nat \<Rightarrow> nat \<Rightarrow> char \<Rightarrow> bool" where
  "code_in lo hi c \<longleftrightarrow> lo \<le> byte_of c \<and> byte_of c \<le> hi"

abbreviation continues :: "char \<Rightarrow> bool" where
  "continues \<equiv> code_in 128 191"

text \<open>What the bytes after a first byte have to be; nothing when a character can not start with it.\<close>

definition utf8_tail :: "char \<Rightarrow> (char \<Rightarrow> bool) list option" where
  "utf8_tail a =
     (if byte_of a < 128 then Some []
      else if code_in 194 223 a then Some [continues]
      else if code_in 224 239 a
      then Some [code_in (if byte_of a = 224 then 160 else 128) (if byte_of a = 237 then 159 else 191), continues]
      else if code_in 240 244 a
      then Some [code_in (if byte_of a = 240 then 144 else 128) (if byte_of a = 244 then 143 else 191),
        continues, continues]
      else None)"

text \<open>
  The length of the first character, 0 when the string does not start with a well-formed one
  (\<open>utf8.DecodeRuneInString\<close>).
\<close>

fun utf8_len :: "string \<Rightarrow> nat" where
  "utf8_len [] = 0"
| "utf8_len (a # r) = (case utf8_tail a of
       None \<Rightarrow> 0
     | Some ps \<Rightarrow>
         if length ps \<le> length r \<and> list_all (\<lambda>(p, c). p c) (zip ps r) then Suc (length ps) else 0)"

lemma utf8_len_le: "utf8_len s \<le> length s"
  by (cases s) (auto split: option.splits)

lemma utf8_tail_Nil: "utf8_tail a = Some [] \<longleftrightarrow> byte_of a < 128"
  by (simp add: utf8_tail_def)

lemma utf8_tail_bytes: "utf8_tail a = Some ps \<Longrightarrow> p \<in> set ps \<Longrightarrow> p c \<Longrightarrow> 128 \<le> byte_of c"
  by (auto simp: utf8_tail_def code_in_def split: if_splits)

lemma utf8_len_one: "utf8_len (a # r) = Suc 0 \<longleftrightarrow> byte_of a < 128"
  using utf8_tail_Nil[of a] by (auto split: option.splits)

lemma zip_take_append: "length ps \<le> length r \<Longrightarrow> zip ps (take (length ps) r @ t) = zip ps r"
proof (induction ps arbitrary: r)
  case (Cons p ps)
  then show ?case by (cases r) auto
qed simp

lemma utf8_len_prefix:
  assumes "0 < utf8_len s"
  shows "utf8_len (take (utf8_len s) s @ t) = utf8_len s"
proof (cases s)
  case (Cons a r)
  then obtain ps where ps: "utf8_tail a = Some ps" "length ps \<le> length r" "list_all (\<lambda>(p, c). p c) (zip ps r)"
    using assms by (auto split: option.splits if_splits)
  then show ?thesis using zip_take_append[OF ps(2), of t] by (simp add: Cons)
qed (use assms in simp)

text \<open>Every byte of a longer character is at least 128.\<close>

lemma utf8_len_bytes:
  assumes "1 < utf8_len s" and "c \<in> set (take (utf8_len s) s)"
  shows "128 \<le> byte_of c"
proof (cases s)
  case (Cons a r)
  then obtain ps where ps: "utf8_tail a = Some ps" "length ps \<le> length r" "list_all (\<lambda>(p, c). p c) (zip ps r)"
      "ps \<noteq> []"
    using assms(1) by (auto split: option.splits if_splits)
  have c: "c = a \<or> c \<in> set (take (length ps) r)" using assms(2) ps by (simp add: Cons)
  show ?thesis
  proof (cases "c = a")
    case True
    then show ?thesis using utf8_tail_Nil[of a] ps(1,4) by auto
  next
    case False
    with c obtain k where k: "k < length ps" "c = r ! k" using ps(2) by (auto simp: in_set_conv_nth)
    then have "(ps ! k, c) \<in> set (zip ps r)" using ps(2) by (auto simp: set_zip)
    then show ?thesis using utf8_tail_bytes[OF ps(1), of "ps ! k" c] ps(3) k(1) by (auto simp: list_all_iff)
  qed
qed (use assms in simp)

text \<open>The bytes of a code point.\<close>

definition utf8_encode :: "nat \<Rightarrow> string" where
  "utf8_encode n = map char_of
     (if n < 128 then [n]
      else if n < 2048 then [192 + n div 64, 128 + n mod 64]
      else if n < 65536 then [224 + n div 4096, 128 + n div 64 mod 64, 128 + n mod 64]
      else [240 + n div 262144, 128 + n div 4096 mod 64, 128 + n div 64 mod 64, 128 + n mod 64])"

definition replacement :: string where "replacement = [CHR 0xEF, CHR 0xBF, CHR 0xBD]"

text \<open>A string with every byte that is not part of a well-formed character replaced.\<close>

function to_valid :: "string \<Rightarrow> string" where
  "to_valid s = (if s = [] then []
     else if utf8_len s = 0 then replacement @ to_valid (tl s)
     else take (utf8_len s) s @ to_valid (drop (utf8_len s) s))"
  by pat_completeness auto

termination to_valid
  by (relation "measure length") auto

declare to_valid.simps [simp del]

lemma to_valid_Nil [simp]: "to_valid [] = []"
  by (simp add: to_valid.simps)

definition ascii :: "string \<Rightarrow> bool" where
  "ascii s \<longleftrightarrow> list_all (\<lambda>c. byte_of c < 128) s"

lemma to_valid_ascii: "ascii s \<Longrightarrow> to_valid s = s"
proof (induction s)
  case (Cons a s)
  then have "utf8_len (a # s) = Suc 0" using utf8_len_one[of a s] by (simp add: ascii_def)
  then show ?case using Cons by (subst to_valid.simps) (simp add: ascii_def)
qed simp

lemma to_valid_char: "0 < utf8_len s \<Longrightarrow> to_valid (take (utf8_len s) s @ t) = take (utf8_len s) s @ to_valid t"
proof -
  assume pos: "0 < utf8_len s"
  let ?u = "take (utf8_len s) s"
  have len: "length ?u = utf8_len s" using utf8_len_le[of s] by simp
  have "?u @ t \<noteq> []" using pos len by auto
  moreover have "take (utf8_len s) (?u @ t) = ?u" "drop (utf8_len s) (?u @ t) = t"
    using append_eq_conv_conj[of ?u t "?u @ t"] unfolding len by simp_all
  ultimately show ?thesis
    using utf8_len_prefix[OF pos, of t] pos by (subst to_valid.simps) simp
qed

lemma utf8_len_replacement: "utf8_len (replacement @ t) = 3"
  by (simp add: replacement_def utf8_tail_def code_in_def byte_of_def)

text \<open>A valid string stays as it is, so making a string valid twice changes nothing more.\<close>

lemma to_valid_idem [simp]: "to_valid (to_valid s) = to_valid s"
proof (induction s rule: to_valid.induct)
  case (1 s)
  show ?case
  proof (cases "s = []")
    case False
    show ?thesis
    proof (cases "utf8_len s = 0")
      case True
      have "take 3 (replacement @ t) = replacement" "drop 3 (replacement @ t) = t" for t
        by (simp_all add: replacement_def)
      then have "to_valid (replacement @ t) = replacement @ to_valid t" for t
        using to_valid_char[of "replacement @ t" t] unfolding utf8_len_replacement by simp
      then show ?thesis using 1(1)[OF False True] True False by (simp add: to_valid.simps[of s])
    next
      case pos: False
      then show ?thesis using 1(2)[OF False pos] to_valid_char[of s] False by (simp add: to_valid.simps[of s])
    qed
  qed simp
qed

section \<open>Strings\<close>

definition backslash :: char where "backslash = CHR 0x5C"
definition dquote :: char where "dquote = CHR 0x22"

definition hex_char :: "nat \<Rightarrow> char" where
  "hex_char n = (if n < 10 then char_of (48 + n) else char_of (87 + n))"

definition u_escape :: "nat \<Rightarrow> string" where
  "u_escape n = [backslash, CHR ''u'', hex_char (n div 4096 mod 16), hex_char (n div 256 mod 16),
     hex_char (n div 16 mod 16), hex_char (n mod 16)]"

text \<open>One byte of ASCII; \<open>json.Marshal\<close> also escapes the three characters that matter to HTML.\<close>

definition escape_byte :: "char \<Rightarrow> string" where
  "escape_byte c =
     (if c = dquote \<or> c = backslash then [backslash, c]
      else if c = CHR 0x08 then [backslash, CHR ''b'']
      else if c = CHR 0x0C then [backslash, CHR ''f'']
      else if c = CHR 0x0A then [backslash, CHR ''n'']
      else if c = CHR 0x0D then [backslash, CHR ''r'']
      else if c = CHR 0x09 then [backslash, CHR ''t'']
      else if byte_of c < 32 \<or> c = CHR ''<'' \<or> c = CHR ''>'' \<or> c = CHR ''&'' then u_escape (byte_of c)
      else [c])"

definition escape_long :: "string \<Rightarrow> string" where
  "escape_long u =
     (if u = [CHR 0xE2, CHR 0x80, CHR 0xA8] then u_escape 8232
      else if u = [CHR 0xE2, CHR 0x80, CHR 0xA9] then u_escape 8233
      else u)"

function json_escape :: "string \<Rightarrow> string" where
  "json_escape s = (if s = [] then []
     else if utf8_len s = 0 then u_escape 65533 @ json_escape (tl s)
     else if utf8_len s = 1 then escape_byte (hd s) @ json_escape (tl s)
     else escape_long (take (utf8_len s) s) @ json_escape (drop (utf8_len s) s))"
  by pat_completeness auto

termination json_escape
  by (relation "measure length") auto

declare json_escape.simps [simp del]

definition print_string :: "string \<Rightarrow> string" where
  "print_string s = dquote # json_escape s @ [dquote]"

definition hex_value :: "char \<Rightarrow> nat option" where
  "hex_value c =
     (if code_in 48 57 c then Some (byte_of c - 48)
      else if code_in 65 70 c then Some (byte_of c - 55)
      else if code_in 97 102 c then Some (byte_of c - 87)
      else None)"

definition hex4 :: "char \<Rightarrow> char \<Rightarrow> char \<Rightarrow> char \<Rightarrow> nat option" where
  "hex4 a b c d = (case (hex_value a, hex_value b, hex_value c, hex_value d) of
       (Some w, Some x, Some y, Some z) \<Rightarrow> Some (4096 * w + 256 * x + 16 * y + z)
     | _ \<Rightarrow> None)"

text \<open>
  What a backslash stands for: the bytes, and what follows. The second half of a surrogate pair has to
  follow the first; a half on its own is replaced.
\<close>

definition low_surrogate :: "string \<Rightarrow> nat option" where
  "low_surrogate s = (case s of
       e # u # a # b # c # d # _ \<Rightarrow>
         if e = backslash \<and> u = CHR ''u''
         then (case hex4 a b c d of
             Some y \<Rightarrow> if 56320 \<le> y \<and> y < 57344 then Some y else None
           | None \<Rightarrow> None)
         else None
     | _ \<Rightarrow> None)"

definition unescape_u :: "nat \<Rightarrow> string \<Rightarrow> string \<times> string" where
  "unescape_u x s =
     (if x < 55296 \<or> 57344 \<le> x then (utf8_encode x, s)
      else if x < 56320
      then (case low_surrogate s of
          Some y \<Rightarrow> (utf8_encode (65536 + (x - 55296) * 1024 + (y - 56320)), drop 6 s)
        | None \<Rightarrow> (replacement, s))
      else (replacement, s))"

definition unescape :: "string \<Rightarrow> (string \<times> string) option" where
  "unescape s = (case s of
       [] \<Rightarrow> None
     | e # t \<Rightarrow>
         if e = dquote \<or> e = backslash \<or> e = CHR ''/'' then Some ([e], t)
         else if e = CHR ''b'' then Some ([CHR 0x08], t)
         else if e = CHR ''f'' then Some ([CHR 0x0C], t)
         else if e = CHR ''n'' then Some ([CHR 0x0A], t)
         else if e = CHR ''r'' then Some ([CHR 0x0D], t)
         else if e = CHR ''t'' then Some ([CHR 0x09], t)
         else if e = CHR ''u''
         then (case t of
             a # b # c # d # r \<Rightarrow> (case hex4 a b c d of Some x \<Rightarrow> Some (unescape_u x r) | None \<Rightarrow> None)
           | _ \<Rightarrow> None)
         else None)"

lemma unescape_shorter: "unescape s = Some (u, t) \<Longrightarrow> length t < length s"
  by (auto simp: unescape_def unescape_u_def split: list.splits if_splits option.splits)

text \<open>The text after an opening quote, up to the closing one.\<close>

function unquote :: "string \<Rightarrow> (string \<times> string) option" where
  "unquote s = (case s of
       [] \<Rightarrow> None
     | c # r \<Rightarrow>
         if c = dquote then Some ([], r)
         else if c = backslash
         then (case unescape r of
             None \<Rightarrow> None
           | Some (u, t) \<Rightarrow> map_option (\<lambda>(v, w). (u @ v, w)) (unquote t))
         else if byte_of c < 32 then None
         else if utf8_len s = 0 then map_option (\<lambda>(v, w). (replacement @ v, w)) (unquote r)
         else map_option (\<lambda>(v, w). (take (utf8_len s) s @ v, w)) (unquote (drop (utf8_len s) s)))"
  by pat_completeness auto

termination unquote
  by (relation "measure length") (auto dest: unescape_shorter)

declare unquote.simps [simp del]

section \<open>Strings read back\<close>

lemma code_char_of: "n < 256 \<Longrightarrow> byte_of (char_of n) = n"
  by (simp add: byte_of_def)

lemma char_of_code [simp]: "char_of (byte_of c) = c"
  by (simp add: byte_of_def)

lemma hex_value_char: "n < 16 \<Longrightarrow> hex_value (hex_char n) = Some n"
  by (auto simp: hex_char_def hex_value_def code_in_def code_char_of)

lemma hex_digits_sum:
  assumes "n < (65536 :: nat)"
  shows "4096 * (n div 4096 mod 16) + 256 * (n div 256 mod 16) + 16 * (n div 16 mod 16) + n mod 16 = n"
proof -
  have "n div 4096 < 16" using assms by (simp add: less_mult_imp_div_less)
  then have "n div 4096 mod 16 = n div 4096" by (rule mod_less)
  moreover have "n div 256 = 16 * (n div 4096) + n div 256 mod 16"
    using div_mult_mod_eq[of "n div 256" 16] by (simp add: div_mult2_eq[symmetric])
  moreover have "n div 16 = 16 * (n div 256) + n div 16 mod 16"
    using div_mult_mod_eq[of "n div 16" 16] by (simp add: div_mult2_eq[symmetric])
  moreover have "n = 16 * (n div 16) + n mod 16" by simp
  ultimately show ?thesis by linarith
qed

lemma unescape_u_escape:
  assumes "n < 65536"
  shows "unescape (CHR ''u'' # hex_char (n div 4096 mod 16) # hex_char (n div 256 mod 16) #
    hex_char (n div 16 mod 16) # hex_char (n mod 16) # t) = Some (unescape_u n t)"
proof -
  have "hex4 (hex_char (n div 4096 mod 16)) (hex_char (n div 256 mod 16)) (hex_char (n div 16 mod 16))
      (hex_char (n mod 16)) = Some n"
    by (simp only: hex4_def hex_value_char mod_less_divisor zero_less_numeral prod.case option.case
        hex_digits_sum[OF assms])
  then show ?thesis by (simp add: unescape_def dquote_def backslash_def)
qed

abbreviation reads :: "string \<Rightarrow> (string \<times> string) option \<Rightarrow> (string \<times> string) option" where
  "reads u r \<equiv> map_option (\<lambda>(v, w). (u @ v, w)) r"

lemma unquote_backslash:
  "unescape r = Some (u, t) \<Longrightarrow> unquote (backslash # r) = reads u (unquote t)"
  by (subst unquote.simps) (simp add: dquote_def backslash_def)

lemma unquote_u_escape:
  assumes "n < 55296 \<or> (57344 \<le> n \<and> n < 65536)"
  shows "unquote (u_escape n @ t) = reads (utf8_encode n) (unquote t)"
proof -
  have "n < 65536" using assms by auto
  from unescape_u_escape[OF this, of t] show ?thesis
    using assms unquote_backslash unfolding u_escape_def append_Cons append_Nil
    by (auto simp: unescape_u_def)
qed

lemma unquote_ascii:
  assumes "byte_of c < 128" and "32 \<le> byte_of c" and "c \<noteq> dquote" and "c \<noteq> backslash"
  shows "unquote (c # t) = reads [c] (unquote t)"
  using assms utf8_len_one[of c t] by (subst unquote.simps) simp

lemma unquote_escape_byte:
  assumes "byte_of c < 128"
  shows "unquote (escape_byte c @ t) = reads [c] (unquote t)"
proof -
  have enc: "utf8_encode (byte_of c) = [c]" using assms by (simp add: utf8_encode_def)
  consider (quoted) "c = dquote \<or> c = backslash" | (bs) "c = CHR 0x08" | (ff) "c = CHR 0x0C"
    | (nl) "c = CHR 0x0A" | (cr) "c = CHR 0x0D" | (tab) "c = CHR 0x09"
    | (hex) "escape_byte c = u_escape (byte_of c)"
    | (no_controls) "escape_byte c = [c]" "32 \<le> byte_of c" "c \<noteq> dquote" "c \<noteq> backslash"
  proof -
    have "escape_byte c = u_escape (byte_of c) \<or> escape_byte c = [c] \<and> 32 \<le> byte_of c"
      if "c \<noteq> dquote" "c \<noteq> backslash" "c \<noteq> CHR 0x08" "c \<noteq> CHR 0x0C" "c \<noteq> CHR 0x0A" "c \<noteq> CHR 0x0D" "c \<noteq> CHR 0x09"
      using that by (simp add: escape_byte_def not_less)
    then show thesis using that by blast
  qed
  then show ?thesis
  proof cases
    case quoted
    then show ?thesis
      using unquote_backslash[of "c # t" "[c]" t] by (auto simp: escape_byte_def unescape_def)
  next
    case bs
    then show ?thesis
      using unquote_backslash[of "CHR ''b'' # t" "[c]" t]
      by (simp add: escape_byte_def unescape_def dquote_def backslash_def)
  next
    case ff
    then show ?thesis
      using unquote_backslash[of "CHR ''f'' # t" "[c]" t]
      by (simp add: escape_byte_def unescape_def dquote_def backslash_def)
  next
    case nl
    then show ?thesis
      using unquote_backslash[of "CHR ''n'' # t" "[c]" t]
      by (simp add: escape_byte_def unescape_def dquote_def backslash_def)
  next
    case cr
    then show ?thesis
      using unquote_backslash[of "CHR ''r'' # t" "[c]" t]
      by (simp add: escape_byte_def unescape_def dquote_def backslash_def)
  next
    case tab
    then show ?thesis
      using unquote_backslash[of "CHR ''t'' # t" "[c]" t]
      by (simp add: escape_byte_def unescape_def dquote_def backslash_def)
  next
    case hex
    then show ?thesis using unquote_u_escape[of "byte_of c" t] assms enc by simp
  next
    case no_controls
    then show ?thesis using unquote_ascii[OF assms] by simp
  qed
qed

lemma utf8_encode_special:
  "utf8_encode 65533 = replacement" "utf8_encode 8232 = [CHR 0xE2, CHR 0x80, CHR 0xA8]"
  "utf8_encode 8233 = [CHR 0xE2, CHR 0x80, CHR 0xA9]"
  by (simp_all add: utf8_encode_def replacement_def char_of_eq_iff)

lemma unquote_long:
  assumes "1 < utf8_len s"
  shows "unquote (take (utf8_len s) s @ t) = reads (take (utf8_len s) s) (unquote t)"
proof -
  let ?u = "take (utf8_len s) s"
  have len: "length ?u = utf8_len s" using utf8_len_le[of s] by simp
  then obtain c r where u: "?u = c # r" using assms by (cases ?u) auto
  have c: "128 \<le> byte_of c" using utf8_len_bytes[OF assms, of c] by (simp add: u)
  have n: "utf8_len (c # r @ t) = utf8_len s" using utf8_len_prefix[of s t] assms by (simp add: u)
  have "c \<noteq> dquote" "c \<noteq> backslash" "\<not> byte_of c < 32"
    using c by (auto simp: dquote_def backslash_def byte_of_def)
  moreover have "take (utf8_len s) (c # r @ t) = c # r" "drop (utf8_len s) (c # r @ t) = t"
    unfolding len[unfolded u, symmetric] by simp_all
  ultimately show ?thesis using n assms unfolding u append_Cons
    by (subst unquote.simps) (simp del: utf8_len.simps)
qed

lemma unquote_escape_long:
  assumes "1 < utf8_len s"
  shows "unquote (escape_long (take (utf8_len s) s) @ t) = reads (take (utf8_len s) s) (unquote t)"
  using unquote_long[OF assms, of t] unquote_u_escape[of 8232 t] unquote_u_escape[of 8233 t]
  by (simp add: escape_long_def utf8_encode_special)

theorem unquote_escape: "unquote (json_escape s @ dquote # rest) = Some (to_valid s, rest)"
proof (induction s rule: json_escape.induct)
  case (1 s)
  show ?case
  proof (cases "s = []")
    case True
    then show ?thesis by (subst unquote.simps) (simp add: json_escape.simps)
  next
    case False
    consider (bad) "utf8_len s = 0" | (one) "utf8_len s = 1" | (long) "1 < utf8_len s" by linarith
    then show ?thesis
    proof cases
      case bad
      then show ?thesis
        using 1(1)[OF False bad] False
        by (subst json_escape.simps, subst to_valid.simps) (simp add: unquote_u_escape utf8_encode_special)
    next
      case one
      then obtain a r where s: "s = a # r" using False by (cases s) auto
      have "byte_of a < 128" using one utf8_len_one[of a r] by (simp add: s)
      then show ?thesis
        using 1(2)[OF False] one False
        by (subst json_escape.simps, subst to_valid.simps) (simp add: unquote_escape_byte s)
    next
      case long
      then show ?thesis
        using 1(3)[OF False] False
        by (subst json_escape.simps, subst to_valid.simps) (simp add: unquote_escape_long)
    qed
  qed
qed

section \<open>Names and keys\<close>

text \<open>
  Names fold as in \<open>encoding/json\<close>: ASCII case is ignored, U+017F counts as s, U+212A as k.
\<close>

fun json_fold :: "string \<Rightarrow> string" where
  "json_fold (a # b # c # s) =
     (if a = CHR 0xC5 \<and> b = CHR 0xBF then CHR ''S'' # json_fold (c # s)
      else if a = CHR 0xE2 \<and> b = CHR 0x84 \<and> c = CHR 0xAA then CHR ''K'' # json_fold s
      else char_upper a # json_fold (b # c # s))"
| "json_fold [a, b] = (if a = CHR 0xC5 \<and> b = CHR 0xBF then ''S'' else [char_upper a, char_upper b])"
| "json_fold [a] = [char_upper a]"
| "json_fold [] = []"

declare json_fold.simps [simp del]

text \<open>\<open>json.Marshal\<close> writes the keys of a map in sorted order.\<close>

definition sorted_entries :: "(string, 'v) gomap \<Rightarrow> (string \<times> 'v) list" where
  "sorted_entries m = sort_key fst m"

end
