(* ===== verification/Config.thy ===== *)
theory Config
  imports Json
begin

text \<open>
  The configuration of the root kernel (\<open>cmd/rk/config_gen.go\<close>) and the reader behind it: the
  workspace replaces \<open>gopkg.in/yaml.v3\<close> by a small line parser of its own
  (\<open>third_party/gopkg.in/yaml.v3/yaml.go\<close>), which turns the file into sections of string pairs,
  marshals them as JSON and lets \<open>encoding/json\<close> fill the configuration. The last step is
  modelled for exactly this type and this shape of document: field names match without regard
  to case, unknown names are skipped, a value of the wrong kind leaves its field alone and is
  reported as an error after the rest has been decoded.
\<close>

section \<open>Types\<close>

record root_section =
  rt_NodeID :: string
  rt_Zone :: string

record discovery_config =
  dc_Enabled :: bool
  dc_AdvertiseInternal :: bool

record telemetry_filters =
  tf_Level :: string
  tf_Kernel :: string
  tf_Scope :: string
  tf_Component :: string

record admin_config =
  ac_Addr :: string
  ac_GRPCAddr :: string

record telemetry_config =
  tc_Level :: string
  tc_Buffer :: int
  tc_Filters :: telemetry_filters

record domain_spec =
  ds_ID :: string
  ds_Mode :: string
  ds_Kind :: string
  ds_Entry :: string
  ds_Command :: string
  ds_FeatureFlags :: "(string, bool) gomap option"
  ds_Config :: any_map

record root_config =
  rc_Root :: root_section
  rc_Admin :: admin_config
  rc_Discovery :: discovery_config
  rc_Telemetry :: telemetry_config
  rc_Domains :: "domain_spec list option"

definition default_config :: root_config where
  "default_config =
     \<lparr>rc_Root = \<lparr>rt_NodeID = ''rk-1'', rt_Zone = ''dc-1''\<rparr>,
      rc_Admin = \<lparr>ac_Addr = '':8090'', ac_GRPCAddr = '':8079''\<rparr>,
      rc_Discovery = \<lparr>dc_Enabled = True, dc_AdvertiseInternal = True\<rparr>,
      rc_Telemetry = \<lparr>tc_Level = ''INFO'', tc_Buffer = 256,
        tc_Filters = \<lparr>tf_Level = ''INFO'', tf_Kernel = [], tf_Scope = [], tf_Component = []\<rparr>\<rparr>,
      rc_Domains = Some [\<lparr>ds_ID = ''site'', ds_Mode = ''inproc'', ds_Kind = ''site'', ds_Entry = [],
        ds_Command = [],
        ds_FeatureFlags = Some [(''http'', True), (''workers'', True), (''log_forwarder'', True)],
        ds_Config = Some [(''http_addr'', AnyString '':8081''),
          (''log_gateway'', AnyString ''127.0.0.1:8079'')]\<rparr>]\<rparr>"

definition validate :: "root_config \<Rightarrow> go_error option" where
  "validate c =
     (if ac_Addr (rc_Admin c) = [] then Some ''admin.addr is required''
      else if ac_GRPCAddr (rc_Admin c) = [] then Some ''admin.grpc_addr is required''
      else None)"

section \<open>The line parser\<close>

type_synonym sections = "(string, (string, string) gomap) gomap"

text \<open>\<open>strings.SplitN(s, ":", 2)\<close> when it has two parts, and \<open>strings.Trim(s, "\"")\<close>.\<close>

fun split_colon :: "string \<Rightarrow> (string \<times> string) option" where
  "split_colon [] = None"
| "split_colon (c # s) =
     (if c = CHR '':'' then Some ([], s)
      else case split_colon s of None \<Rightarrow> None | Some (a, b) \<Rightarrow> Some (c # a, b))"

definition trim_quotes :: "string \<Rightarrow> string" where
  "trim_quotes s = rev (dropWhile (\<lambda>c. c = CHR 0x22) (rev (dropWhile (\<lambda>c. c = CHR 0x22) s)))"

definition put_value :: "string \<Rightarrow> string \<Rightarrow> string \<Rightarrow> sections \<Rightarrow> sections" where
  "put_value sec k v m =
     go_put sec (go_put k v (case go_get m sec of None \<Rightarrow> [] | Some kv \<Rightarrow> kv)) m"

text \<open>One turn of the loop over the lines, on the result and the current section.\<close>

definition yaml_line :: "sections \<times> string \<Rightarrow> string \<Rightarrow> sections \<times> string" where
  "yaml_line mc line = (case mc of (m, current) \<Rightarrow>
     (let t = trim_space line
      in if t = [] \<or> has_prefix t ''#'' then (m, current)
         else if \<not> has_prefix line '' ''
         then if last t = CHR '':''
              then (let c = butlast t
                    in (case go_get m c of None \<Rightarrow> go_put c [] m | Some _ \<Rightarrow> m, c))
              else (case split_colon t of
                      Some (a, b) \<Rightarrow> (put_value [] (trim_space a) (trim_quotes (trim_space b)) m, current)
                    | None \<Rightarrow> (m, current))
         else if current = [] then (m, current)
         else (case split_colon (trim_space t) of
                 Some (a, b) \<Rightarrow> (put_value current (trim_space a) (trim_quotes (trim_space b)) m, current)
               | None \<Rightarrow> (m, current))))"

definition yaml_sections :: "string \<Rightarrow> sections" where
  "yaml_sections data = fst (foldl yaml_line ([], []) (split_on (CHR 0x0A) data))"

section \<open>Filling the configuration\<close>

text \<open>The first error is kept; an error names the field.\<close>

definition first_error :: "go_error option \<Rightarrow> go_error \<Rightarrow> go_error option" where
  "first_error e new = (case e of None \<Rightarrow> Some new | Some old \<Rightarrow> Some old)"

definition fill_root :: "root_section \<times> go_error option \<Rightarrow> string \<times> string \<Rightarrow> root_section \<times> go_error option" where
  "fill_root se kv = (case (se, kv) of ((s, e), (k, v)) \<Rightarrow>
     if json_fold k = ''NODEID'' then (s\<lparr>rt_NodeID := v\<rparr>, e)
     else if json_fold k = ''ZONE'' then (s\<lparr>rt_Zone := v\<rparr>, e)
     else (s, e))"

definition fill_admin :: "admin_config \<times> go_error option \<Rightarrow> string \<times> string \<Rightarrow> admin_config \<times> go_error option" where
  "fill_admin se kv = (case (se, kv) of ((s, e), (k, v)) \<Rightarrow>
     if json_fold k = ''ADDR'' then (s\<lparr>ac_Addr := v\<rparr>, e)
     else if json_fold k = ''GRPCADDR'' then (s\<lparr>ac_GRPCAddr := v\<rparr>, e)
     else (s, e))"

definition fill_discovery ::
  "discovery_config \<times> go_error option \<Rightarrow> string \<times> string \<Rightarrow> discovery_config \<times> go_error option" where
  "fill_discovery se kv = (case (se, kv) of ((s, e), (k, v)) \<Rightarrow>
     if json_fold k = ''ENABLED'' then (s, first_error e ''string into bool Enabled'')
     else if json_fold k = ''ADVERTISEINTERNAL'' then (s, first_error e ''string into bool AdvertiseInternal'')
     else (s, e))"

definition fill_telemetry ::
  "telemetry_config \<times> go_error option \<Rightarrow> string \<times> string \<Rightarrow> telemetry_config \<times> go_error option" where
  "fill_telemetry se kv = (case (se, kv) of ((s, e), (k, v)) \<Rightarrow>
     if json_fold k = ''LEVEL'' then (s\<lparr>tc_Level := v\<rparr>, e)
     else if json_fold k = ''BUFFER'' then (s, first_error e ''string into int Buffer'')
     else if json_fold k = ''FILTERS'' then (s, first_error e ''string into TelemetryFilters Filters'')
     else (s, e))"

definition fill_section ::
  "root_config \<times> go_error option \<Rightarrow> string \<times> (string, string) gomap \<Rightarrow> root_config \<times> go_error option" where
  "fill_section ce sec = (case (ce, sec) of ((c, e), (k, kvs)) \<Rightarrow>
     if json_fold k = ''ROOT''
     then (let (s, e') = foldl fill_root (rc_Root c, e) (sorted_entries kvs) in (c\<lparr>rc_Root := s\<rparr>, e'))
     else if json_fold k = ''ADMIN''
     then (let (s, e') = foldl fill_admin (rc_Admin c, e) (sorted_entries kvs) in (c\<lparr>rc_Admin := s\<rparr>, e'))
     else if json_fold k = ''DISCOVERY''
     then (let (s, e') = foldl fill_discovery (rc_Discovery c, e) (sorted_entries kvs)
           in (c\<lparr>rc_Discovery := s\<rparr>, e'))
     else if json_fold k = ''TELEMETRY''
     then (let (s, e') = foldl fill_telemetry (rc_Telemetry c, e) (sorted_entries kvs)
           in (c\<lparr>rc_Telemetry := s\<rparr>, e'))
     else if json_fold k = ''DOMAINS'' then (c, first_error e ''object into slice Domains'')
     else (c, e))"

definition yaml_unmarshal :: "string \<Rightarrow> root_config \<Rightarrow> root_config \<times> go_error option" where
  "yaml_unmarshal data c = foldl fill_section (c, None) (sorted_entries (yaml_sections data))"

text \<open>\<open>readFile\<close> is \<open>os.ReadFile\<close>.\<close>

definition load_config :: "(string \<Rightarrow> go_error + string) \<Rightarrow> string \<Rightarrow> root_config \<times> go_error option" where
  "load_config readFile path =
     (if path = [] then (default_config, None)
      else case readFile path of
          Inl err \<Rightarrow> (default_config, Some err)
        | Inr data \<Rightarrow> yaml_unmarshal data default_config)"

section \<open>What the decoder can reach\<close>

lemma foldl_pair_inv:
  assumes "\<And>s e kv. P s \<Longrightarrow> P (fst (f (s, e) kv))" and "P s"
  shows "P (fst (foldl f (s, e) kvs))"
  using assms(2)
proof (induction kvs arbitrary: s e)
  case (Cons kv kvs)
  obtain s' e' where "f (s, e) kv = (s', e')" by fastforce
  then show ?case using Cons assms(1)[of s e kv] by simp
qed simp

definition fixed_part :: "root_config \<Rightarrow> bool" where
  "fixed_part c \<longleftrightarrow> rc_Domains c = rc_Domains default_config \<and>
     rc_Discovery c = rc_Discovery default_config \<and>
     tc_Buffer (rc_Telemetry c) = 256 \<and> tc_Filters (rc_Telemetry c) = tc_Filters (rc_Telemetry default_config)"

lemma fixed_part_section: "fixed_part c \<Longrightarrow> fixed_part (fst (fill_section (c, e) sec))"
proof -
  assume c: "fixed_part c"
  obtain k kvs where sec: "sec = (k, kvs)" by fastforce
  have d: "fst (foldl fill_discovery (s, e) kvs') = s" for s e kvs'
    by (rule foldl_pair_inv[where P = "\<lambda>t. t = s"]) (auto simp: fill_discovery_def split: prod.splits)
  have t: "tc_Buffer (fst (foldl fill_telemetry (s, e) kvs')) = tc_Buffer s \<and>
      tc_Filters (fst (foldl fill_telemetry (s, e) kvs')) = tc_Filters s" for s e kvs'
    by (rule foldl_pair_inv[where P = "\<lambda>t. tc_Buffer t = tc_Buffer s \<and> tc_Filters t = tc_Filters s"])
      (auto simp: fill_telemetry_def split: prod.splits)
  show ?thesis
    using c d[of "rc_Discovery c" e "sorted_entries kvs"] t[of "rc_Telemetry c" e "sorted_entries kvs"]
    by (auto simp: sec fill_section_def fixed_part_def Let_def split: prod.splits)
qed

lemma fixed_part_default: "fixed_part default_config"
  by (simp add: fixed_part_def default_config_def)

lemma fixed_part_unmarshal: "fixed_part c \<Longrightarrow> fixed_part (fst (yaml_unmarshal data c))"
  unfolding yaml_unmarshal_def by (rule foldl_pair_inv) (auto intro: fixed_part_section)

text \<open>A section name, once read, stays.\<close>

lemma yaml_line_keys: "go_keys (fst mc) \<subseteq> go_keys (fst (yaml_line mc line))"
  by (cases mc) (simp add: yaml_line_def Let_def put_value_def subset_insertI
      split: if_split option.split prod.split)

lemma yaml_lines_keys: "go_keys (fst mc) \<subseteq> go_keys (fst (foldl yaml_line mc lines))"
proof (induction lines arbitrary: mc)
  case (Cons line lines)
  show ?case
    using subset_trans[OF yaml_line_keys Cons.IH[of "yaml_line mc line"]] by simp
qed simp

lemma yaml_line_section:
  assumes "trim_space line = t" and "t \<noteq> []" and "\<not> has_prefix t ''#''"
    and "\<not> has_prefix line '' ''" and "last t = CHR '':''" and "butlast t = c"
  shows "c \<in> go_keys (fst (yaml_line mc line))"
  using assms by (cases mc) (auto simp: yaml_line_def Let_def go_keys_get split: option.splits)

lemma yaml_line_domains: "''domains'' \<in> go_keys (fst (yaml_line mc ''domains:''))"
  by (rule yaml_line_section[where t = "''domains:''"]; code_simp)

lemma yaml_sections_domains:
  assumes "''domains:'' \<in> set (split_on (CHR 0x0A) data)"
  shows "''domains'' \<in> go_keys (yaml_sections data)"
proof -
  obtain before after where l: "split_on (CHR 0x0A) data = before @ ''domains:'' # after"
    using assms by (meson split_list)
  show ?thesis
    using yaml_line_domains[of "foldl yaml_line ([], []) before"]
      yaml_lines_keys[of "yaml_line (foldl yaml_line ([], []) before) ''domains:''" after]
    by (auto simp: yaml_sections_def l)
qed

lemma first_error_some: "first_error e new \<noteq> None"
  by (simp add: first_error_def split: option.splits)

lemma first_error_ex [simp]: "\<exists>y. first_error e new = Some y"
  using first_error_some by blast

lemma fill_keeps_error:
  assumes "\<And>s e kv. e \<noteq> None \<Longrightarrow> snd (f (s, e) kv) \<noteq> None" and "e \<noteq> None"
  shows "snd (foldl f (s, e) kvs) \<noteq> None"
  using assms(2)
proof (induction kvs arbitrary: s e)
  case (Cons kv kvs)
  obtain s' e' where "f (s, e) kv = (s', e')" by fastforce
  then show ?case using Cons assms(1)[of e s kv] by simp
qed simp

lemma fill_section_error: "e \<noteq> None \<Longrightarrow> snd (fill_section (c, e) sec) \<noteq> None"
proof -
  assume e: "e \<noteq> None"
  obtain k kvs where sec: "sec = (k, kvs)" by fastforce
  note keep = fill_keeps_error[OF _ e]
  have "snd (foldl fill_root (rc_Root c, e) l) \<noteq> None" "snd (foldl fill_admin (rc_Admin c, e) l) \<noteq> None"
    "snd (foldl fill_discovery (rc_Discovery c, e) l) \<noteq> None"
    "snd (foldl fill_telemetry (rc_Telemetry c, e) l) \<noteq> None" for l
    by (rule keep; auto simp: fill_root_def fill_admin_def fill_discovery_def fill_telemetry_def
        split: prod.splits)+
  then show ?thesis
    using e by (auto simp: sec fill_section_def Let_def split: prod.splits) (metis snd_conv)+
qed

lemma fold_domains: "json_fold ''domains'' = ''DOMAINS''"
  by code_simp

lemma unmarshal_domains:
  assumes "''domains'' \<in> go_keys (yaml_sections data)"
  shows "snd (yaml_unmarshal data c) \<noteq> None"
proof -
  obtain kvs where "(''domains'', kvs) \<in> set (sorted_entries (yaml_sections data))"
    using assms by (auto simp: go_keys_def sorted_entries_def)
  then obtain before after where l:
    "sorted_entries (yaml_sections data) = before @ (''domains'', kvs) # after"
    by (meson split_list)
  obtain c' e' where s: "foldl fill_section (c, None) before = (c', e')" by fastforce
  have "fill_section (c', e') (''domains'', kvs) = (c', first_error e' ''object into slice Domains'')"
    by (simp add: fill_section_def fold_domains)
  then show ?thesis
    using fill_keeps_error[of fill_section, OF fill_section_error first_error_some]
    by (simp add: yaml_unmarshal_def l s)
qed

lemma load_config_fixed_part: "fixed_part (fst (load_config readFile path))"
  by (auto simp: load_config_def fixed_part_default fixed_part_unmarshal split: sum.splits)

section \<open>Properties of the configuration\<close>

text \<open>
  No configuration file can change the list of domains: whatever the file holds, readable or not,
  the domains, the discovery switches, the telemetry buffer and the telemetry filters are the
  built-in ones; and the built-in configuration is valid.
\<close>
theorem load_config_fixed:
  "rc_Domains (fst (load_config readFile path)) = rc_Domains default_config \<and>
   rc_Discovery (fst (load_config readFile path)) = rc_Discovery default_config \<and>
   tc_Buffer (rc_Telemetry (fst (load_config readFile path))) = 256 \<and>
   tc_Filters (rc_Telemetry (fst (load_config readFile path))) = tc_Filters (rc_Telemetry default_config) \<and>
   validate default_config = None"
  using load_config_fixed_part[of readFile path]
  by (simp add: fixed_part_def) (simp add: validate_def default_config_def)

text \<open>
  A file with a domains section is refused: when one of its lines is the section head that every
  documented configuration has, loading returns an error, because the line parser hands the
  decoder an object where the configuration has a list.
\<close>
theorem domains_section_refused:
  assumes "path \<noteq> []" and "readFile path = Inr data"
    and "''domains:'' \<in> set (split_on (CHR 0x0A) data)"
  shows "snd (load_config readFile path) \<noteq> None"
  using assms unmarshal_domains[OF yaml_sections_domains[OF assms(3)]] by (simp add: load_config_def)

definition sample_file :: string where
  "sample_file = ''domains:'' @ [CHR 0x0A] @ ''  - id: site'' @ [CHR 0x0A]"

theorem domains_section_refused_witness:
  "snd (load_config (\<lambda>_. Inr sample_file) ''rk.yaml'') \<noteq> None"
  using domains_section_refused[of "''rk.yaml''" "\<lambda>_. Inr sample_file" sample_file]
    split_on_append[of "CHR 0x0A" "''domains:''" "''  - id: site'' @ [CHR 0x0A]"]
  by (simp add: sample_file_def)

text \<open>
  The documented names with an underscore are not read: a file that sets addr and grpc_addr in the
  admin section and node_id in the root section loads without an error, changes the HTTP address,
  and leaves the gRPC address and the node id at their defaults.
\<close>
theorem underscore_keys_ignored:
  "let file = ''root:'' @ [CHR 0x0A] @ ''  node_id: n9'' @ [CHR 0x0A] @ ''admin:'' @ [CHR 0x0A] @
       ''  addr: '' @ [CHR 0x22] @ '':1'' @ [CHR 0x22, CHR 0x0A] @ ''  grpc_addr: :2'' @ [CHR 0x0A];
     (c, e) = load_config (\<lambda>_. Inr file) ''rk.yaml''
   in e = None \<and> ac_Addr (rc_Admin c) = '':1'' \<and> ac_GRPCAddr (rc_Admin c) = '':8079'' \<and>
      rt_NodeID (rc_Root c) = ''rk-1''"
  by code_simp

end
