(* ===== verification/Lifecycle.thy ===== *)
theory Lifecycle
  imports Contracts
begin

text \<open>
  The kernel host, the kernel module interface and the lifecycle automaton of
  \<open>platform/runtime\<close> (\<open>host_gen.go\<close>, \<open>fsm_gen.go\<close>). A module is a record of its hooks, each a
  function of the kernel's own state; what the hooks do is the kernel's business and stays a
  parameter. The automaton's transition callback is modelled by the list of its calls.
\<close>

section \<open>The host\<close>

text \<open>The ports a host carries are opaque to it; each may be nil. The logger never is.\<close>

datatype 'l host_logger = NoopLogger | HostLogger 'l

record ('l, 'r, 'b, 's) host =
  ho_id :: string
  ho_scope :: scope
  ho_logger :: "'l host_logger"
  ho_rpc :: "'r option"
  ho_bus :: "'b option"
  ho_stream :: "'s option"
  ho_cfg :: "(string, any) gomap"

datatype ('l, 'r, 'b, 's) host_option =
    WithLogger "'l option"
  | WithRPC "'r option"
  | WithEventBus "'b option"
  | WithStream "'s option"
  | WithConfig any_map

definition copy_config :: "(string, any) gomap \<Rightarrow> (string, any) gomap \<Rightarrow> (string, any) gomap" where
  "copy_config cfg into = foldl (\<lambda>m (k, v). go_put k v m) into cfg"

fun apply_host_option ::
  "('l, 'r, 'b, 's) host \<Rightarrow> ('l, 'r, 'b, 's) host_option \<Rightarrow> ('l, 'r, 'b, 's) host" where
  "apply_host_option h (WithLogger l) =
     (case l of None \<Rightarrow> h | Some x \<Rightarrow> h\<lparr>ho_logger := HostLogger x\<rparr>)"
| "apply_host_option h (WithRPC r) = h\<lparr>ho_rpc := r\<rparr>"
| "apply_host_option h (WithEventBus b) = h\<lparr>ho_bus := b\<rparr>"
| "apply_host_option h (WithStream s) = h\<lparr>ho_stream := s\<rparr>"
| "apply_host_option h (WithConfig c) =
     (case c of None \<Rightarrow> h | Some es \<Rightarrow> h\<lparr>ho_cfg := copy_config es (ho_cfg h)\<rparr>)"

definition new_host ::
  "string \<Rightarrow> scope \<Rightarrow> ('l, 'r, 'b, 's) host_option list \<Rightarrow> ('l, 'r, 'b, 's) host" where
  "new_host i sc opts = foldl apply_host_option
     \<lparr>ho_id = i, ho_scope = sc, ho_logger = NoopLogger, ho_rpc = None, ho_bus = None,
      ho_stream = None, ho_cfg = []\<rparr> opts"

lemma copy_config_get:
  "go_map cfg \<Longrightarrow> go_get (copy_config cfg into) k =
     (case go_get cfg k of Some v \<Rightarrow> Some v | None \<Rightarrow> go_get into k)"
proof (induction cfg arbitrary: into)
  case Nil
  then show ?case by (simp add: copy_config_def)
next
  case (Cons e cfg)
  obtain a v where e: "e = (a, v)" by fastforce
  have "go_map cfg" "go_get cfg a = None"
    using Cons.prems by (auto simp: e go_map_def go_get_def map_of_eq_None_iff)
  then show ?case
    using Cons.IH[of "go_put a v into"]
    by (auto simp: copy_config_def e split: option.splits)
qed

section \<open>Modules and the automaton\<close>

type_synonym 'k hook = "'k \<Rightarrow> 'k \<times> go_error option"

record ('h, 'k) kernel_module =
  km_Manifest :: "'k \<Rightarrow> manifest"
  km_OnLoad :: "ctx_done \<Rightarrow> 'h \<Rightarrow> 'k hook"
  km_OnInit :: "ctx_done \<Rightarrow> 'k hook"
  km_OnConfigure :: "ctx_done \<Rightarrow> any_map \<Rightarrow> 'k hook"
  km_OnStart :: "ctx_done \<Rightarrow> 'k hook"
  km_OnReady :: "ctx_done \<Rightarrow> 'k hook"
  km_OnDrain :: "ctx_done \<Rightarrow> 'k hook"
  km_OnStop :: "ctx_done \<Rightarrow> 'k hook"
  km_Health :: "gotime \<Rightarrow> 'k \<Rightarrow> health"

text \<open>\<open>KernelModuleBase\<close>: every hook is a no-op, health is stopped since now.\<close>

definition ok_hook :: "'k hook" where
  "ok_hook k = (k, None)"

definition kernel_module_base :: "('h, 'k) kernel_module" where
  "kernel_module_base =
     \<lparr>km_Manifest = (\<lambda>_. zero_manifest),
      km_OnLoad = (\<lambda>_ _. ok_hook), km_OnInit = (\<lambda>_. ok_hook),
      km_OnConfigure = (\<lambda>_ _. ok_hook), km_OnStart = (\<lambda>_. ok_hook),
      km_OnReady = (\<lambda>_. ok_hook), km_OnDrain = (\<lambda>_. ok_hook), km_OnStop = (\<lambda>_. ok_hook),
      km_Health = (\<lambda>now _. \<lparr>h_Status = HealthStopped, h_Reason = [], h_Since = now\<rparr>)\<rparr>"

type_synonym transition = "lifecycle_state \<times> lifecycle_state \<times> go_error option"

record 'k fsm =
  fsm_state :: lifecycle_state
  fsm_kernel :: 'k
  fsm_calls :: "transition list" \<comment> \<open>calls of the transition callback, oldest first\<close>

definition new_fsm :: "'k \<Rightarrow> 'k fsm" where
  "new_fsm k = \<lparr>fsm_state = StateLoad, fsm_kernel = k, fsm_calls = []\<rparr>"

definition fsm_set :: "lifecycle_state \<Rightarrow> go_error option \<Rightarrow> 'k fsm \<Rightarrow> 'k fsm" where
  "fsm_set to err f = f\<lparr>fsm_state := to, fsm_calls := fsm_calls f @ [(fsm_state f, to, err)]\<rparr>"

definition fsm_hook :: "'k hook \<Rightarrow> 'k fsm \<Rightarrow> 'k fsm \<times> go_error option" where
  "fsm_hook hk f = (case hk (fsm_kernel f) of (k, e) \<Rightarrow> (f\<lparr>fsm_kernel := k\<rparr>, e))"

definition fsm_run ::
  "('h, 'k) kernel_module \<Rightarrow> 'h \<Rightarrow> ctx_done \<Rightarrow> any_map \<Rightarrow> 'k fsm \<Rightarrow> 'k fsm \<times> go_error option" where
  "fsm_run m h ctx cfg f0 =
     (case fsm_hook (km_OnLoad m ctx h) f0 of
        (f, Some err) \<Rightarrow> (fsm_set StateFailed (Some err) f, Some err)
      | (f, None) \<Rightarrow>
     (case fsm_hook (km_OnInit m ctx) (fsm_set StateInit None f) of
        (f, Some err) \<Rightarrow> (fsm_set StateFailed (Some err) f, Some err)
      | (f, None) \<Rightarrow>
     (case fsm_hook (km_OnConfigure m ctx cfg) (fsm_set StateConfigure None f) of
        (f, Some err) \<Rightarrow> (fsm_set StateFailed (Some err) f, Some err)
      | (f, None) \<Rightarrow>
     (case fsm_hook (km_OnStart m ctx) (fsm_set StateStart None f) of
        (f, Some err) \<Rightarrow> (fsm_set StateFailed (Some err) f, Some err)
      | (f, None) \<Rightarrow> (fst (fsm_hook (km_OnReady m ctx) (fsm_set StateReady None f)), None)))))"

definition fsm_drain ::
  "('h, 'k) kernel_module \<Rightarrow> ctx_done \<Rightarrow> 'k fsm \<Rightarrow> 'k fsm \<times> go_error option" where
  "fsm_drain m ctx f0 =
     (case fsm_hook (km_OnDrain m ctx) (fsm_set StateDraining None f0) of
        (f, Some err) \<Rightarrow> (fsm_set StateFailed (Some err) f, Some err)
      | (f, None) \<Rightarrow> (f, None))"

definition fsm_stop ::
  "('h, 'k) kernel_module \<Rightarrow> ctx_done \<Rightarrow> 'k fsm \<Rightarrow> 'k fsm \<times> go_error option" where
  "fsm_stop m ctx f0 =
     (case fsm_hook (km_OnStop m ctx) f0 of
        (f, Some err) \<Rightarrow> (fsm_set StateFailed (Some err) f, Some err)
      | (f, None) \<Rightarrow> (fsm_set StateStopped None f, None))"

lemma fsm_set_simps [simp]:
  "fsm_state (fsm_set t e f) = t" "fsm_kernel (fsm_set t e f) = fsm_kernel f"
  "fsm_calls (fsm_set t e f) = fsm_calls f @ [(fsm_state f, t, e)]"
  by (simp_all add: fsm_set_def)

lemma fsm_hook_eq:
  "fsm_hook hk f = (f\<lparr>fsm_kernel := fst (hk (fsm_kernel f))\<rparr>, snd (hk (fsm_kernel f)))"
  by (simp add: fsm_hook_def split: prod.splits)

section \<open>The abstract start-up\<close>

text \<open>
  What \<open>Run\<close> promises: run the stage hooks in order until the first error, announcing a stage
  after each success. \<open>staged\<close> counts the successes and keeps the kernel as the last executed
  hook left it; hooks after the first error are not run.
\<close>

fun staged :: "'k hook list \<Rightarrow> 'k \<Rightarrow> nat \<times> 'k \<times> go_error option" where
  "staged [] k = (0, k, None)"
| "staged (hk # hks) k =
     (case hk k of
        (k', Some err) \<Rightarrow> (0, k', Some err)
      | (k', None) \<Rightarrow> (case staged hks k' of (n, r) \<Rightarrow> (Suc n, r)))"

definition run_stages :: "lifecycle_state list" where
  "run_stages = [StateInit, StateConfigure, StateStart, StateReady]"

definition run_hooks :: "('h, 'k) kernel_module \<Rightarrow> 'h \<Rightarrow> ctx_done \<Rightarrow> any_map \<Rightarrow> 'k hook list" where
  "run_hooks m h ctx cfg = [km_OnLoad m ctx h, km_OnInit m ctx, km_OnConfigure m ctx cfg, km_OnStart m ctx]"

text \<open>The callback calls of a walk through the states \<open>ts\<close>, without and with a final error.\<close>

fun walk :: "lifecycle_state \<Rightarrow> lifecycle_state list \<Rightarrow> transition list" where
  "walk s [] = []"
| "walk s (t # ts) = (s, t, None) # walk t ts"

definition run_outcome :: "('h, 'k) kernel_module \<Rightarrow> ctx_done \<Rightarrow> nat \<times> 'k \<times> go_error option \<Rightarrow>
    'k fsm \<Rightarrow> 'k fsm \<times> go_error option" where
  "run_outcome m ctx r f = (case r of
       (n, k, None) \<Rightarrow>
         (\<lparr>fsm_state = StateReady, fsm_kernel = fst (km_OnReady m ctx k),
           fsm_calls = fsm_calls f @ walk (fsm_state f) run_stages\<rparr>, None)
     | (n, k, Some err) \<Rightarrow>
         (\<lparr>fsm_state = StateFailed, fsm_kernel = k,
           fsm_calls = fsm_calls f @ walk (fsm_state f) (take n run_stages)
             @ [(last (fsm_state f # take n run_stages), StateFailed, Some err)]\<rparr>, Some err))"

lemma fsm_run_staged:
  "fsm_run m h ctx cfg f = run_outcome m ctx (staged (run_hooks m h ctx cfg) (fsm_kernel f)) f"
  by (cases f) (simp add: fsm_run_def run_outcome_def run_hooks_def run_stages_def fsm_hook_def
      fsm_set_def split: prod.split option.split)

section \<open>Modules that do not fail\<close>

text \<open>The contract a kernel offers its manager: no start-up hook and no stop hook fails.\<close>

locale reliable_module =
  fixes m :: "('h, 'k) kernel_module"
  assumes load_ok: "snd (km_OnLoad m ctx h k) = None"
    and init_ok: "snd (km_OnInit m ctx k) = None"
    and configure_ok: "snd (km_OnConfigure m ctx cfg k) = None"
    and start_ok: "snd (km_OnStart m ctx k) = None"
    and drain_ok: "snd (km_OnDrain m ctx k) = None"
    and stop_ok: "snd (km_OnStop m ctx k) = None"
begin

lemma run_ready:
  "snd (fsm_run m h ctx cfg f) = None \<and> fsm_state (fst (fsm_run m h ctx cfg f)) = StateReady"
  using load_ok init_ok configure_ok start_ok
  by (simp add: fsm_run_def fsm_hook_eq split: prod.splits option.splits)

lemma stop_stopped:
  "fsm_state (fst (fsm_stop m ctx (fst (fsm_drain m ctx' f)))) = StateStopped"
  using drain_ok stop_ok by (simp add: fsm_stop_def fsm_drain_def fsm_hook_eq)

end

interpretation base_module: reliable_module kernel_module_base
  by unfold_locales (simp_all add: kernel_module_base_def ok_hook_def)

section \<open>Sequences of operations\<close>

datatype fsm_op = OpRun any_map | OpDrain | OpStop

fun fsm_exec :: "('h, 'k) kernel_module \<Rightarrow> 'h \<Rightarrow> ctx_done \<Rightarrow> 'k fsm \<Rightarrow> fsm_op \<Rightarrow> 'k fsm" where
  "fsm_exec m h ctx f (OpRun cfg) = fst (fsm_run m h ctx cfg f)"
| "fsm_exec m h ctx f OpDrain = fst (fsm_drain m ctx f)"
| "fsm_exec m h ctx f OpStop = fst (fsm_stop m ctx f)"

text \<open>The callback sees a connected path from load to the current state, never to degraded or load.\<close>

fun connected :: "lifecycle_state \<Rightarrow> transition list \<Rightarrow> lifecycle_state \<Rightarrow> bool" where
  "connected s [] t \<longleftrightarrow> s = t"
| "connected s ((a, b, e) # cs) t \<longleftrightarrow> a = s \<and> b \<notin> {StateDegraded, StateLoad} \<and>
     (e \<noteq> None \<longleftrightarrow> b = StateFailed) \<and> connected b cs t"

definition fsm_ok :: "'k fsm \<Rightarrow> bool" where
  "fsm_ok f \<longleftrightarrow> connected StateLoad (fsm_calls f) (fsm_state f)"

lemma connected_snoc:
  "connected s (cs @ [(a, b, e)]) t \<longleftrightarrow> connected s cs a \<and> b = t \<and>
     b \<notin> {StateDegraded, StateLoad} \<and> (e \<noteq> None \<longleftrightarrow> b = StateFailed)"
  by (induction s cs a rule: connected.induct) auto

lemma fsm_ok_set [inv_intros]:
  "fsm_ok f \<Longrightarrow> t \<notin> {StateDegraded, StateLoad} \<Longrightarrow> (e \<noteq> None \<longleftrightarrow> t = StateFailed) \<Longrightarrow>
     fsm_ok (fsm_set t e f)"
  by (simp add: fsm_ok_def connected_snoc)

lemma fsm_ok_kernel [simp]: "fsm_ok (f\<lparr>fsm_kernel := k\<rparr>) = fsm_ok f"
  by (simp add: fsm_ok_def)

lemma fsm_ok_exec: "fsm_ok f \<Longrightarrow> fsm_ok (fsm_exec m h ctx f op)"
  by (cases op) (auto simp: fsm_run_def fsm_drain_def fsm_stop_def fsm_hook_eq inv_intros
      split: prod.splits option.splits)

lemma fsm_ok_execs: "fsm_ok f \<Longrightarrow> fsm_ok (foldl (fsm_exec m h ctx) f ops)"
  by (induction ops arbitrary: f) (auto simp: fsm_ok_exec)

section \<open>Properties of the lifecycle\<close>

text \<open>
  C27: Run refines the abstract start-up for every module: the hooks Load, Init, Configure, Start run
  in order and stop at the first error; each success announces the next stage; on an error the
  automaton ends in failed with that error reported and returned; otherwise it ends in ready,
  and only then OnReady runs, its error ignored.
\<close>
theorem fsm_run_refines:
  "fsm_run m h ctx cfg f = run_outcome m ctx (staged (run_hooks m h ctx cfg) (fsm_kernel f)) f"
  by (rule fsm_run_staged)

text \<open>
  Whatever sequence of Run, Drain and Stop is applied to a new automaton and whatever the hooks
  answer, the callback sees a connected path of transitions from load to the current state; an
  error accompanies exactly the transitions to failed; degraded is never entered.
\<close>
theorem fsm_path:
  "connected StateLoad (fsm_calls (foldl (fsm_exec m h ctx) (new_fsm k) ops))
     (fsm_state (foldl (fsm_exec m h ctx) (new_fsm k) ops))"
  using fsm_ok_execs[of "new_fsm k" m h ctx ops] by (simp add: fsm_ok_def new_fsm_def)

text \<open>
  Shutting down: Stop decides the final state whatever Drain returned. It is stopped when OnStop
  succeeds and failed otherwise, and both hooks are run in any case.
\<close>
theorem fsm_shutdown:
  "let f1 = fst (fsm_drain m ctx f); k1 = fst (km_OnDrain m ctx (fsm_kernel f));
       (k2, e) = km_OnStop m ctx k1; f2 = fst (fsm_stop m ctx f1)
   in fsm_kernel f2 = k2 \<and> fsm_state f2 = (if e = None then StateStopped else StateFailed) \<and>
      StateDraining \<in> (fst \<circ> snd) ` set (fsm_calls f1)"
  by (auto simp: fsm_drain_def fsm_stop_def fsm_hook_eq Let_def split: prod.splits option.splits)

text \<open>
  A host never has a nil logger, and a configuration key reads as the last WithConfig that set
  it, other options notwithstanding.
\<close>
theorem host_config_last:
  assumes "go_map es"
  shows "go_get (ho_cfg (new_host i sc (opts @ [WithConfig (Some es)]))) k =
    (case go_get es k of Some v \<Rightarrow> Some v | None \<Rightarrow> go_get (ho_cfg (new_host i sc opts)) k)"
  using assms by (simp add: new_host_def copy_config_get split: option.splits)

theorem host_config_last_witness:
  "go_get (ho_cfg (new_host ''a'' RootScope ([] @ [WithConfig (Some [(''k'', AnyInt 1)])]))) ''k'' =
     Some (AnyInt 1)"
  by (subst host_config_last) (simp_all add: go_map_def go_get_def)

end
