(* ===== verification/Domains.thy ===== *)
theory Domains
  imports Config Lifecycle Log_Ports Registry
begin

text \<open>
  Domain factories, the domain manager and the launch loop of the root kernel
  (\<open>cmd/rk/domain_factory_gen.go\<close>, \<open>domain_launcher_gen.go\<close>, \<open>domain_manager_gen.go\<close>,
  \<open>root_kernel_gen.go\<close>). A kernel object is its module (the hooks) together with its initial
  state; which kernels the factories make is an argument. The clock is read several times per
  launch: \<open>clk id n\<close> is the n-th reading while domain \<open>id\<close> is launched. The context given to a
  domain is cancelled by \<open>stop\<close>, which no hook observes after OnStop.
\<close>

section \<open>Factories\<close>

type_synonym ('w, 'r, 's) domain_host = "('w tee_logger, 'r, (log_record_v2, 'w) publisher, 's) host"

type_synonym ('w, 'r, 's, 'k) domain_factory =
  "string \<Rightarrow> (('w, 'r, 's) domain_host, 'k) kernel_module \<times> 'k"

type_synonym ('w, 'r, 's, 'k) factories = "(string, ('w, 'r, 's, 'k) domain_factory) gomap"

definition register_domain_factory ::
  "string \<Rightarrow> ('w, 'r, 's, 'k) domain_factory option \<Rightarrow> ('w, 'r, 's, 'k) factories
    \<Rightarrow> ('w, 'r, 's, 'k) factories" where
  "register_domain_factory kind f fs =
     (case f of None \<Rightarrow> fs | Some g \<Rightarrow> if kind = [] then fs else go_put kind g fs)"

definition domain_http_addr :: "domain_spec \<Rightarrow> string" where
  "domain_http_addr spec = (case any_string (ds_Config spec) ''http_addr'' of
       Some v \<Rightarrow> if v \<noteq> [] then v else '':8081''
     | None \<Rightarrow> '':8081'')"

definition domain_exports :: "domain_spec \<Rightarrow> kernel_exports" where
  "domain_exports spec =
     \<lparr>x_Network = Some [\<lparr>ne_Name = ''hello'', ne_Protocol = ''http'', ne_Address = domain_http_addr spec,
        ne_Version = ''v1'', ne_Endpoints = Some [''/hello'']\<rparr>],
      x_Events = None, x_Streams = None, x_CLI = None, x_Local = None\<rparr>"

text \<open>The ports that the root kernel hands to every domain.\<close>

record ('w, 'r) domain_env =
  de_bus :: "(log_record_v2, 'w) publisher option"
  de_rpc :: "'r option"

definition domain_host_of :: "('w, 'r) domain_env \<Rightarrow> domain_spec \<Rightarrow> ('w, 'r, 's) domain_host" where
  "domain_host_of env spec = new_host (ds_ID spec) DomainScope
     [WithLogger (Some (new_tee_logger (de_bus env) (ds_ID spec) DomainScope (ds_Kind spec) [])),
      WithEventBus (de_bus env), WithRPC (de_rpc env), WithConfig (ds_Config spec)]"

definition domain_kernel_record ::
  "domain_spec \<Rightarrow> ('h, 'k) kernel_module \<Rightarrow> 'k \<Rightarrow> (nat \<Rightarrow> gotime) \<Rightarrow> kernel_record" where
  "domain_kernel_record spec m k now =
     \<lparr>k_ID = ds_ID spec, k_Scope = DomainScope, k_Manifest = km_Manifest m k, k_Health = km_Health m (now 0) k,
      k_Exports = Some (domain_exports spec), k_RegisteredAt = now 1, k_UpdatedAt = zero_time\<rparr>"

definition launcher_launch :: "domain_spec \<Rightarrow> go_error" where
  "launcher_launch spec = ''launch mode '' @ ds_Mode spec @ '' not implemented''"

text \<open>\<open>LaunchDomainWithFactory\<close>: handled or not, the error, and the registry.\<close>

definition launch_with_factory ::
  "('w, 'r, 's, 'k) factories \<Rightarrow> ('w, 'r) domain_env \<Rightarrow> ctx_done \<Rightarrow> (string \<Rightarrow> nat \<Rightarrow> gotime)
    \<Rightarrow> domain_spec \<Rightarrow> registry \<Rightarrow> bool \<times> go_error option \<times> registry" where
  "launch_with_factory fs env ctx clk spec reg =
     (case go_get fs (ds_Kind spec) of
        None \<Rightarrow> (False, None, reg)
      | Some f \<Rightarrow>
        (case f (ds_ID spec) of (m, k) \<Rightarrow>
         (case fsm_run m (domain_host_of env spec) ctx (ds_Config spec) (new_fsm k) of
            (fsm, Some err) \<Rightarrow> (True, Some (''run FSM: '' @ err), reg)
          | (fsm, None) \<Rightarrow>
              (True, None, register (domain_kernel_record spec m (fsm_kernel fsm) (clk (ds_ID spec)))
                 (clk (ds_ID spec) 2) (clk (ds_ID spec) 3) reg))))"

section \<open>The manager\<close>

record ('h, 'k) domain_run =
  dr_spec :: domain_spec
  dr_fsm :: "'k fsm"
  dr_module :: "('h, 'k) kernel_module"

text \<open>
  The runs and the registry, with two histories that the code does not store: the automata of
  the domains that were stopped, and the errors that were logged, each with its domain's id.
\<close>

record ('h, 'k) manager =
  mg_runs :: "(string, ('h, 'k) domain_run) gomap"
  mg_reg :: registry
  mg_ended :: "(string \<times> 'k fsm) list"
  mg_errors :: "(string \<times> string \<times> go_error) list"

definition new_domain_manager :: "registry \<Rightarrow> ('h, 'k) manager" where
  "new_domain_manager reg = \<lparr>mg_runs = [], mg_reg = reg, mg_ended = [], mg_errors = []\<rparr>"

definition launch_inproc ::
  "('w, 'r, 's, 'k) factories \<Rightarrow> ('w, 'r) domain_env \<Rightarrow> ctx_done \<Rightarrow> (string \<Rightarrow> nat \<Rightarrow> gotime)
    \<Rightarrow> domain_spec \<Rightarrow> (('w, 'r, 's) domain_host, 'k) manager
    \<Rightarrow> go_error option \<times> (('w, 'r, 's) domain_host, 'k) manager" where
  "launch_inproc fs env ctx clk spec s =
     (case go_get fs (ds_Kind spec) of
        None \<Rightarrow> (Some (launcher_launch spec), s)
      | Some f \<Rightarrow>
        (case f (ds_ID spec) of (m, k) \<Rightarrow>
         (case fsm_run m (domain_host_of env spec) ctx (ds_Config spec) (new_fsm k) of
            (fsm, Some err) \<Rightarrow> (Some err, s)
          | (fsm, None) \<Rightarrow>
              (None, s\<lparr>mg_reg := register (domain_kernel_record spec m (fsm_kernel fsm) (clk (ds_ID spec)))
                  (clk (ds_ID spec) 2) (clk (ds_ID spec) 3) (mg_reg s),
                mg_runs := go_put (ds_ID spec) \<lparr>dr_spec = spec, dr_fsm = fsm, dr_module = m\<rparr> (mg_runs s)\<rparr>))))"

definition stop_domain :: "string \<Rightarrow> ('h, 'k) manager \<Rightarrow> ('h, 'k) manager" where
  "stop_domain i s =
     (case go_get (mg_runs s) i of
        None \<Rightarrow> s
      | Some r \<Rightarrow>
        let f1 = fst (fsm_drain (dr_module r) False (dr_fsm r));
            f2 = fst (fsm_stop (dr_module r) False f1)
        in s\<lparr>mg_runs := go_del i (mg_runs s), mg_reg := unregister i (mg_reg s),
             mg_ended := mg_ended s @ [(i, f2)]\<rparr>)"

definition log_error :: "string \<Rightarrow> string \<Rightarrow> go_error option \<Rightarrow> ('h, 'k) manager \<Rightarrow> ('h, 'k) manager" where
  "log_error msg i e s =
     (case e of None \<Rightarrow> s | Some err \<Rightarrow> s\<lparr>mg_errors := mg_errors s @ [(msg, i, err)]\<rparr>)"

definition spec_changed :: "domain_spec \<Rightarrow> domain_spec \<Rightarrow> bool" where
  "spec_changed old new \<longleftrightarrow> ds_Mode old \<noteq> ds_Mode new \<or> ds_Kind old \<noteq> ds_Kind new \<or>
     \<not> deep_equal_map (ds_Config old) (ds_Config new) \<or>
     \<not> deep_equal_map (ds_FeatureFlags old) (ds_FeatureFlags new)"

text \<open>The last specification of an id wins.\<close>

definition index_specs :: "domain_spec list \<Rightarrow> (string, domain_spec) gomap" where
  "index_specs specs = foldl (\<lambda>m s. go_put (ds_ID s) s m) [] specs"

definition reload_remove ::
  "(string, domain_spec) gomap \<Rightarrow> string \<Rightarrow> ('h, 'k) manager \<Rightarrow> ('h, 'k) manager" where
  "reload_remove index i s = (case go_get index i of None \<Rightarrow> stop_domain i s | Some _ \<Rightarrow> s)"

definition reload_apply ::
  "('w, 'r, 's, 'k) factories \<Rightarrow> ('w, 'r) domain_env \<Rightarrow> ctx_done \<Rightarrow> (string \<Rightarrow> nat \<Rightarrow> gotime)
    \<Rightarrow> string \<times> domain_spec \<Rightarrow> (('w, 'r, 's) domain_host, 'k) manager
    \<Rightarrow> (('w, 'r, 's) domain_host, 'k) manager" where
  "reload_apply fs env ctx clk is s0 = (case is of (i, s) \<Rightarrow>
     (case go_get (mg_runs s0) i of
        None \<Rightarrow> (case launch_inproc fs env ctx clk s s0 of
            (e, s1) \<Rightarrow> log_error ''domain reload launch failed'' (ds_ID s) e s1)
      | Some r \<Rightarrow>
          if spec_changed (dr_spec r) s
          then (case launch_inproc fs env ctx clk s (stop_domain i s0) of
              (e, s1) \<Rightarrow> log_error ''domain reload relaunch failed'' (ds_ID s) e s1)
          else s0\<lparr>mg_runs := go_put i (r\<lparr>dr_spec := s\<rparr>) (mg_runs s0)\<rparr>))"

text \<open>
  \<open>Reload\<close>: \<open>ord1\<close> is the order in which the first loop visits the runs, \<open>ord2\<close> that in which the
  second visits the index. An entry the first loop deletes is its own, so the others are all visited.
\<close>

definition reload ::
  "('w, 'r, 's, 'k) factories \<Rightarrow> ('w, 'r) domain_env \<Rightarrow> ctx_done \<Rightarrow> (string \<Rightarrow> nat \<Rightarrow> gotime)
    \<Rightarrow> string list \<Rightarrow> (string \<times> domain_spec) list \<Rightarrow> domain_spec list
    \<Rightarrow> (('w, 'r, 's) domain_host, 'k) manager \<Rightarrow> (('w, 'r, 's) domain_host, 'k) manager" where
  "reload fs env ctx clk ord1 ord2 specs s =
     foldl (\<lambda>s is. reload_apply fs env ctx clk is s)
       (foldl (\<lambda>s i. reload_remove (index_specs specs) i s) s ord1) ord2"

section \<open>The launch loop of the root kernel\<close>

definition root_launch ::
  "('w, 'r, 's, 'k) factories \<Rightarrow> ('w, 'r) domain_env \<Rightarrow> ctx_done \<Rightarrow> (string \<Rightarrow> nat \<Rightarrow> gotime)
    \<Rightarrow> domain_spec \<Rightarrow> (('w, 'r, 's) domain_host, 'k) manager
    \<Rightarrow> (('w, 'r, 's) domain_host, 'k) manager" where
  "root_launch fs env ctx clk d s =
     (if ds_Mode d = ''inproc'' \<and> go_get fs (ds_Kind d) \<noteq> None
      then (case launch_inproc fs env ctx clk d s of
          (e, s1) \<Rightarrow> log_error ''manager launch failed'' (ds_ID d) e s1)
      else case launch_with_factory fs env ctx clk d (mg_reg s) of
          (True, e, reg) \<Rightarrow> log_error ''factory launch failed'' (ds_ID d) e (s\<lparr>mg_reg := reg\<rparr>)
        | (False, _, reg) \<Rightarrow> log_error ''domain launch failed'' (ds_ID d) (Some (launcher_launch d)) s)"

definition root_manifest :: manifest where
  "root_manifest = zero_manifest\<lparr>m_KernelID := ''rk'', m_Scope := RootScope, m_Version := ''0.0.1''\<rparr>"

text \<open>
  The start of \<open>RunRootKernel\<close>: validate, register the root kernel, launch the configured domains.
  A refused configuration starts nothing.
\<close>

definition run_root_kernel ::
  "('w, 'r, 's, 'k) factories \<Rightarrow> ('w, 'r) domain_env \<Rightarrow> ctx_done \<Rightarrow> (string \<Rightarrow> nat \<Rightarrow> gotime)
    \<Rightarrow> root_config \<Rightarrow> go_error + (('w, 'r, 's) domain_host, 'k) manager" where
  "run_root_kernel fs env ctx clk cfg =
     (case validate cfg of
        Some err \<Rightarrow> Inl err
      | None \<Rightarrow>
          let reg = register_kernel root_manifest (clk ''rk'' 0) (clk ''rk'' 1) (clk ''rk'' 2) new_registry
          in Inr (foldl (\<lambda>s d. root_launch fs env ctx clk d s) (new_domain_manager reg)
               (case rc_Domains cfg of None \<Rightarrow> [] | Some ds \<Rightarrow> ds)))"

text \<open>\<open>SIGHUP\<close>: reload the file; nothing happens when it can not be loaded.\<close>

definition on_hup ::
  "('w, 'r, 's, 'k) factories \<Rightarrow> ('w, 'r) domain_env \<Rightarrow> ctx_done \<Rightarrow> (string \<Rightarrow> nat \<Rightarrow> gotime)
    \<Rightarrow> string list \<Rightarrow> (string \<times> domain_spec) list \<Rightarrow> (string \<Rightarrow> go_error + string) \<Rightarrow> string
    \<Rightarrow> (('w, 'r, 's) domain_host, 'k) manager \<Rightarrow> (('w, 'r, 's) domain_host, 'k) manager" where
  "on_hup fs env ctx clk ord1 ord2 readFile path s =
     (case load_config readFile path of
        (cfg, None) \<Rightarrow> reload fs env ctx clk ord1 ord2
          (case rc_Domains cfg of None \<Rightarrow> [] | Some ds \<Rightarrow> ds) s
      | (cfg, Some err) \<Rightarrow> s)"

section \<open>Single steps\<close>

lemma launch_inproc_cases:
  obtains (failed) err where "launch_inproc fs env ctx clk spec s = (Some err, s)"
  | (launched) m k fsm where
      "launch_inproc fs env ctx clk spec s =
        (None, s\<lparr>mg_reg := register (domain_kernel_record spec m (fsm_kernel fsm) (clk (ds_ID spec)))
            (clk (ds_ID spec) 2) (clk (ds_ID spec) 3) (mg_reg s),
          mg_runs := go_put (ds_ID spec) \<lparr>dr_spec = spec, dr_fsm = fsm, dr_module = m\<rparr> (mg_runs s)\<rparr>)"
      "fsm_run m (domain_host_of env spec) ctx (ds_Config spec) (new_fsm k) = (fsm, None)"
proof (cases "go_get fs (ds_Kind spec)")
  case None
  then show thesis using failed by (simp add: launch_inproc_def)
next
  case (Some f)
  obtain m k where f: "f (ds_ID spec) = (m, k)" by fastforce
  obtain fsm e where r: "fsm_run m (domain_host_of env spec) ctx (ds_Config spec) (new_fsm k) = (fsm, e)"
    by fastforce
  show thesis
  proof (cases e)
    case None
    show thesis
      by (rule launched[where m = m and fsm = fsm and k = k])
        (use None Some f r in \<open>simp_all add: launch_inproc_def\<close>)
  next
    case (Some err)
    then show thesis using failed[of err] \<open>go_get fs (ds_Kind spec) = Some f\<close> f r
      by (simp add: launch_inproc_def)
  qed
qed

lemma fsm_run_ready: "fsm_run m h ctx cfg f = (f', None) \<Longrightarrow> fsm_state f' = StateReady"
  by (auto simp: fsm_run_staged run_outcome_def split: prod.splits option.splits)

lemma stop_domain_simps [simp]:
  "go_get (mg_runs (stop_domain i s)) j = (if i = j then None else go_get (mg_runs s) j)"
  "mg_errors (stop_domain i s) = mg_errors s"
  "go_get (mg_runs s) i = None \<Longrightarrow> stop_domain i s = s"
  by (auto simp: stop_domain_def Let_def split: option.splits)

lemma stop_domain_reg:
  "go_get (mg_reg (stop_domain i s)) j =
     (if i = j \<and> go_get (mg_runs s) i \<noteq> None then None else go_get (mg_reg s) j)"
  by (auto simp: stop_domain_def Let_def unregister_def split: option.splits)

lemma stop_domain_ended:
  "go_get (mg_runs s) i = Some r \<Longrightarrow>
     \<exists>f. mg_ended (stop_domain i s) = mg_ended s @ [(i, f)] \<and> fsm_state f \<in> {StateStopped, StateFailed}"
  by (auto simp: stop_domain_def Let_def fsm_stop_def fsm_hook_eq split: option.splits)

lemma log_error_simps [simp]:
  "mg_runs (log_error msg i e s) = mg_runs s" "mg_reg (log_error msg i e s) = mg_reg s"
  "mg_ended (log_error msg i e s) = mg_ended s"
  "set (mg_errors s) \<subseteq> set (mg_errors (log_error msg i e s))"
  "(msg, i, err) \<in> set (mg_errors (log_error msg i (Some err) s))"
  by (auto simp: log_error_def split: option.splits)

section \<open>The index\<close>

lemma index_specs_snoc: "index_specs (specs @ [s]) = go_put (ds_ID s) s (index_specs specs)"
  by (simp add: index_specs_def)

lemma index_specs_ok:
  "go_map (index_specs specs) \<and> (\<forall>i s. go_get (index_specs specs) i = Some s \<longrightarrow> ds_ID s = i \<and> s \<in> set specs)"
proof (induction specs rule: rev_induct)
  case Nil
  then show ?case by (simp add: index_specs_def)
qed (auto simp: index_specs_snoc)

section \<open>The manager's invariant\<close>

text \<open>
  A managed domain is filed under its specification's id, is registered, and its automaton
  reached ready.
\<close>

definition manager_ok :: "('h, 'k) manager \<Rightarrow> bool" where
  "manager_ok s \<longleftrightarrow> go_map (mg_runs s) \<and> registry_ok (mg_reg s) \<and>
     (\<forall>i r. go_get (mg_runs s) i = Some r \<longrightarrow> i \<noteq> [] \<and> ds_ID (dr_spec r) = i \<and>
        go_get (mg_reg s) i \<noteq> None \<and> fsm_state (dr_fsm r) = StateReady)"

lemma register_get_other: "k_ID rec \<noteq> [] \<Longrightarrow> go_get (register rec t1 t2 r) j \<noteq> None \<longleftrightarrow> j = k_ID rec \<or> go_get r j \<noteq> None"
  by (rule register_put[of rec t1 t2 r]) auto

lemma domain_record_ID [simp]: "k_ID (domain_kernel_record spec m k now) = ds_ID spec"
  by (simp add: domain_kernel_record_def)

lemma launch_with_factory_registry:
  assumes "registry_ok reg" and "ds_ID d \<noteq> []" and "clk (ds_ID d) 2 \<noteq> zero_time"
    and "launch_with_factory fs env ctx clk d reg = (b, e, reg')"
  shows "registry_ok reg'" and "go_get reg j \<noteq> None \<Longrightarrow> go_get reg' j \<noteq> None"
proof -
  have "registry_ok reg' \<and> (go_get reg j \<noteq> None \<longrightarrow> go_get reg' j \<noteq> None)"
  proof (cases "reg' = reg")
    case False
    then obtain rec where "reg' = register rec (clk (ds_ID d) 2) (clk (ds_ID d) 3) reg"
        "k_ID rec = ds_ID d"
      using assms(4) domain_record_ID
      by (auto simp: launch_with_factory_def split: option.splits prod.splits)
    then show ?thesis
      using registry_ok_register[OF assms(1,3)] assms(2)
        register_get_other[of rec "clk (ds_ID d) 2" "clk (ds_ID d) 3" reg j] by simp
  qed (simp add: assms(1))
  then show "registry_ok reg'" "go_get reg j \<noteq> None \<Longrightarrow> go_get reg' j \<noteq> None" by simp_all
qed

lemma manager_ok_launch:
  assumes "manager_ok s" and "ds_ID spec \<noteq> []" and "clk (ds_ID spec) 2 \<noteq> zero_time"
  shows "manager_ok (snd (launch_inproc fs env ctx clk spec s))"
proof (cases rule: launch_inproc_cases[of fs env ctx clk spec s])
  case (failed err)
  then show ?thesis using assms(1) by simp
next
  case (launched m k fsm)
  let ?rec = "domain_kernel_record spec m (fsm_kernel fsm) (clk (ds_ID spec))"
  have i: "k_ID ?rec = ds_ID spec" by (simp add: domain_kernel_record_def)
  have "registry_ok (register ?rec (clk (ds_ID spec) 2) (clk (ds_ID spec) 3) (mg_reg s))"
    using assms(1,3) by (intro registry_ok_register) (auto simp: manager_ok_def)
  then show ?thesis
    using assms(1,2) launched(1) fsm_run_ready[OF launched(2)]
      register_get_other[of ?rec "clk (ds_ID spec) 2" "clk (ds_ID spec) 3" "mg_reg s"] i
    by (auto simp: manager_ok_def)
qed

lemma manager_ok_stop: "manager_ok s \<Longrightarrow> manager_ok (stop_domain i s)"
  by (auto simp: manager_ok_def stop_domain_def Let_def intro: registry_ok_unregister
      split: option.splits) (simp add: unregister_def)

lemma manager_ok_log [simp]: "manager_ok (log_error msg i e s) = manager_ok s"
  by (simp add: manager_ok_def)

lemma manager_ok_apply:
  assumes "manager_ok s" and "ds_ID sp = i" and "i \<noteq> []" and "clk i 2 \<noteq> zero_time"
  shows "manager_ok (reload_apply fs env ctx clk (i, sp) s)"
  using assms manager_ok_launch[of s sp clk fs env ctx]
    manager_ok_launch[OF manager_ok_stop[OF assms(1)], of sp clk fs env ctx i]
  by (auto simp: reload_apply_def split: option.splits prod.splits) (auto simp: manager_ok_def)

lemma manager_ok_remove: "manager_ok s \<Longrightarrow> manager_ok (reload_remove index i s)"
  by (simp add: reload_remove_def manager_ok_stop split: option.splits)

section \<open>A reload, domain by domain\<close>

text \<open>A domain is settled when it runs its specification or its launch error is on record.\<close>

definition settled :: "string \<Rightarrow> domain_spec \<Rightarrow> ('h, 'k) manager \<Rightarrow> bool" where
  "settled i sp s \<longleftrightarrow> (case go_get (mg_runs s) i of
       Some r \<Rightarrow> dr_spec r = sp
     | None \<Rightarrow> \<exists>msg err. (msg, i, err) \<in> set (mg_errors s))"

lemma launch_inproc_effect:
  assumes "ds_ID sp = i" and "go_get (mg_runs s) i = None"
    and "launch_inproc fs env ctx clk sp s = (e, s')"
  shows "settled i sp (log_error msg i e s')" and "mg_errors s' = mg_errors s"
    and "j \<noteq> i \<Longrightarrow> go_get (mg_runs s') j = go_get (mg_runs s) j" and "mg_ended s' = mg_ended s"
proof -
  have "settled i sp (log_error msg i e s') \<and> mg_errors s' = mg_errors s \<and>
      (j \<noteq> i \<longrightarrow> go_get (mg_runs s') j = go_get (mg_runs s) j) \<and> mg_ended s' = mg_ended s"
  proof (cases rule: launch_inproc_cases[of fs env ctx clk sp s])
    case (failed err)
    then have "e = Some err" "s' = s" using assms(3) by simp_all
    then show ?thesis using assms(2) by (auto simp: settled_def log_error_def)
  next
    case (launched m k fsm)
    have "e = None" "go_get (mg_runs s') i = Some \<lparr>dr_spec = sp, dr_fsm = fsm, dr_module = m\<rparr>"
      "mg_errors s' = mg_errors s" "mg_ended s' = mg_ended s"
      "\<forall>j. j \<noteq> i \<longrightarrow> go_get (mg_runs s') j = go_get (mg_runs s) j"
      using assms(1,3) launched(1) by auto
    then show ?thesis by (simp add: settled_def log_error_def)
  qed
  then show "settled i sp (log_error msg i e s')" "mg_errors s' = mg_errors s"
    "j \<noteq> i \<Longrightarrow> go_get (mg_runs s') j = go_get (mg_runs s) j" "mg_ended s' = mg_ended s"
    by simp_all
qed

lemma log_error_mem: "x \<in> set (mg_errors s) \<Longrightarrow> x \<in> set (mg_errors (log_error msg i e s))"
  by (auto simp: log_error_def split: option.splits)

lemma reload_apply_effect:
  assumes "ds_ID sp = i"
  shows "settled i sp (reload_apply fs env ctx clk (i, sp) s)"
    and "j \<noteq> i \<Longrightarrow> go_get (mg_runs (reload_apply fs env ctx clk (i, sp) s)) j = go_get (mg_runs s) j"
    and "set (mg_errors s) \<subseteq> set (mg_errors (reload_apply fs env ctx clk (i, sp) s))"
    and "go_get (mg_runs s) i = Some r \<Longrightarrow> \<not> spec_changed (dr_spec r) sp \<Longrightarrow>
      go_get (mg_runs (reload_apply fs env ctx clk (i, sp) s)) i = Some (r\<lparr>dr_spec := sp\<rparr>) \<and>
      mg_ended (reload_apply fs env ctx clk (i, sp) s) = mg_ended s \<and>
      mg_reg (reload_apply fs env ctx clk (i, sp) s) = mg_reg s \<and>
      mg_errors (reload_apply fs env ctx clk (i, sp) s) = mg_errors s"
proof -
  let ?msg = "''domain reload launch failed''" and ?msg' = "''domain reload relaunch failed''"
  obtain e1 s1 where 1: "launch_inproc fs env ctx clk sp s = (e1, s1)" by fastforce
  obtain e2 s2 where 2: "launch_inproc fs env ctx clk sp (stop_domain i s) = (e2, s2)" by fastforce
  have stopped: "go_get (mg_runs (stop_domain i s)) i = None" by simp
  note n = launch_inproc_effect[OF assms _ 1] and c = launch_inproc_effect[OF assms stopped 2]
  have ap: "reload_apply fs env ctx clk (i, sp) s =
      (case go_get (mg_runs s) i of
         None \<Rightarrow> log_error ?msg i e1 s1
       | Some r \<Rightarrow> if spec_changed (dr_spec r) sp then log_error ?msg' i e2 s2
                 else s\<lparr>mg_runs := go_put i (r\<lparr>dr_spec := sp\<rparr>) (mg_runs s)\<rparr>)"
    by (simp add: reload_apply_def 1 2 assms split: option.splits)
  show "settled i sp (reload_apply fs env ctx clk (i, sp) s)"
    using n(1)[of ?msg] c(1)[of ?msg'] by (auto simp: ap settled_def split: option.splits)
  show "j \<noteq> i \<Longrightarrow> go_get (mg_runs (reload_apply fs env ctx clk (i, sp) s)) j = go_get (mg_runs s) j"
    using n(3)[of j] c(3)[of j] by (auto simp: ap split: option.splits)
  show "set (mg_errors s) \<subseteq> set (mg_errors (reload_apply fs env ctx clk (i, sp) s))"
    using n(2) c(2) by (auto simp: ap intro!: log_error_mem split: option.splits)
  show "go_get (mg_runs s) i = Some r \<Longrightarrow> \<not> spec_changed (dr_spec r) sp \<Longrightarrow>
      go_get (mg_runs (reload_apply fs env ctx clk (i, sp) s)) i = Some (r\<lparr>dr_spec := sp\<rparr>) \<and>
      mg_ended (reload_apply fs env ctx clk (i, sp) s) = mg_ended s \<and>
      mg_reg (reload_apply fs env ctx clk (i, sp) s) = mg_reg s \<and>
      mg_errors (reload_apply fs env ctx clk (i, sp) s) = mg_errors s"
    by (simp add: ap)
qed

lemma settled_mono:
  "settled i sp s \<Longrightarrow> go_get (mg_runs t) i = go_get (mg_runs s) i \<Longrightarrow>
     set (mg_errors s) \<subseteq> set (mg_errors t) \<Longrightarrow> settled i sp t"
  by (fastforce simp: settled_def split: option.splits)

definition apply_all ::
  "('w, 'r, 's, 'k) factories \<Rightarrow> ('w, 'r) domain_env \<Rightarrow> ctx_done \<Rightarrow> (string \<Rightarrow> nat \<Rightarrow> gotime)
    \<Rightarrow> (string \<times> domain_spec) list \<Rightarrow> (('w, 'r, 's) domain_host, 'k) manager
    \<Rightarrow> (('w, 'r, 's) domain_host, 'k) manager" where
  "apply_all fs env ctx clk ord s = foldl (\<lambda>s is. reload_apply fs env ctx clk is s) s ord"

lemma apply_all_simps [simp]:
  "apply_all fs env ctx clk [] s = s"
  "apply_all fs env ctx clk (x # ord) s = apply_all fs env ctx clk ord (reload_apply fs env ctx clk x s)"
  by (simp_all add: apply_all_def)

text \<open>The second loop visits each id once, with a specification of that id.\<close>

definition visits :: "(string \<times> domain_spec) list \<Rightarrow> bool" where
  "visits ord \<longleftrightarrow> distinct (map fst ord) \<and> (\<forall>(i, sp) \<in> set ord. ds_ID sp = i)"

lemma visits_Cons: "visits ((k, sk) # ord) \<longleftrightarrow> ds_ID sk = k \<and> k \<notin> fst ` set ord \<and> visits ord"
  by (auto simp: visits_def)

lemma visits_index: "go_range (index_specs specs) ord \<Longrightarrow> visits ord"
  using index_specs_ok[of specs] go_range_distinct[of "index_specs specs" ord]
    go_range_get[of "index_specs specs" ord]
  by (auto simp: visits_def)

lemma apply_all_other:
  "visits ord \<Longrightarrow> i \<notin> fst ` set ord \<Longrightarrow>
     go_get (mg_runs (apply_all fs env ctx clk ord s)) i = go_get (mg_runs s) i"
proof (induction ord arbitrary: s)
  case (Cons x ord)
  then show ?case by (cases x) (auto simp: visits_Cons reload_apply_effect(2))
qed simp

lemma apply_all_errors:
  "visits ord \<Longrightarrow> set (mg_errors s) \<subseteq> set (mg_errors (apply_all fs env ctx clk ord s))"
proof (induction ord arbitrary: s)
  case (Cons x ord)
  obtain k sk where x: "x = (k, sk)" by fastforce
  then have "ds_ID sk = k" "visits ord" using Cons.prems by (auto simp: visits_Cons)
  then show ?case
    using subset_trans[OF reload_apply_effect(3) Cons.IH] by (simp add: x)
qed simp

lemma apply_all_settled:
  "visits ord \<Longrightarrow> (i, sp) \<in> set ord \<Longrightarrow> settled i sp (apply_all fs env ctx clk ord s)"
proof (induction ord arbitrary: s)
  case (Cons x ord)
  obtain k sk where x: "x = (k, sk)" by fastforce
  then have k: "ds_ID sk = k" "k \<notin> fst ` set ord" "visits ord"
    using Cons.prems by (auto simp: visits_Cons)
  show ?case
  proof (cases "(i, sp) = (k, sk)")
    case True
    then have "settled i sp (reload_apply fs env ctx clk x s)"
      using reload_apply_effect(1)[OF k(1)] x by simp
    then show ?thesis
      using settled_mono[OF _ apply_all_other[OF k(3)] apply_all_errors[OF k(3)]] k(2) True by simp
  next
    case False
    then show ?thesis using Cons.IH[OF k(3)] Cons.prems(2) x by auto
  qed
qed simp

lemma apply_all_unchanged:
  "visits ord \<Longrightarrow> (i, sp) \<in> set ord \<Longrightarrow> go_get (mg_runs s) i = Some r \<Longrightarrow>
     \<not> spec_changed (dr_spec r) sp \<Longrightarrow>
     go_get (mg_runs (apply_all fs env ctx clk ord s)) i = Some (r\<lparr>dr_spec := sp\<rparr>)"
proof (induction ord arbitrary: s)
  case (Cons x ord)
  obtain k sk where x: "x = (k, sk)" by fastforce
  then have k: "ds_ID sk = k" "k \<notin> fst ` set ord" "visits ord"
    using Cons.prems by (auto simp: visits_Cons)
  show ?case
  proof (cases "(i, sp) = (k, sk)")
    case True
    then show ?thesis
      using reload_apply_effect(4)[OF k(1), of s r fs env ctx clk]
        apply_all_other[OF k(3) k(2), of fs env ctx clk "reload_apply fs env ctx clk (k, sk) s"]
        Cons.prems(3,4) x
      by simp
  next
    case False
    then have "(i, sp) \<in> set ord" "i \<noteq> k" using Cons.prems(2) k(2) x by (auto simp: image_iff)
    then show ?thesis
      using Cons.IH[OF k(3)] Cons.prems(3,4) reload_apply_effect(2)[OF k(1), of i fs env ctx clk s] x
      by auto
  qed
qed simp

lemma manager_ok_apply_all:
  "visits ord \<Longrightarrow> \<forall>(i, sp) \<in> set ord. i \<noteq> [] \<Longrightarrow> \<forall>i. clk i 2 \<noteq> zero_time \<Longrightarrow> manager_ok s \<Longrightarrow>
     manager_ok (apply_all fs env ctx clk ord s)"
proof (induction ord arbitrary: s)
  case (Cons x ord)
  then show ?case by (cases x) (auto simp: visits_Cons manager_ok_apply)
qed simp

text \<open>The first loop stops the domains that are no longer listed.\<close>

definition remove_all :: "(string, domain_spec) gomap \<Rightarrow> string list \<Rightarrow> ('h, 'k) manager \<Rightarrow> ('h, 'k) manager" where
  "remove_all index ord s = foldl (\<lambda>s i. reload_remove index i s) s ord"

lemma reload_remove_get:
  "go_get (mg_runs (reload_remove index i s)) j =
     (if i = j \<and> go_get index i = None then None else go_get (mg_runs s) j)"
  by (auto simp: reload_remove_def split: option.splits)

lemma remove_all_get:
  "go_get (mg_runs (remove_all index ord s)) j =
     (if j \<in> set ord \<and> go_get index j = None then None else go_get (mg_runs s) j)"
  by (induction ord arbitrary: s) (auto simp: remove_all_def reload_remove_get)

lemma remove_all_ok: "manager_ok s \<Longrightarrow> manager_ok (remove_all index ord s)"
  by (induction ord arbitrary: s) (auto simp: remove_all_def manager_ok_remove)

lemma remove_all_errors: "mg_errors (remove_all index ord s) = mg_errors s"
proof (induction ord arbitrary: s)
  case (Cons i ord)
  have "mg_errors (reload_remove index i s) = mg_errors s"
    by (simp add: reload_remove_def split: option.splits)
  then show ?case using Cons by (simp add: remove_all_def)
qed (simp add: remove_all_def)

lemma reload_split:
  "reload fs env ctx clk ord1 ord2 specs s =
     apply_all fs env ctx clk ord2 (remove_all (index_specs specs) ord1 s)"
  by (simp add: reload_def apply_all_def remove_all_def)

text \<open>What the loops do to the registry entry of one id and to the list of stopped automata.\<close>

lemma reload_remove_ended: "set (mg_ended s) \<subseteq> set (mg_ended (reload_remove index k s))"
  by (auto simp: reload_remove_def stop_domain_def Let_def split: option.splits)

lemma remove_all_ended: "set (mg_ended s) \<subseteq> set (mg_ended (remove_all index ord s))"
proof (induction ord arbitrary: s)
  case (Cons k ord)
  show ?case
    using subset_trans[OF reload_remove_ended Cons.IH] by (simp add: remove_all_def)
qed (simp add: remove_all_def)

lemma remove_all_stays_gone:
  "go_get (mg_reg s) i = None \<Longrightarrow> go_get (mg_reg (remove_all index ord s)) i = None"
proof (induction ord arbitrary: s)
  case (Cons k ord)
  have "go_get (mg_reg (reload_remove index k s)) i = None"
    using Cons.prems by (simp add: reload_remove_def stop_domain_reg split: option.splits)
  then show ?case using Cons.IH by (simp add: remove_all_def)
qed (simp add: remove_all_def)

lemma remove_all_gone:
  "i \<in> set ord \<Longrightarrow> go_get (mg_runs s) i = Some r \<Longrightarrow> go_get index i = None \<Longrightarrow>
     go_get (mg_reg (remove_all index ord s)) i = None \<and>
     (\<exists>f. (i, f) \<in> set (mg_ended (remove_all index ord s)) \<and> fsm_state f \<in> {StateStopped, StateFailed})"
proof (induction ord arbitrary: s)
  case (Cons k ord)
  let ?s = "reload_remove index k s"
  show ?case
  proof (cases "k = i")
    case True
    then have s: "?s = stop_domain i s" using Cons.prems(3) by (simp add: reload_remove_def)
    then have "go_get (mg_reg ?s) i = None" using Cons.prems(2) by (simp add: stop_domain_reg)
    moreover obtain f where "(i, f) \<in> set (mg_ended ?s)" "fsm_state f \<in> {StateStopped, StateFailed}"
      using stop_domain_ended[OF Cons.prems(2)] s by (metis in_set_conv_decomp)
    ultimately show ?thesis
      using remove_all_stays_gone[of ?s i index ord] subsetD[OF remove_all_ended[of ?s index ord]]
      by (auto simp: remove_all_def)
  next
    case False
    then show ?thesis
      using Cons.IH[of ?s] Cons.prems by (auto simp: remove_all_def reload_remove_get)
  qed
qed simp

lemma launch_inproc_reg:
  assumes "ds_ID sp \<noteq> []" and "ds_ID sp \<noteq> i"
  shows "go_get (mg_reg (snd (launch_inproc fs env ctx clk sp s))) i = go_get (mg_reg s) i"
    and "mg_ended (snd (launch_inproc fs env ctx clk sp s)) = mg_ended s"
proof -
  have other: "go_get (register rec t1 t2 reg) i = go_get reg i" if "k_ID rec = ds_ID sp" for rec t1 t2 reg
    by (rule register_put[of rec t1 t2 reg]) (use that assms in simp)
  show "go_get (mg_reg (snd (launch_inproc fs env ctx clk sp s))) i = go_get (mg_reg s) i"
    by (cases rule: launch_inproc_cases[of fs env ctx clk sp s]) (simp_all add: other)
  show "mg_ended (snd (launch_inproc fs env ctx clk sp s)) = mg_ended s"
    by (cases rule: launch_inproc_cases[of fs env ctx clk sp s]) simp_all
qed

lemma reload_apply_reg:
  assumes "ds_ID sp = k" and "k \<noteq> []" and "k \<noteq> i"
  shows "go_get (mg_reg (reload_apply fs env ctx clk (k, sp) s)) i = go_get (mg_reg s) i"
    and "set (mg_ended s) \<subseteq> set (mg_ended (reload_apply fs env ctx clk (k, sp) s))"
proof -
  have e: "set (mg_ended s) \<subseteq> set (mg_ended (stop_domain k s))"
    by (auto simp: stop_domain_def Let_def split: option.splits)
  show "go_get (mg_reg (reload_apply fs env ctx clk (k, sp) s)) i = go_get (mg_reg s) i"
    using assms launch_inproc_reg(1)[where sp = sp and i = i and fs = fs and env = env and ctx = ctx and clk = clk and s = s]
      launch_inproc_reg(1)[where sp = sp and i = i and fs = fs and env = env and ctx = ctx and clk = clk and s = "stop_domain k s"]
    by (auto simp: reload_apply_def stop_domain_reg split: option.splits prod.splits)
  show "set (mg_ended s) \<subseteq> set (mg_ended (reload_apply fs env ctx clk (k, sp) s))"
    using assms e launch_inproc_reg(2)[where sp = sp and i = i and fs = fs and env = env and ctx = ctx and clk = clk and s = s]
      launch_inproc_reg(2)[where sp = sp and i = i and fs = fs and env = env and ctx = ctx and clk = clk and s = "stop_domain k s"]
    by (auto simp: reload_apply_def split: option.splits prod.splits)
qed

lemma apply_all_reg:
  "visits ord \<Longrightarrow> \<forall>(k, sp) \<in> set ord. k \<noteq> [] \<Longrightarrow> i \<notin> fst ` set ord \<Longrightarrow>
     go_get (mg_reg (apply_all fs env ctx clk ord s)) i = go_get (mg_reg s) i \<and>
     set (mg_ended s) \<subseteq> set (mg_ended (apply_all fs env ctx clk ord s))"
proof (induction ord arbitrary: s)
  case (Cons x ord)
  obtain k sk where x: "x = (k, sk)" by fastforce
  then have k: "ds_ID sk = k" "k \<noteq> []" "k \<noteq> i" "visits ord"
    using Cons.prems by (auto simp: visits_Cons)
  have "go_get (mg_reg (apply_all fs env ctx clk ord (reload_apply fs env ctx clk x s))) i =
      go_get (mg_reg (reload_apply fs env ctx clk x s)) i \<and>
      set (mg_ended (reload_apply fs env ctx clk x s)) \<subseteq>
        set (mg_ended (apply_all fs env ctx clk ord (reload_apply fs env ctx clk x s)))"
    using Cons.prems by (intro Cons.IH[OF k(4)]) auto
  then show ?case
    using reload_apply_reg[OF k(1-3), where fs = fs and env = env and ctx = ctx and clk = clk and s = s] x by auto
qed simp

text \<open>A reload of what is running already.\<close>

lemma spec_changed_refl [simp]: "\<not> spec_changed sp sp"
  by (simp add: spec_changed_def)

lemma remove_all_listed:
  "\<forall>i\<in>set ord. go_get index i \<noteq> None \<Longrightarrow> remove_all index ord s = s"
  by (induction ord) (auto simp: remove_all_def reload_remove_def)

lemma apply_all_same:
  "visits ord \<Longrightarrow> \<forall>(i, sp) \<in> set ord. \<exists>r. go_get (mg_runs s) i = Some r \<and> dr_spec r = sp \<Longrightarrow>
     go_get (mg_runs (apply_all fs env ctx clk ord s)) j = go_get (mg_runs s) j \<and>
     mg_reg (apply_all fs env ctx clk ord s) = mg_reg s \<and>
     mg_ended (apply_all fs env ctx clk ord s) = mg_ended s \<and>
     mg_errors (apply_all fs env ctx clk ord s) = mg_errors s"
proof (induction ord arbitrary: s)
  case (Cons x ord)
  obtain k sk where x: "x = (k, sk)" by fastforce
  obtain r where r: "go_get (mg_runs s) k = Some r" "dr_spec r = sk" using Cons.prems(2) x by auto
  let ?s = "reload_apply fs env ctx clk x s"
  have ap: "?s = s\<lparr>mg_runs := go_put k r (mg_runs s)\<rparr>"
    using r by (auto simp: x reload_apply_def)
  have same: "go_get (mg_runs ?s) i = go_get (mg_runs s) i" for i using r(1) by (auto simp: ap)
  have "visits ord" using Cons.prems(1) x by (simp add: visits_Cons)
  moreover have "\<forall>(i, sp) \<in> set ord. \<exists>r. go_get (mg_runs ?s) i = Some r \<and> dr_spec r = sp"
    unfolding same using Cons.prems(2) by auto
  ultimately show ?case
    using Cons.IH[of ?s] same[of j] by (simp add: ap)
qed simp

section \<open>Properties of the domain manager\<close>

text \<open>
  A reload converges to the new list, whatever the factories and hooks do and in whatever order
  Go visits its maps: a domain that is not listed any more does not run; a listed one runs its
  last specification in the list, or its launch error has been logged.
\<close>
theorem reload_converges:
  assumes "set ord1 = go_keys (mg_runs s)" and "go_range (index_specs specs) ord2"
    and "t = reload fs env ctx clk ord1 ord2 specs s"
  shows "case go_get (index_specs specs) i of
      None \<Rightarrow> go_get (mg_runs t) i = None
    | Some sp \<Rightarrow> settled i sp t"
proof -
  have m: "go_map (index_specs specs)" using index_specs_ok by blast
  note v = visits_index[OF assms(2)]
  show ?thesis
  proof (cases "go_get (index_specs specs) i")
    case None
    then have "i \<notin> fst ` set ord2" using go_range_keys[OF assms(2)] by (simp add: go_keys_get)
    then have "go_get (mg_runs t) i = go_get (mg_runs (remove_all (index_specs specs) ord1 s)) i"
      by (simp add: assms(3) reload_split apply_all_other[OF v])
    then show ?thesis using None assms(1) by (auto simp: remove_all_get go_keys_get)
  next
    case (Some sp)
    then have "(i, sp) \<in> set ord2" using go_range_get[OF m assms(2)] by simp
    then show ?thesis using Some by (simp add: assms(3) reload_split apply_all_settled[OF v])
  qed
qed

text \<open>
  A reload leaves the domains alone whose mode, kind, configuration and feature flags are the
  same as before: their automaton, with the kernel's state, is the one that was running.
\<close>
theorem reload_keeps_unchanged:
  assumes "go_range (index_specs specs) ord2" and "go_get (mg_runs s) i = Some r"
    and "go_get (index_specs specs) i = Some sp" and "\<not> spec_changed (dr_spec r) sp"
  shows "go_get (mg_runs (reload fs env ctx clk ord1 ord2 specs s)) i = Some (r\<lparr>dr_spec := sp\<rparr>)"
proof -
  have m: "go_map (index_specs specs)" using index_specs_ok by blast
  have "(i, sp) \<in> set ord2" using go_range_get[OF m assms(1)] assms(3) by simp
  moreover have "go_get (mg_runs (remove_all (index_specs specs) ord1 s)) i = Some r"
    using assms(2,3) by (simp add: remove_all_get)
  ultimately show ?thesis
    using apply_all_unchanged[OF visits_index[OF assms(1)]] assms(4) by (simp add: reload_split)
qed

definition steady_factories ::
  "('w, 'r, 's, unit) factories" where
  "steady_factories = [(''site'', \<lambda>_. (kernel_module_base, ()))]"

definition no_ports :: "('w, 'r) domain_env" where
  "no_ports = \<lparr>de_bus = None, de_rpc = None\<rparr>"

definition site_spec :: "string \<Rightarrow> domain_spec" where
  "site_spec mode = \<lparr>ds_ID = ''site'', ds_Mode = mode, ds_Kind = ''site'', ds_Entry = [], ds_Command = [],
     ds_FeatureFlags = None, ds_Config = None\<rparr>"

lemma site_index: "index_specs [site_spec mode] = [(''site'', site_spec mode)]"
  by (simp add: index_specs_def go_put_def site_spec_def)

theorem reload_converges_witness:
  "settled ''site'' (site_spec ''inproc'')
     (reload (steady_factories :: (unit, unit, unit, unit) factories) no_ports False (\<lambda>_ _. 1) []
       [(''site'', site_spec ''inproc'')] [site_spec ''inproc''] (new_domain_manager []))"
  using reload_converges[of "[]" "new_domain_manager []" "[site_spec ''inproc'']"
      "[(''site'', site_spec ''inproc'')]" _ "steady_factories :: (unit, unit, unit, unit) factories"
      no_ports False "\<lambda>_ _. 1" "''site''"]
  by (simp add: new_domain_manager_def site_index)

definition running_site ::
  "(((unit, unit, unit) domain_host), unit) domain_run" where
  "running_site = \<lparr>dr_spec = site_spec ''inproc'', dr_fsm = new_fsm (), dr_module = kernel_module_base\<rparr>"

theorem reload_keeps_unchanged_witness:
  "go_get (mg_runs (reload steady_factories no_ports False (\<lambda>_ _. 1) [''site'']
     [(''site'', site_spec ''inproc'')] [site_spec ''inproc'']
     ((new_domain_manager [])\<lparr>mg_runs := [(''site'', running_site)]\<rparr>))) ''site'' = Some running_site"
  using reload_keeps_unchanged[of "[site_spec ''inproc'']" "[(''site'', site_spec ''inproc'')]"
      "(new_domain_manager [])\<lparr>mg_runs := [(''site'', running_site)]\<rparr>" "''site''" running_site
      "site_spec ''inproc''" steady_factories no_ports False "\<lambda>_ _. 1" "[''site'']"]
  by (simp add: site_index spec_changed_def running_site_def)

text \<open>
  Manager and registry agree: starting the root kernel on a configuration whose domains have ids
  and then reloading any number of times, every managed domain is filed under its id, is in
  the registry, and has reached ready.
\<close>
theorem managed_domains_registered:
  assumes "run_root_kernel fs env ctx clk cfg = Inr s0"
    and "\<forall>d \<in> set (case rc_Domains cfg of None \<Rightarrow> [] | Some ds \<Rightarrow> ds). ds_ID d \<noteq> []"
    and "\<forall>i n. clk i n \<noteq> zero_time"
    and "\<forall>(ord1, ord2, specs) \<in> set rs. go_range (index_specs specs) ord2 \<and> (\<forall>d \<in> set specs. ds_ID d \<noteq> [])"
  shows "manager_ok (foldl (\<lambda>s (ord1, ord2, specs). reload fs env ctx clk ord1 ord2 specs s) s0 rs)"
proof -
  have launch: "manager_ok (root_launch fs env ctx clk d s)" if "manager_ok s" "ds_ID d \<noteq> []" for d s
  proof (cases "ds_Mode d = ''inproc'' \<and> go_get fs (ds_Kind d) \<noteq> None")
    case True
    then show ?thesis
      using manager_ok_launch[OF that, of clk fs env ctx] assms(3)
      by (auto simp: root_launch_def split: prod.splits)
  next
    case False
    obtain b e reg where l: "launch_with_factory fs env ctx clk d (mg_reg s) = (b, e, reg)"
      by (metis prod_cases3)
    have "manager_ok (s\<lparr>mg_reg := reg\<rparr>)"
      using launch_with_factory_registry[OF _ that(2) _ l] that(1) assms(3)
      by (auto simp: manager_ok_def)
    then show ?thesis
      using False that(1) l by (auto simp: root_launch_def split: bool.splits)
  qed
  have start: "manager_ok (foldl (\<lambda>s d. root_launch fs env ctx clk d s) s ds)"
    if "manager_ok s" "\<forall>d \<in> set ds. ds_ID d \<noteq> []" for s ds
    using that by (induction ds arbitrary: s) (auto intro: launch)
  have "manager_ok (new_domain_manager
      (register_kernel root_manifest (clk ''rk'' 0) (clk ''rk'' 1) (clk ''rk'' 2) new_registry))"
    using assms(3) registry_ok_register_kernel[OF registry_ok_new]
    by (simp add: manager_ok_def new_domain_manager_def)
  then have "manager_ok s0"
    using assms(1,2) start by (auto simp: run_root_kernel_def Let_def split: option.splits)
  moreover have "manager_ok (reload fs env ctx clk ord1 ord2 specs s)"
    if "manager_ok s" "go_range (index_specs specs) ord2" "\<forall>d \<in> set specs. ds_ID d \<noteq> []" for ord1 ord2 specs s
  proof -
    have "\<forall>(i, sp) \<in> set ord2. i \<noteq> []"
      using go_range_get[OF _ that(2)] index_specs_ok[of specs] that(3) by fastforce
    then show ?thesis
      using manager_ok_apply_all[OF visits_index[OF that(2)] _ _ remove_all_ok[OF that(1)]] assms(3)
      by (simp add: reload_split)
  qed
  ultimately show ?thesis
    using assms(4) by (induction rs arbitrary: s0) auto
qed

theorem managed_domains_registered_witness:
  "\<exists>s. run_root_kernel (steady_factories :: (unit, unit, unit, unit) factories) no_ports False
       (\<lambda>_ _. 1) default_config = Inr s \<and> manager_ok s"
proof -
  obtain s where s: "run_root_kernel (steady_factories :: (unit, unit, unit, unit) factories) no_ports False
       (\<lambda>_ _. 1) default_config = Inr s"
    by (simp add: run_root_kernel_def validate_def default_config_def Let_def)
  show ?thesis
    using managed_domains_registered[OF s, of "[]"] s
    by (simp add: default_config_def zero_time_def)
qed

text \<open>
  A domain that drops out of the list is taken down in order: it is no longer registered, and its
  automaton, drained and then stopped, is in stopped, or in failed when OnStop failed.
\<close>
theorem reload_removes:
  assumes "go_range (index_specs specs) ord2" and "i \<in> set ord1" and "go_get (mg_runs s) i = Some r"
    and "go_get (index_specs specs) i = None"
    and "\<forall>(j, sp) \<in> set ord2. j \<noteq> []"
    and "t = reload fs env ctx clk ord1 ord2 specs s"
  shows "go_get (mg_reg t) i = None \<and>
    (\<exists>f. (i, f) \<in> set (mg_ended t) \<and> fsm_state f \<in> {StateStopped, StateFailed})"
proof -
  let ?s = "remove_all (index_specs specs) ord1 s"
  have "i \<notin> fst ` set ord2" using go_range_keys[OF assms(1)] assms(4) by (simp add: go_keys_get)
  then show ?thesis
    using remove_all_gone[OF assms(2,3,4)]
      apply_all_reg[OF visits_index[OF assms(1)] assms(5), of i fs env ctx clk ?s]
    by (auto simp: assms(6) reload_split)
qed

theorem reload_removes_witness:
  "\<exists>f. (''site'', f) \<in> set (mg_ended (reload steady_factories no_ports False (\<lambda>_ _. 1) [''site''] [] []
     ((new_domain_manager [])\<lparr>mg_runs := [(''site'', running_site)]\<rparr>)))"
  using reload_removes[of "[]" "[]" "''site''" "[''site'']"
      "(new_domain_manager [])\<lparr>mg_runs := [(''site'', running_site)]\<rparr>" running_site _
      steady_factories no_ports False "\<lambda>_ _. 1"]
  by (auto simp: index_specs_def)

text \<open>
  A domain whose mode is not inproc but whose kind has a factory runs unmanaged: the root kernel
  starts its kernel without the manager recording it, and the next reload of the same list starts
  a second kernel for it while the first was never stopped.
\<close>
theorem unmanaged_domain_relaunched:
  assumes "go_get fs (ds_Kind d) = Some f" and "f (ds_ID d) = (m, k)" and "ds_Mode d \<noteq> ''inproc''"
    and "fsm_run m (domain_host_of env d) ctx (ds_Config d) (new_fsm k) = (fsm, None)"
    and "go_get (mg_runs s) (ds_ID d) = None" and "ds_ID d \<noteq> []"
    and "s1 = root_launch fs env ctx clk d s"
    and "s2 = reload fs env ctx clk ord1 [(ds_ID d, d)] [d] s1"
  shows "mg_runs s1 = mg_runs s \<and> mg_ended s1 = mg_ended s \<and> go_get (mg_reg s1) (ds_ID d) \<noteq> None \<and>
    go_get (mg_runs s2) (ds_ID d) = Some \<lparr>dr_spec = d, dr_fsm = fsm, dr_module = m\<rparr>"
proof -
  have s1: "s1 = s\<lparr>mg_reg := register (domain_kernel_record d m (fsm_kernel fsm) (clk (ds_ID d)))
      (clk (ds_ID d) 2) (clk (ds_ID d) 3) (mg_reg s)\<rparr>"
    using assms(1-4,7) by (simp add: root_launch_def launch_with_factory_def log_error_def)
  let ?t = "remove_all (index_specs [d]) ord1 s1"
  have "go_get (mg_runs ?t) (ds_ID d) = None"
    using assms(5) s1 by (simp add: remove_all_get)
  then have "go_get (mg_runs (reload_apply fs env ctx clk (ds_ID d, d) ?t)) (ds_ID d) =
      Some \<lparr>dr_spec = d, dr_fsm = fsm, dr_module = m\<rparr>"
    using assms(1,2,4) by (simp add: reload_apply_def launch_inproc_def)
  moreover have "go_get (mg_reg s1) (ds_ID d) \<noteq> None"
    using register_get_other[of "domain_kernel_record d m (fsm_kernel fsm) (clk (ds_ID d))"] assms(6)
    by (simp add: s1)
  ultimately show ?thesis by (simp add: assms(8) reload_split) (simp add: s1)
qed

theorem unmanaged_domain_relaunched_witness:
  "\<exists>s2 r. go_get (mg_runs s2) ''site'' = Some r \<and> dr_spec r = site_spec ''remote'' \<and>
     s2 = reload (steady_factories :: (unit, unit, unit, unit) factories) no_ports False (\<lambda>_ _. 1) []
       [(''site'', site_spec ''remote'')] [site_spec ''remote'']
       (root_launch steady_factories no_ports False (\<lambda>_ _. 1) (site_spec ''remote'') (new_domain_manager []))"
proof -
  have i: "ds_ID (site_spec ''remote'') = ''site''" by (simp add: site_spec_def)
  obtain fsm e where r: "fsm_run kernel_module_base
      (domain_host_of no_ports (site_spec ''remote'') :: (unit, unit, unit) domain_host)
      False (ds_Config (site_spec ''remote'')) (new_fsm ()) = (fsm, e)" by fastforce
  then have "e = None" using base_module.run_ready by (metis snd_conv)
  then show ?thesis
    using unmanaged_domain_relaunched[of "steady_factories :: (unit, unit, unit, unit) factories"
        "site_spec ''remote''" "\<lambda>_. (kernel_module_base, ())" kernel_module_base "()" no_ports False fsm
        "new_domain_manager []" _ "\<lambda>_ _. 1" _ "[]", OF _ _ _ _ _ _ refl refl] r i
    by (auto simp: steady_factories_def new_domain_manager_def site_spec_def)
qed

text \<open>
  A hang-up never changes the domains: when every built-in domain runs with its built-in
  specification and nothing else does, then reloading any file, readable or not, leaves all
  automata, the registry, and the lists of stopped domains and of errors as they are.
\<close>
theorem hup_changes_nothing:
  assumes "set ord1 = go_keys (mg_runs s)"
    and "go_range (index_specs (the (rc_Domains default_config))) ord2"
    and "\<forall>i. map_option dr_spec (go_get (mg_runs s) i) = go_get (index_specs (the (rc_Domains default_config))) i"
    and "t = on_hup fs env ctx clk ord1 ord2 readFile path s"
  shows "go_get (mg_runs t) i = go_get (mg_runs s) i \<and> mg_reg t = mg_reg s \<and>
    mg_ended t = mg_ended s \<and> mg_errors t = mg_errors s"
proof (cases "snd (load_config readFile path)")
  case (Some err)
  then obtain cfg where "load_config readFile path = (cfg, Some err)" by (metis prod.collapse)
  then show ?thesis by (simp add: assms(4) on_hup_def)
next
  case None
  let ?specs = "the (rc_Domains default_config)"
  have d: "rc_Domains (fst (load_config readFile path)) = Some ?specs"
    using load_config_fixed_part[of readFile path] by (simp add: fixed_part_def default_config_def)
  have t: "t = reload fs env ctx clk ord1 ord2 ?specs s"
    using None d by (cases "load_config readFile path") (simp add: assms(4) on_hup_def)
  have "\<forall>i\<in>set ord1. go_get (index_specs ?specs) i \<noteq> None"
    using assms(1) assms(3)[THEN spec] by (metis go_keys_get map_option_is_None)
  then have "remove_all (index_specs ?specs) ord1 s = s" by (rule remove_all_listed)
  moreover have "\<exists>r. go_get (mg_runs s) k = Some r \<and> dr_spec r = sp" if "(k, sp) \<in> set ord2" for k sp
  proof -
    have "go_get (index_specs ?specs) k = Some sp"
      using go_range_get[OF _ assms(2)] index_specs_ok[of ?specs] that by blast
    then show ?thesis using assms(3)[THEN spec, of k] by simp
  qed
  then have "\<forall>(k, sp) \<in> set ord2. \<exists>r. go_get (mg_runs s) k = Some r \<and> dr_spec r = sp" by blast
  ultimately show ?thesis
    using apply_all_same[OF visits_index[OF assms(2)], where s = s]
    by (simp add: t reload_split)
qed

definition built_in_run :: "(((unit, unit, unit) domain_host), unit) domain_run" where
  "built_in_run = \<lparr>dr_spec = hd (the (rc_Domains default_config)), dr_fsm = new_fsm (),
     dr_module = kernel_module_base\<rparr>"

theorem hup_changes_nothing_witness:
  "\<exists>t. t = on_hup steady_factories no_ports False (\<lambda>_ _. 1) [''site'']
       (index_specs (the (rc_Domains default_config))) (\<lambda>_. Inr sample_file) ''rk.yaml''
       ((new_domain_manager [])\<lparr>mg_runs := [(''site'', built_in_run)]\<rparr>) \<and>
     go_get (mg_runs t) ''site'' = Some built_in_run"
  using hup_changes_nothing[of "[''site'']" "(new_domain_manager [])\<lparr>mg_runs := [(''site'', built_in_run)]\<rparr>"
      "index_specs (the (rc_Domains default_config))", OF _ go_range_refl _ refl, of steady_factories
      no_ports False "\<lambda>_ _. 1" "\<lambda>_. Inr sample_file" "''rk.yaml''" "''site''"]
  by (auto simp: built_in_run_def default_config_def index_specs_def go_put_def go_keys_def)

end
