(* ===== verification/Supervisor.thy ===== *)
theory Supervisor
  imports Backoff
begin

text \<open>
  The supervisor of \<open>platform/runtime/supervisor_gen.go\<close>. Each worker has a goroutine running
  \<open>runWorker\<close>; the model gives it a program counter and makes every action between two
  synchronisation points one step. The worker function itself is the environment: when it
  runs it may return nil, return an error or panic, at any time. The observable behaviour is the
  sequence of events the supervisor emits.
\<close>

section \<open>Policies, workers, events\<close>

type_synonym restart_policy = int

definition Permanent :: restart_policy where "Permanent = 0"
definition Transient :: restart_policy where "Transient = 1"
definition Temporary :: restart_policy where "Temporary = 2"

lemmas policy_defs = Permanent_def Transient_def Temporary_def

definition policy_string :: "restart_policy \<Rightarrow> string" where
  "policy_string p =
     (if p = Permanent then ''permanent''
      else if p = Transient then ''transient''
      else if p = Temporary then ''temporary''
      else ''unknown'')"

definition should_restart :: "restart_policy \<Rightarrow> go_error option \<Rightarrow> bool" where
  "should_restart p err =
     (if p = Permanent then True
      else if p = Transient then err \<noteq> None
      else False)"

record worker_spec =
  ws_Name :: string
  ws_Policy :: restart_policy
  ws_Backoff :: backoff_policy
  ws_Fn_set :: bool \<comment> \<open>\<open>Fn != nil\<close>\<close>

text \<open>Where the goroutine of a worker stands.\<close>

datatype phase =
    AtTop                        \<comment> \<open>before the check of the supervisor's context\<close>
  | Running                      \<comment> \<open>inside \<open>Fn\<close>\<close>
  | Finished "go_error option"   \<comment> \<open>\<open>Fn\<close> is over, the restart decision is next\<close>
  | Sleeping                     \<comment> \<open>waiting for the backoff\<close>
  | Exited                       \<comment> \<open>the goroutine is gone, the map entry is still there\<close>

record worker =
  w_spec :: worker_spec
  w_cancelled :: bool
  w_attempts :: nat
  w_stopped :: bool
  w_phase :: phase

datatype event_type = EventStart | EventExit | EventRestart | EventPanic | EventStop

record event =
  ev_worker :: string
  ev_type :: event_type
  ev_attempt :: nat
  ev_err :: "go_error option"
  ev_next :: duration

definition mk_event :: "string \<Rightarrow> event_type \<Rightarrow> nat \<Rightarrow> go_error option \<Rightarrow> event" where
  "mk_event n t a e = \<lparr>ev_worker = n, ev_type = t, ev_attempt = a, ev_err = e, ev_next = 0\<rparr>"

record sup =
  sp_cancelled :: bool
  sp_workers :: "(string, worker) gomap"
  sp_wg :: nat
  sp_events :: "event list"

definition new_supervisor :: sup where
  "new_supervisor = \<lparr>sp_cancelled = False, sp_workers = [], sp_wg = 0, sp_events = []\<rparr>"

text \<open>
  \<open>sp_events\<close> is what \<open>emit\<close> is called with. The handler of \<open>WithOnEvent\<close> acts on a world of its own and may panic
  (the flag), which \<open>emit\<close> recovers from; a supervisor without a handler emits nothing.
\<close>

definition emit :: "(event \<Rightarrow> 'w \<Rightarrow> 'w \<times> bool) option \<Rightarrow> event \<Rightarrow> 'w \<Rightarrow> 'w" where
  "emit handler e w = (case handler of None \<Rightarrow> w | Some h \<Rightarrow> fst (h e w))"

lemma observer_records: "foldl (\<lambda>w e. emit (Some (\<lambda>e w. (w @ [e], panics e))) e w) seen es = seen @ es"
  by (induction es arbitrary: seen) (simp_all add: emit_def)

section \<open>Calls of the API\<close>

datatype sup_error = InvalidWorkerSpec | WorkerExists string

definition sup_start :: "worker_spec \<Rightarrow> sup \<Rightarrow> sup_error + sup" where
  "sup_start spec s =
     (if \<not> ws_Fn_set spec \<or> ws_Name spec = [] then Inl InvalidWorkerSpec
      else case go_get (sp_workers s) (ws_Name spec) of
          Some _ \<Rightarrow> Inl (WorkerExists (ws_Name spec))
        | None \<Rightarrow> Inr (s\<lparr>sp_workers := go_put (ws_Name spec)
              \<lparr>w_spec = spec, w_cancelled = False, w_attempts = 0, w_stopped = False,
               w_phase = AtTop\<rparr> (sp_workers s),
            sp_wg := Suc (sp_wg s)\<rparr>))"

definition sup_stop :: "string \<Rightarrow> sup \<Rightarrow> sup" where
  "sup_stop name s =
     (case go_get (sp_workers s) name of
        None \<Rightarrow> s
      | Some w \<Rightarrow> if w_stopped w then s
                  else s\<lparr>sp_workers := go_put name (w\<lparr>w_stopped := True, w_cancelled := True\<rparr>)
                    (sp_workers s)\<rparr>)"

definition stop_worker :: "worker \<Rightarrow> worker" where
  "stop_worker w = (if w_stopped w then w else w\<lparr>w_stopped := True, w_cancelled := True\<rparr>)"

definition sup_stop_all :: "sup \<Rightarrow> sup" where
  "sup_stop_all s = s\<lparr>sp_cancelled := True, sp_workers := map (\<lambda>(n, w). (n, stop_worker w)) (sp_workers s)\<rparr>"

section \<open>Steps of the workers\<close>

definition set_worker :: "string \<Rightarrow> worker \<Rightarrow> event list \<Rightarrow> sup \<Rightarrow> sup" where
  "set_worker n w evs s = s\<lparr>sp_workers := go_put n w (sp_workers s), sp_events := sp_events s @ evs\<rparr>"

definition leave :: "sup \<Rightarrow> sup" where
  "leave s = s\<lparr>sp_wg := sp_wg s - 1\<rparr>"

text \<open>
  What \<open>Fn\<close> may do: return nil, return an error, or panic; a panic is recovered, turned into an
  error and announced.
\<close>

datatype fn_result = ReturnNil | ReturnErr go_error | Panics string

fun fn_error :: "fn_result \<Rightarrow> go_error option" where
  "fn_error ReturnNil = None"
| "fn_error (ReturnErr e) = Some e"
| "fn_error (Panics v) = Some (''panic: '' @ v)"

definition finish_events :: "string \<Rightarrow> nat \<Rightarrow> fn_result \<Rightarrow> event list" where
  "finish_events n a r =
     (case r of Panics v \<Rightarrow> [mk_event n EventPanic (Suc a) (fn_error r)] | _ \<Rightarrow> [])
     @ [mk_event n EventExit (Suc a) (fn_error r)]"

inductive work_step :: "(f64 \<Rightarrow> int) \<Rightarrow> string \<Rightarrow> sup \<Rightarrow> sup \<Rightarrow> bool" for oor n where
  top_cancelled: "go_get (sp_workers s) n = Some w \<Longrightarrow> w_phase w = AtTop \<Longrightarrow> sp_cancelled s \<Longrightarrow>
    work_step oor n s (leave (set_worker n (w\<lparr>w_phase := Exited\<rparr>) [mk_event n EventStop 0 None] s))"
| top_run: "go_get (sp_workers s) n = Some w \<Longrightarrow> w_phase w = AtTop \<Longrightarrow> \<not> sp_cancelled s \<Longrightarrow>
    work_step oor n s (set_worker n (w\<lparr>w_phase := Running\<rparr>)
      [mk_event n EventStart (Suc (w_attempts w)) None] s)"
| finish: "go_get (sp_workers s) n = Some w \<Longrightarrow> w_phase w = Running \<Longrightarrow>
    work_step oor n s (set_worker n
      (w\<lparr>w_phase := Finished (fn_error r), w_attempts := Suc (w_attempts w)\<rparr>)
      (finish_events n (w_attempts w) r) s)"
| remove: "go_get (sp_workers s) n = Some w \<Longrightarrow> w_phase w = Finished e \<Longrightarrow>
    \<not> should_restart (ws_Policy (w_spec w)) e \<Longrightarrow>
    work_step oor n s (leave (s\<lparr>sp_workers := go_del n (sp_workers s)\<rparr>))"
| restart: "go_get (sp_workers s) n = Some w \<Longrightarrow> w_phase w = Finished e \<Longrightarrow>
    should_restart (ws_Policy (w_spec w)) e \<Longrightarrow>
    work_step oor n s (set_worker n (w\<lparr>w_phase := Sleeping\<rparr>)
      [(mk_event n EventRestart (w_attempts w) e)\<lparr>ev_next :=
         sup_duration oor (with_defaults (ws_Backoff (w_spec w))) (int (w_attempts w)) u\<rparr>] s)"
| wake: "go_get (sp_workers s) n = Some w \<Longrightarrow> w_phase w = Sleeping \<Longrightarrow>
    work_step oor n s (set_worker n (w\<lparr>w_phase := AtTop\<rparr>) [] s)"
| sleep_cancelled: "go_get (sp_workers s) n = Some w \<Longrightarrow> w_phase w = Sleeping \<Longrightarrow> sp_cancelled s \<Longrightarrow>
    work_step oor n s (leave (set_worker n (w\<lparr>w_phase := Exited\<rparr>) [] s))"

inductive sup_step :: "(f64 \<Rightarrow> int) \<Rightarrow> sup \<Rightarrow> sup \<Rightarrow> bool" for oor where
  api_start: "sup_start spec s = Inr s' \<Longrightarrow> sup_step oor s s'"
| api_stop: "sup_step oor s (sup_stop name s)"
| api_stop_all: "sup_step oor s (sup_stop_all s)"
| work: "work_step oor n s s' \<Longrightarrow> sup_step oor s s'"

inductive sup_reachable :: "(f64 \<Rightarrow> int) \<Rightarrow> sup \<Rightarrow> bool" for oor where
  new: "sup_reachable oor new_supervisor"
| step: "sup_reachable oor s \<Longrightarrow> sup_step oor s t \<Longrightarrow> sup_reachable oor t"

inductive_cases work_stepE: "work_step oor n s s'"
inductive_cases sup_stepE: "sup_step oor s t"

section \<open>The map, the wait group and the phases\<close>

definition live :: "(string, worker) gomap \<Rightarrow> nat" where
  "live m = length (filter (\<lambda>(n, w). w_phase w \<noteq> Exited) m)"

lemma live_Nil [simp]: "live [] = 0"
  by (simp add: live_def)

lemma live_Cons [simp]: "live ((n, w) # m) = (if w_phase w \<noteq> Exited then Suc (live m) else live m)"
  by (simp add: live_def)

lemma live_put:
  "live (go_put n w m) + (case go_get m n of None \<Rightarrow> 0 | Some v \<Rightarrow> if w_phase v = Exited then 0 else 1)
     = live m + (if w_phase w = Exited then 0 else 1)"
  by (induction m) (auto simp: go_put_def)

lemma live_del:
  "go_map m \<Longrightarrow> go_get m n = Some v \<Longrightarrow>
     live (go_del n m) + (if w_phase v = Exited then 0 else 1) = live m"
proof (induction m)
  case (Cons x m)
  then show ?case
    using go_del_absent[of m n]
    by (cases x) (auto simp: go_del_def go_map_def go_get_def map_of_eq_None_iff image_iff)
qed simp

lemma go_get_map_snd: "go_get (map (\<lambda>(n, w). (n, f w)) m) k = map_option f (go_get m k)"
  by (induction m) auto

lemma go_map_map_snd [simp]: "go_map (map (\<lambda>(n, w). (n, f w)) m) = go_map m"
  by (simp add: go_map_def case_prod_beta comp_def)

lemma stop_worker_fields [simp]:
  "w_spec (stop_worker w) = w_spec w" "w_phase (stop_worker w) = w_phase w"
  "w_attempts (stop_worker w) = w_attempts w"
  by (simp_all add: stop_worker_def)

lemma live_stop_all [simp]: "live (map (\<lambda>(n, w). (n, stop_worker w)) m) = live m"
  by (induction m) auto

definition sup_ok :: "sup \<Rightarrow> bool" where
  "sup_ok s \<longleftrightarrow> go_map (sp_workers s) \<and> sp_wg s = live (sp_workers s) \<and>
     (\<forall>n w. go_get (sp_workers s) n = Some w \<longrightarrow>
        ws_Name (w_spec w) = n \<and> n \<noteq> [] \<and> w_cancelled w = w_stopped w \<and>
        (w_phase w = Exited \<longrightarrow> sp_cancelled s))"

lemmas sup_op_defs = sup_start_def sup_stop_def sup_stop_all_def set_worker_def leave_def

lemma sup_ok_new: "sup_ok new_supervisor"
  by (simp add: sup_ok_def new_supervisor_def)

lemma sup_ok_work: "work_step oor n s t \<Longrightarrow> sup_ok s \<Longrightarrow> sup_ok t"
proof (induction rule: work_step.induct)
  case (top_cancelled s w)
  then show ?case
    using live_put[of n "w\<lparr>w_phase := Exited\<rparr>" "sp_workers s"]
    by (auto simp: sup_ok_def sup_op_defs)
next
  case (top_run s w)
  then show ?case
    using live_put[of n "w\<lparr>w_phase := Running\<rparr>" "sp_workers s"]
    by (auto simp: sup_ok_def sup_op_defs)
next
  case (finish s w r)
  then show ?case
    using live_put[of n "w\<lparr>w_phase := Finished (fn_error r), w_attempts := Suc (w_attempts w)\<rparr>"
        "sp_workers s"]
    by (auto simp: sup_ok_def sup_op_defs)
next
  case (remove s w e)
  then show ?case
    using live_del[of "sp_workers s" n w] by (auto simp: sup_ok_def sup_op_defs)
next
  case (restart s w e u)
  then show ?case
    using live_put[of n "w\<lparr>w_phase := Sleeping\<rparr>" "sp_workers s"]
    by (auto simp: sup_ok_def sup_op_defs)
next
  case (wake s w)
  then show ?case
    using live_put[of n "w\<lparr>w_phase := AtTop\<rparr>" "sp_workers s"]
    by (auto simp: sup_ok_def sup_op_defs)
next
  case (sleep_cancelled s w)
  then show ?case
    using live_put[of n "w\<lparr>w_phase := Exited\<rparr>" "sp_workers s"]
    by (auto simp: sup_ok_def sup_op_defs)
qed

lemma sup_ok_start: "sup_start spec s = Inr t \<Longrightarrow> sup_ok s \<Longrightarrow> sup_ok t"
  using live_put[of "ws_Name spec" "\<lparr>w_spec = spec, w_cancelled = False, w_attempts = 0,
      w_stopped = False, w_phase = AtTop\<rparr>" "sp_workers s"]
  by (fastforce simp: sup_ok_def sup_start_def split: if_splits option.splits)

lemma sup_ok_stop: "sup_ok s \<Longrightarrow> sup_ok (sup_stop name s)"
  using live_put[of name "the (go_get (sp_workers s) name)\<lparr>w_stopped := True, w_cancelled := True\<rparr>"
      "sp_workers s"]
  by (auto simp: sup_ok_def sup_stop_def split: option.splits)

lemma sup_ok_stop_all: "sup_ok s \<Longrightarrow> sup_ok (sup_stop_all s)"
  by (auto simp: sup_ok_def sup_stop_all_def go_get_map_snd) (auto simp: stop_worker_def)

lemma sup_ok_step: "sup_step oor s t \<Longrightarrow> sup_ok s \<Longrightarrow> sup_ok t"
  by (erule sup_stepE)
    (auto intro: sup_ok_start sup_ok_stop sup_ok_stop_all sup_ok_work)

lemma sup_ok_reachable: "sup_reachable oor s \<Longrightarrow> sup_ok s"
  by (induction rule: sup_reachable.induct) (auto intro: sup_ok_new sup_ok_step)

section \<open>The protocol of the events\<close>

definition ended :: "event option \<Rightarrow> bool" where
  "ended p = (case p of None \<Rightarrow> True | Some q \<Rightarrow> ev_type q = EventExit)"

text \<open>Which event of a worker may come next after the one before.\<close>

definition follows :: "event option \<Rightarrow> event \<Rightarrow> bool" where
  "follows p e = (case (ev_type e, p) of
       (EventStart, Some q) \<Rightarrow> (ev_type q = EventExit \<and> ev_attempt e = 1) \<or>
          (ev_type q = EventRestart \<and> ev_attempt e = Suc (ev_attempt q))
     | (EventStart, None) \<Rightarrow> ev_attempt e = 1
     | (EventPanic, Some q) \<Rightarrow> ev_type q = EventStart \<and> ev_attempt e = ev_attempt q \<and> ev_err e \<noteq> None
     | (EventExit, Some q) \<Rightarrow> ev_attempt e = ev_attempt q \<and>
          (ev_type q = EventStart \<or> ev_type q = EventPanic \<and> ev_err e = ev_err q)
     | (EventRestart, Some q) \<Rightarrow>
          ev_type q = EventExit \<and> ev_attempt e = ev_attempt q \<and> ev_err e = ev_err q
     | (EventStop, None) \<Rightarrow> True
     | (EventStop, Some q) \<Rightarrow> ev_type q = EventExit \<or> ev_type q = EventRestart
     | _ \<Rightarrow> False)"

fun event_chain :: "event option \<Rightarrow> event list \<Rightarrow> bool" where
  "event_chain p [] = True"
| "event_chain p (e # es) = (follows p e \<and> event_chain (Some e) es)"

definition worker_events :: "string \<Rightarrow> sup \<Rightarrow> event list" where
  "worker_events n s = filter (\<lambda>e. ev_worker e = n) (sp_events s)"

definition last_or :: "event option \<Rightarrow> event list \<Rightarrow> event option" where
  "last_or p es = (if es = [] then p else Some (last es))"

lemma last_or_simps [simp]:
  "last_or p [] = p" "last_or p (es @ [e]) = Some e" "last_or p (es @ [d, e]) = Some e"
  "last_or p (e # es) = last_or (Some e) es"
  by (simp_all add: last_or_def)

lemma event_chain_append:
  "event_chain p (es @ fs) \<longleftrightarrow> event_chain p es \<and> event_chain (last_or p es) fs"
  by (induction es arbitrary: p) auto

definition phase_event :: "worker option \<Rightarrow> event option \<Rightarrow> bool" where
  "phase_event wo p = (case wo of
       None \<Rightarrow> ended p
     | Some w \<Rightarrow> (case w_phase w of
           AtTop \<Rightarrow> (w_attempts w = 0 \<and> ended p) \<or>
             (\<exists>q. p = Some q \<and> ev_type q = EventRestart \<and> ev_attempt q = w_attempts w)
         | Running \<Rightarrow> \<exists>q. p = Some q \<and> ev_type q = EventStart \<and> ev_attempt q = Suc (w_attempts w)
         | Finished e \<Rightarrow> \<exists>q. p = Some q \<and> ev_type q = EventExit \<and> ev_attempt q = w_attempts w \<and>
             ev_err q = e
         | Sleeping \<Rightarrow> \<exists>q. p = Some q \<and> ev_type q = EventRestart \<and> ev_attempt q = w_attempts w
         | Exited \<Rightarrow> True))"

definition protocol_ok :: "sup \<Rightarrow> bool" where
  "protocol_ok s \<longleftrightarrow> (\<forall>n. event_chain None (worker_events n s) \<and>
     phase_event (go_get (sp_workers s) n) (last_or None (worker_events n s)))"

lemma mk_event_fields [simp]:
  "ev_worker (mk_event n t a e) = n" "ev_type (mk_event n t a e) = t"
  "ev_attempt (mk_event n t a e) = a" "ev_err (mk_event n t a e) = e"
  "ev_next (mk_event n t a e) = 0"
  by (simp_all add: mk_event_def)

text \<open>A step that touches one worker only has to be checked for that worker.\<close>

lemma protocol_update:
  assumes ok: "protocol_ok s"
    and other: "\<And>k. k \<noteq> n \<Longrightarrow> go_get (sp_workers t) k = go_get (sp_workers s) k"
    and evs: "sp_events t = sp_events s @ evs" "\<forall>e\<in>set evs. ev_worker e = n"
    and new: "\<And>p. phase_event (go_get (sp_workers s) n) p \<Longrightarrow>
      event_chain p evs \<and> phase_event (go_get (sp_workers t) n) (last_or p evs)"
  shows "protocol_ok t"
  unfolding protocol_ok_def
proof
  fix k
  have old: "event_chain None (worker_events k s)"
    "phase_event (go_get (sp_workers s) k) (last_or None (worker_events k s))"
    using ok by (auto simp: protocol_ok_def)
  have app: "worker_events k t = worker_events k s @ (if k = n then evs else [])"
    using evs by (auto simp: worker_events_def filter_empty_conv filter_id_conv)
  show "event_chain None (worker_events k t) \<and>
      phase_event (go_get (sp_workers t) k) (last_or None (worker_events k t))"
  proof (cases "k = n")
    case True
    have "last_or None (worker_events n t) = last_or (last_or None (worker_events n s)) evs"
      using app True by (simp add: last_or_def)
    then show ?thesis using app True new old by (simp add: event_chain_append)
  next
    case False
    then show ?thesis using app other old by simp
  qed
qed

lemma phase_event_stop [simp]:
  "phase_event (Some (w\<lparr>w_stopped := b, w_cancelled := c\<rparr>)) p = phase_event (Some w) p"
  "phase_event (Some (stop_worker w)) p = phase_event (Some w) p"
  "phase_event (map_option stop_worker v) p = phase_event v p"
  by (cases v; simp add: phase_event_def split: phase.splits)+

lemma protocol_work: "work_step oor n s t \<Longrightarrow> protocol_ok s \<Longrightarrow> protocol_ok t"
proof (induction rule: work_step.induct)
  case (finish s w r)
  show ?case
    by (rule protocol_update[OF finish(3), where evs = "finish_events n (w_attempts w) r" and n = n])
      (use finish in \<open>auto simp: sup_op_defs phase_event_def finish_events_def follows_def
        split: fn_result.splits\<close>)
next
  case (remove s w e)
  show ?case
    by (rule protocol_update[OF remove(4), where evs = "[]" and n = n])
      (use remove in \<open>auto simp: sup_op_defs phase_event_def ended_def\<close>)
next
  case (restart s w e u)
  show ?case
    by (rule protocol_update[OF restart(4), where n = n])
      (use restart in \<open>auto simp: sup_op_defs phase_event_def follows_def\<close>)
next
  case (top_cancelled s w)
  show ?case
    by (rule protocol_update[OF top_cancelled(4), where evs = "[mk_event n EventStop 0 None]" and n = n])
      (use top_cancelled in \<open>auto simp: sup_op_defs phase_event_def follows_def ended_def
        split: option.splits\<close>)
next
  case (top_run s w)
  show ?case
    by (rule protocol_update[OF top_run(4),
          where evs = "[mk_event n EventStart (Suc (w_attempts w)) None]" and n = n])
      (use top_run in \<open>auto simp: sup_op_defs phase_event_def follows_def ended_def
        split: option.splits\<close>)
next
  case (wake s w)
  show ?case
    by (rule protocol_update[OF wake(3), where evs = "[]" and n = n])
      (use wake in \<open>auto simp: sup_op_defs phase_event_def\<close>)
next
  case (sleep_cancelled s w)
  show ?case
    by (rule protocol_update[OF sleep_cancelled(4), where evs = "[]" and n = n])
      (use sleep_cancelled in \<open>auto simp: sup_op_defs phase_event_def\<close>)
qed

lemma protocol_start: "sup_start spec s = Inr t \<Longrightarrow> protocol_ok s \<Longrightarrow> protocol_ok t"
  by (erule protocol_update[where n = "ws_Name spec" and evs = "[]"])
    (auto simp: sup_start_def phase_event_def split: if_splits option.splits)

lemma protocol_stop: "protocol_ok s \<Longrightarrow> protocol_ok (sup_stop name s)"
  by (erule protocol_update[where n = name and evs = "[]"])
    (auto simp: sup_stop_def split: if_splits option.splits)

lemma protocol_stop_all: "protocol_ok s \<Longrightarrow> protocol_ok (sup_stop_all s)"
  by (simp add: protocol_ok_def sup_stop_all_def worker_events_def go_get_map_snd)

lemma protocol_reachable: "sup_reachable oor s \<Longrightarrow> protocol_ok s"
proof (induction rule: sup_reachable.induct)
  case new
  then show ?case
    by (simp add: protocol_ok_def new_supervisor_def worker_events_def phase_event_def ended_def)
next
  case (step s t)
  from step(2) show ?case
    by (rule sup_stepE)
      (use step(3) in \<open>auto intro: protocol_start protocol_stop protocol_stop_all protocol_work\<close>)
qed

section \<open>Draining after StopAll\<close>

fun phase_rank :: "phase \<Rightarrow> nat" where
  "phase_rank Exited = 0"
| "phase_rank AtTop = 1"
| "phase_rank Sleeping = 2"
| "phase_rank (Finished e) = 3"
| "phase_rank Running = 4"

definition sup_rank :: "sup \<Rightarrow> nat" where
  "sup_rank s = sum_list (map (\<lambda>(n, w). phase_rank (w_phase w)) (sp_workers s))"

lemma phase_rank_le: "phase_rank p \<le> 4"
  by (cases p) auto

lemma rank_le_live:
  "sum_list (map (\<lambda>(n, w). phase_rank (w_phase w)) m) \<le> 4 * live m"
proof (induction m)
  case (Cons x m)
  then show ?case using phase_rank_le[of "w_phase (snd x)"] by (cases x) auto
qed simp

lemma rank_put:
  "go_get m n = Some v \<Longrightarrow>
     sum_list (map (\<lambda>(n, w). phase_rank (w_phase w)) (go_put n w m)) + phase_rank (w_phase v)
     = sum_list (map (\<lambda>(n, w). phase_rank (w_phase w)) m) + phase_rank (w_phase w)"
  by (induction m) (auto simp: go_put_def split: if_splits)

lemma rank_del:
  "go_map m \<Longrightarrow> go_get m n = Some v \<Longrightarrow>
     sum_list (map (\<lambda>(n, w). phase_rank (w_phase w)) (go_del n m)) + phase_rank (w_phase v)
     = sum_list (map (\<lambda>(n, w). phase_rank (w_phase w)) m)"
proof (induction m)
  case (Cons x m)
  then show ?case
    using go_del_absent[of m n]
    by (cases x) (auto simp: go_del_def go_map_def go_get_def map_of_eq_None_iff image_iff)
qed simp

lemma rank_set:
  "go_get (sp_workers s) n = Some v \<Longrightarrow> phase_rank (w_phase w) < phase_rank (w_phase v) \<Longrightarrow>
     sup_rank (set_worker n w evs s) < sup_rank s"
  using rank_put[of "sp_workers s" n v w] by (simp add: sup_rank_def set_worker_def)

lemma rank_leave [simp]: "sup_rank (leave s) = sup_rank s"
  by (simp add: sup_rank_def leave_def)

lemma rank_decreases:
  "work_step oor n s t \<Longrightarrow> go_map (sp_workers s) \<Longrightarrow> sp_cancelled s \<Longrightarrow> sup_rank t < sup_rank s"
proof (induction rule: work_step.induct)
  case (remove s w e)
  then show ?case
    using rank_del[of "sp_workers s" n w] by (simp add: sup_rank_def leave_def)
next
  case (wake s w)
  then show ?case by (intro rank_set) auto
next
  case (restart s w e u)
  then show ?case by (intro rank_set) auto
next
  case (finish s w r)
  then show ?case by (intro rank_set) auto
qed (auto intro: rank_set)

definition starts :: "sup \<Rightarrow> event list" where
  "starts s = filter (\<lambda>e. ev_type e = EventStart) (sp_events s)"

lemma work_keeps:
  "work_step oor n s t \<Longrightarrow> sp_cancelled t = sp_cancelled s"
  "work_step oor n s t \<Longrightarrow> sp_cancelled s \<Longrightarrow> starts t = starts s"
  by (induction rule: work_step.induct)
    (auto simp: sup_op_defs starts_def finish_events_def split: fn_result.splits)

text \<open>Only a goroutine that is gone is stuck: the function may always return.\<close>

lemma work_progress:
  assumes "sp_cancelled s" and "go_get (sp_workers s) n = Some w" and "w_phase w \<noteq> Exited"
  shows "\<exists>t. work_step oor n s t"
proof (cases "w_phase w")
  case (Finished e)
  then show ?thesis
    using assms work_step.remove[of s n w e oor] work_step.restart[of s n w e oor] by blast
qed (use assms in \<open>blast intro: work_step.intros\<close>)+

definition worker_step :: "(f64 \<Rightarrow> int) \<Rightarrow> sup \<Rightarrow> sup \<Rightarrow> bool" where
  "worker_step oor s t \<longleftrightarrow> (\<exists>n. work_step oor n s t)"

lemma worker_steps_bounded:
  "(worker_step oor ^^ k) s t \<Longrightarrow> sup_ok s \<Longrightarrow> sp_cancelled s \<Longrightarrow>
     k + sup_rank t \<le> sup_rank s \<and> sup_ok t \<and> sp_cancelled t \<and> starts t = starts s"
proof (induction k arbitrary: t)
  case (Suc k)
  then obtain r n where r: "(worker_step oor ^^ k) s r" "work_step oor n r t"
    by (metis relpowp_Suc_E worker_step_def)
  then have *: "k + sup_rank r \<le> sup_rank s" "sup_ok r" "sp_cancelled r" "starts r = starts s"
    using Suc by auto
  moreover from this r(2) have "sup_rank t < sup_rank r"
    by (intro rank_decreases) (auto simp: sup_ok_def)
  ultimately show ?case
    using work_keeps[OF r(2)] sup_ok_work[OF r(2)] by auto
qed simp

lemma idle_live:
  assumes "sup_ok s" and "sp_cancelled s" and "\<nexists>t. worker_step oor s t"
  shows "live (sp_workers s) = 0"
proof -
  have "w_phase w = Exited" if "(n, w) \<in> set (sp_workers s)" for n w
    using assms work_progress[of s n w oor] that
    by (auto simp: worker_step_def sup_ok_def go_get_set[symmetric])
  then show ?thesis by (auto simp: live_def filter_empty_conv)
qed

section \<open>A worker that is always restarted\<close>

text \<open>While the supervisor lives nothing removes the entry of a permanent worker.\<close>

definition permanent_live :: "worker_spec \<Rightarrow> sup \<Rightarrow> bool" where
  "permanent_live spec s \<longleftrightarrow> sup_ok s \<and>
     (\<exists>w. go_get (sp_workers s) (ws_Name spec) = Some w \<and> w_spec w = spec)"

lemma permanent_stays:
  assumes "sup_step oor s t" and "ws_Policy spec = Permanent" and "permanent_live spec s"
  shows "permanent_live spec t"
proof -
  have ok: "sup_ok t" using assms by (auto simp: permanent_live_def intro: sup_ok_step)
  obtain w where w: "go_get (sp_workers s) (ws_Name spec) = Some w" "w_spec w = spec"
    using assms(3) by (auto simp: permanent_live_def)
  have "\<exists>w'. go_get (sp_workers t) (ws_Name spec) = Some w' \<and> w_spec w' = spec"
    using assms(1)
  proof (cases rule: sup_step.cases)
    case (api_start sp)
    then show ?thesis using w by (auto simp: sup_start_def split: if_splits option.splits)
  next
    case (api_stop name)
    then show ?thesis using w by (auto simp: sup_stop_def split: option.splits)
  next
    case api_stop_all
    then show ?thesis using w by (auto simp: sup_stop_all_def go_get_map_snd)
  next
    case (work n)
    then show ?thesis
      using w assms(2) by (cases rule: work_step.cases) (auto simp: sup_op_defs should_restart_def)
  qed
  then show ?thesis using ok by (simp add: permanent_live_def)
qed

lemma permanent_stays_steps:
  assumes "(sup_step oor)\<^sup>*\<^sup>* s t" and "ws_Policy spec = Permanent" and "permanent_live spec s"
  shows "permanent_live spec t"
  using assms by (induction rule: rtranclp_induct) (auto intro: permanent_stays)

section \<open>A sample run\<close>

definition demo_spec :: "restart_policy \<Rightarrow> worker_spec" where
  "demo_spec p = \<lparr>ws_Name = ''w'', ws_Policy = p, ws_Backoff = zero_policy, ws_Fn_set = True\<rparr>"

definition demo_worker :: "restart_policy \<Rightarrow> phase \<Rightarrow> nat \<Rightarrow> worker" where
  "demo_worker p ph a = \<lparr>w_spec = demo_spec p, w_cancelled = False, w_attempts = a,
     w_stopped = False, w_phase = ph\<rparr>"

definition demo_sup :: "restart_policy \<Rightarrow> phase \<Rightarrow> nat \<Rightarrow> event list \<Rightarrow> sup" where
  "demo_sup p ph a evs = \<lparr>sp_cancelled = False,
     sp_workers = [(''w'', demo_worker p ph a)],
     sp_wg = 1, sp_events = evs\<rparr>"

lemma demo_step:
  assumes "sup_reachable oor s" and "work_step oor ''w'' s t'" and "t' = t"
  shows "sup_reachable oor t"
  using assms by (auto intro: sup_reachable.step sup_step.work)

lemmas demo_simps = demo_sup_def demo_worker_def demo_spec_def set_worker_def leave_def go_put_def

lemma demo_start: "sup_reachable oor (demo_sup p AtTop 0 [])"
  by (rule sup_reachable.step[OF sup_reachable.new sup_step.api_start[where spec = "demo_spec p"]])
    (simp add: sup_start_def new_supervisor_def demo_simps)

lemma demo_run: "sup_reachable oor (demo_sup p Running 0 [mk_event ''w'' EventStart 1 None])"
  by (rule demo_step[OF demo_start[of oor p] work_step.top_run[where w = "demo_worker p AtTop 0"]]) (simp_all add: demo_simps)

lemma demo_finish:
  "sup_reachable oor (demo_sup p (Finished (fn_error r)) 1
     (mk_event ''w'' EventStart 1 None # finish_events ''w'' 0 r))"
  by (rule demo_step[OF demo_run[of oor p] work_step.finish[where r = r and w = "demo_worker p Running 0"]]) (simp_all add: demo_simps)

section \<open>Properties of the supervisor\<close>



text \<open>
  C12: The events of each worker name follow the protocol: start with attempt 1, or with the
  next attempt after a restart; an optional panic and then an exit of the same attempt with the
  same error; a restart repeats attempt and error of the exit; a stop only comes where a start could.
\<close>
theorem supervisor_event_protocol:
  assumes "sup_reachable oor s"
  shows "event_chain None (worker_events n s)"
  using protocol_reachable[OF assms] by (simp add: protocol_ok_def)

theorem supervisor_event_protocol_witness:
  "event_chain None [mk_event ''w'' EventStart 1 None,
     mk_event ''w'' EventPanic 1 (Some ''panic: x''), mk_event ''w'' EventExit 1 (Some ''panic: x'')]"
  using supervisor_event_protocol[OF demo_finish[of oor_amd64 Permanent "Panics ''x''"], of "''w''"]
  by (simp add: worker_events_def demo_sup_def finish_events_def)



text \<open>
  C13: Graceful shutdown: once StopAll has cancelled a reachable supervisor, no worker starts
  its function again, the workers take at most four steps per live worker, and when none can
  take a step any more the wait group is zero, so Wait returns.
\<close>
theorem stop_all_drains:
  assumes "sup_reachable oor s" and "sp_cancelled s" and "(worker_step oor ^^ k) s t"
  shows "starts t = starts s \<and> k \<le> 4 * sp_wg s \<and>
    ((\<nexists>u. worker_step oor t u) \<longrightarrow> sp_wg t = 0)"
proof -
  have ok: "sup_ok s" using sup_ok_reachable[OF assms(1)] .
  note b = worker_steps_bounded[OF assms(3) ok assms(2)]
  have "sup_rank s \<le> 4 * sp_wg s"
    using ok rank_le_live[of "sp_workers s"] by (simp add: sup_rank_def sup_ok_def)
  then show ?thesis using b idle_live[of t oor] by (auto simp: sup_ok_def)
qed

lemma demo_drain:
  "\<exists>t. (worker_step oor ^^ 1) (sup_stop_all (demo_sup Permanent AtTop 0 [])) t \<and>
     (\<nexists>u. worker_step oor t u)"
proof (intro exI conjI)
  let ?s = "sup_stop_all (demo_sup Permanent AtTop 0 [])"
  let ?w = "stop_worker (demo_worker Permanent AtTop 0)"
  let ?t = "leave (set_worker ''w'' (?w\<lparr>w_phase := Exited\<rparr>) [mk_event ''w'' EventStop 0 None] ?s)"
  have "work_step oor ''w'' ?s ?t"
    by (rule work_step.top_cancelled) (simp_all add: demo_sup_def sup_stop_all_def demo_worker_def)
  then show "(worker_step oor ^^ 1) ?s ?t" by (auto simp: worker_step_def simp del: One_nat_def)
  have "go_get (sp_workers ?t) n = Some v \<Longrightarrow> w_phase v = Exited" for n v
    by (auto simp: demo_sup_def sup_stop_all_def sup_op_defs split: if_splits)
  then show "\<nexists>u. worker_step oor ?t u"
    by (auto simp: worker_step_def elim!: work_stepE)
qed

theorem stop_all_drains_witness:
  "\<exists>t. starts t = [] \<and> sp_wg t = 0"
proof -
  obtain t where t: "(worker_step oor_amd64 ^^ 1) (sup_stop_all (demo_sup Permanent AtTop 0 [])) t"
    "\<nexists>u. worker_step oor_amd64 t u"
    using demo_drain by blast
  have r: "sup_reachable oor_amd64 (sup_stop_all (demo_sup Permanent AtTop 0 []))"
    using demo_start by (blast intro: sup_reachable.step sup_step.api_stop_all)
  show ?thesis
    using stop_all_drains[OF r _ t(1)] t(2)
    by (auto simp: sup_stop_all_def demo_sup_def starts_def)
qed

text \<open>
  C16: Stop does not stop a permanent worker: after Stop, however the API calls and the workers'
  steps interleave, as long as the supervisor itself is not stopped the worker keeps its entry
  and its goroutine, and its name can not be started anew.
\<close>
theorem stop_leaves_permanent:
  assumes "sup_reachable oor s" and "go_get (sp_workers s) n = Some w"
    and "ws_Policy (w_spec w) = Permanent"
    and "(sup_step oor)\<^sup>*\<^sup>* (sup_stop n s) t" and "\<not> sp_cancelled t"
  shows "(\<exists>v. go_get (sp_workers t) n = Some v \<and> w_spec v = w_spec w \<and> w_phase v \<noteq> Exited) \<and>
    (ws_Name spec = n \<longrightarrow> (\<exists>e. sup_start spec t = Inl e))"
proof -
  have ok: "sup_ok s" using sup_ok_reachable[OF assms(1)] .
  then have n: "ws_Name (w_spec w) = n" using assms(2) by (simp add: sup_ok_def)
  have "permanent_live (w_spec w) (sup_stop n s)"
    using sup_ok_stop[OF ok, of n] assms(2) n by (auto simp: permanent_live_def sup_stop_def)
  then have "permanent_live (w_spec w) t"
    using permanent_stays_steps[OF assms(4,3)] by blast
  then show ?thesis
    using assms(5) n by (auto simp: permanent_live_def sup_ok_def sup_start_def)
qed

theorem stop_leaves_permanent_witness:
  "\<exists>v. go_get (sp_workers (sup_stop ''w'' (demo_sup Permanent AtTop 0 []))) ''w'' = Some v \<and>
     w_spec v = demo_spec Permanent \<and> w_phase v \<noteq> Exited"
proof -
  have g: "go_get (sp_workers (demo_sup Permanent AtTop 0 [])) ''w'' =
      Some (demo_worker Permanent AtTop 0)"
    by (simp add: demo_sup_def)
  have p: "ws_Policy (demo_spec Permanent) = Permanent"
    and c: "\<not> sp_cancelled (sup_stop ''w'' (demo_sup Permanent AtTop 0 []))"
    by (simp_all add: demo_spec_def demo_sup_def sup_stop_def)
  show ?thesis
    using stop_leaves_permanent[OF demo_start[of oor_amd64] g _ rtranclp.rtrancl_refl c] p
    by (simp add: demo_worker_def)
qed

end
