(* ===== verification/Site.thy ===== *)
theory Site
  imports Forwarder Domains Supervisor
begin

text \<open>
  The example domain kernel (\<open>kernels/examples/site/site_domain_gen.go\<close>) and the factory that makes it
  known to the root kernel (\<open>cmd/rk/domain_factory_site_gen.go\<close>): its hooks as a kernel module, its three
  supervised workers, and what becomes of it under the domain manager. Serving HTTP is the library's:
  how \<open>ListenAndServe\<close> ends is an argument.
\<close>

section \<open>The domain and its hooks\<close>

record ('l, 'r, 'b, 's) site =
  st_id :: string
  st_host :: "('l, 'r, 'b, 's) host option"
  st_logger :: "'l host_logger option"
  st_sup :: "sup option"
  st_httpAddr :: string
  st_logGW :: string
  st_health :: health

definition new_site :: "string \<Rightarrow> gotime \<Rightarrow> ('l, 'r, 'b, 's) site" where
  "new_site i now =
     \<lparr>st_id = i, st_host = None, st_logger = None, st_sup = None, st_httpAddr = '':8081'',
      st_logGW = ''127.0.0.1:8079'',
      st_health = \<lparr>h_Status = HealthReady, h_Reason = [], h_Since = now\<rparr>\<rparr>"

definition site_manifest :: "('l, 'r, 'b, 's) site \<Rightarrow> manifest" where
  "site_manifest d = zero_manifest\<lparr>m_KernelID := st_id d, m_Version := ''0.0.1'', m_Scope := DomainScope,
     m_Features := Some [''http'', ''workers'', ''log-forwarder'']\<rparr>"

definition site_on_load ::
  "('l, 'r, 'b, 's) host \<Rightarrow> ('l, 'r, 'b, 's) site \<Rightarrow> ('l, 'r, 'b, 's) site \<times> go_error option" where
  "site_on_load h d = (d\<lparr>st_host := Some h, st_logger := Some (ho_logger h)\<rparr>, None)"

definition site_on_configure ::
  "any_map \<Rightarrow> ('l, 'r, 'b, 's) site \<Rightarrow> ('l, 'r, 'b, 's) site \<times> go_error option" where
  "site_on_configure cfg d =
     (let d1 = (case any_string cfg ''http_addr'' of
            Some v \<Rightarrow> if v \<noteq> [] then d\<lparr>st_httpAddr := v\<rparr> else d | None \<Rightarrow> d);
          d2 = (case any_string cfg ''log_gateway'' of
            Some v \<Rightarrow> if v \<noteq> [] then d1\<lparr>st_logGW := v\<rparr> else d1 | None \<Rightarrow> d1)
      in (d2, None))"

definition site_worker :: "string \<Rightarrow> worker_spec" where
  "site_worker name = \<lparr>ws_Name = name, ws_Policy = Permanent, ws_Backoff = zero_policy, ws_Fn_set = True\<rparr>"

definition site_workers :: "string list" where
  "site_workers = [''fk-hello-http'', ''fk-log-forwarder'', ''worker-logs'']"

text \<open>The results of \<open>Start\<close> are ignored.\<close>

definition start_ignored :: "sup \<Rightarrow> worker_spec \<Rightarrow> sup" where
  "start_ignored s spec = (case sup_start spec s of Inl _ \<Rightarrow> s | Inr t \<Rightarrow> t)"

definition site_on_start :: "('l, 'r, 'b, 's) site \<Rightarrow> ('l, 'r, 'b, 's) site \<times> go_error option" where
  "site_on_start d =
     (d\<lparr>st_sup := Some (foldl start_ignored new_supervisor (map site_worker site_workers))\<rparr>, None)"

text \<open>\<open>wait\<close> gives the supervisor as it is when \<open>Wait\<close> returns; the workers run on meanwhile.\<close>

definition site_on_stop :: "(sup \<Rightarrow> sup) \<Rightarrow> ('l, 'r, 'b, 's) site \<Rightarrow> ('l, 'r, 'b, 's) site \<times> go_error option" where
  "site_on_stop wait d = (case st_sup d of
       None \<Rightarrow> (d, None)
     | Some s \<Rightarrow> (d\<lparr>st_sup := Some (wait (sup_stop_all s))\<rparr>, None))"

definition site_module ::
  "(sup \<Rightarrow> sup) \<Rightarrow> (('l, 'r, 'b, 's) host, ('l, 'r, 'b, 's) site) kernel_module" where
  "site_module wait = kernel_module_base
     \<lparr>km_Manifest := site_manifest, km_OnLoad := (\<lambda>_. site_on_load),
      km_OnConfigure := (\<lambda>_. site_on_configure), km_OnStart := (\<lambda>_. site_on_start),
      km_OnStop := (\<lambda>_. site_on_stop wait), km_Health := (\<lambda>_. st_health)\<rparr>"

definition site_factory ::
  "(sup \<Rightarrow> sup) \<Rightarrow> gotime \<Rightarrow> ('w, 'r, 's, ('w tee_logger, 'r, (log_record_v2, 'w) publisher, 's) site) domain_factory" where
  "site_factory wait now i = (site_module wait, new_site i now)"

definition with_site_factory ::
  "(sup \<Rightarrow> sup) \<Rightarrow> gotime \<Rightarrow> ('w, 'r, 's, ('w tee_logger, 'r, (log_record_v2, 'w) publisher, 's) site) factories
    \<Rightarrow> ('w, 'r, 's, ('w tee_logger, 'r, (log_record_v2, 'w) publisher, 's) site) factories" where
  "with_site_factory wait now fs = register_domain_factory ''site'' (Some (site_factory wait now)) fs"

section \<open>The workers\<close>

definition hello_body :: "('l, 'r, 'b, 's) site \<Rightarrow> string" where
  "hello_body d = ''hello from site: '' @ st_id d @ newline"

datatype serve_result = ServerClosed | ServeError go_error

definition hello_worker ::
  "'w logger \<Rightarrow> ctx_done \<Rightarrow> ('l, 'r, 'b, 's) site \<Rightarrow> serve_result \<Rightarrow> 'w \<Rightarrow> 'w \<times> go_error option" where
  "hello_worker lg ctx d r w =
     (lg ctx ''INFO'' ''http hello listening'' (Some [(''addr'', AnyString (st_httpAddr d))]) w,
      case r of ServerClosed \<Rightarrow> None | ServeError e \<Rightarrow> Some e)"

text \<open>The address and the ports the forwarding worker runs with.\<close>

definition site_forwarder :: "('l, 'r, 'b, 's) site \<Rightarrow> forwarder" where
  "site_forwarder d = new_forwarder (st_logGW d)
     (case st_host d of None \<Rightarrow> False | Some h \<Rightarrow> ho_bus h \<noteq> None) (st_logger d \<noteq> None) []"

datatype heart_turn = HeartDone | HeartTick

text \<open>The heartbeat: a record per tick until the context is over; no result while it waits.\<close>

fun heartbeat :: "'w logger \<Rightarrow> heart_turn list \<Rightarrow> 'w \<Rightarrow> 'w \<times> go_error option option" where
  "heartbeat lg [] w = (w, None)"
| "heartbeat lg (HeartDone # ts) w = (w, Some None)"
| "heartbeat lg (HeartTick # ts) w = heartbeat lg ts
     (lg False ''INFO'' ''site heartbeat'' (Some [(''component'', AnyString ''site/heartbeat'')]) w)"

section \<open>A module that does not fail\<close>

lemma site_module_fields [simp]:
  "km_OnLoad (site_module wait) ctx = site_on_load" "km_OnInit (site_module wait) ctx = ok_hook"
  "km_OnConfigure (site_module wait) ctx = site_on_configure"
  "km_OnStart (site_module wait) ctx = site_on_start" "km_OnReady (site_module wait) ctx = ok_hook"
  "km_OnDrain (site_module wait) ctx = ok_hook" "km_OnStop (site_module wait) ctx = site_on_stop wait"
  "km_Manifest (site_module wait) = site_manifest" "km_Health (site_module wait) now = st_health"
  by (simp_all add: site_module_def kernel_module_base_def)

interpretation site_reliable: reliable_module "site_module wait"
  by unfold_locales
    (simp_all add: site_on_load_def ok_hook_def site_on_configure_def site_on_start_def site_on_stop_def
      Let_def split: option.split)

lemma site_configured:
  "st_httpAddr (fst (site_on_configure cfg d)) =
     (case any_string cfg ''http_addr'' of Some v \<Rightarrow> if v \<noteq> [] then v else st_httpAddr d | None \<Rightarrow> st_httpAddr d)"
  "st_logGW (fst (site_on_configure cfg d)) =
     (case any_string cfg ''log_gateway'' of Some v \<Rightarrow> if v \<noteq> [] then v else st_logGW d | None \<Rightarrow> st_logGW d)"
  "st_host (fst (site_on_configure cfg d)) = st_host d"
  "st_id (fst (site_on_configure cfg d)) = st_id d" "st_health (fst (site_on_configure cfg d)) = st_health d"
  by (simp_all add: site_on_configure_def Let_def split: option.split)

text \<open>Where the start-up hooks take the kernel.\<close>

definition site_ready :: "('l, 'r, 'b, 's) host \<Rightarrow> any_map \<Rightarrow> ('l, 'r, 'b, 's) site \<Rightarrow> ('l, 'r, 'b, 's) site" where
  "site_ready h cfg d = fst (site_on_start (fst (site_on_configure cfg (fst (site_on_load h d)))))"

lemma site_run:
  "snd (fsm_run (site_module wait) h ctx cfg (new_fsm d)) = None"
  "fsm_kernel (fst (fsm_run (site_module wait) h ctx cfg (new_fsm d))) = site_ready h cfg d"
proof -
  show ok: "snd (fsm_run (site_module wait) h ctx cfg (new_fsm d)) = None"
    using site_reliable.run_ready by blast
  have hooks: "snd (site_on_load h k) = None" "snd (site_on_configure cfg k) = None"
      "snd (site_on_start k) = None" for k :: "('a, 'b, 'c, 'd) site"
    by (simp_all add: site_on_load_def site_on_configure_def site_on_start_def Let_def)
  show "fsm_kernel (fst (fsm_run (site_module wait) h ctx cfg (new_fsm d))) = site_ready h cfg d"
    using hooks
    by (simp add: fsm_run_def fsm_hook_eq ok_hook_def new_fsm_def site_ready_def
        split: prod.splits option.splits)
qed

section \<open>The supervisor of a started site\<close>

lemma start_ignored_ok:
  assumes "sup_reachable oor s"
  shows "sup_reachable oor (start_ignored s spec)"
  using assms sup_reachable.step[OF assms sup_step.api_start[of spec s]]
  by (auto simp: start_ignored_def split: sum.split)

definition site_sup :: sup where
  "site_sup = foldl start_ignored new_supervisor (map site_worker site_workers)"

lemma site_sup_reachable: "sup_reachable oor site_sup"
proof -
  have "sup_reachable oor (foldl start_ignored s specs)" if "sup_reachable oor s" for s specs
    using that by (induction specs arbitrary: s) (simp_all add: start_ignored_ok)
  then show ?thesis unfolding site_sup_def by (simp add: sup_reachable.new)
qed

lemma site_sup_workers:
  "map fst (sp_workers site_sup) = site_workers" "sp_wg site_sup = 3" "\<not> sp_cancelled site_sup"
  by (simp_all add: site_sup_def site_workers_def start_ignored_def sup_start_def site_worker_def
      new_supervisor_def go_put_def)

lemma site_ready_sup [simp]: "st_sup (site_ready h cfg d) = Some site_sup"
  by (simp add: site_ready_def site_on_start_def site_sup_def)

lemma wg_decreases: "work_step oor n s t \<Longrightarrow> sp_wg t \<le> sp_wg s"
  by (induction rule: work_step.induct) (auto simp: sup_op_defs)

lemma site_sup_running:
  "(worker_step oor)\<^sup>*\<^sup>* site_sup s \<Longrightarrow> sup_reachable oor s \<and> sp_wg s \<le> 3"
proof (induction rule: rtranclp_induct)
  case base
  then show ?case by (simp add: site_sup_reachable site_sup_workers)
next
  case (step s t)
  then obtain n where n: "work_step oor n s t" by (auto simp: worker_step_def)
  then show ?case
    using step.IH wg_decreases[OF n] sup_reachable.step[OF _ sup_step.work[OF n]] by auto
qed

section \<open>Properties of the site\<close>

text \<open>
  C19: A configured site always comes up, and discovery tells the truth about it: with the factory
  registered, the manager's launch of a domain of kind site can not fail whatever the
  configuration holds; the domain is managed in state ready, registered as ready, and the address the
  registry exports for it is the one the site itself serves on, although factory and
  domain read the configuration independently; its three workers are started.
\<close>
theorem site_launched:
  fixes s :: "(('w, 'r, 's) domain_host,
      ('w tee_logger, 'r, (log_record_v2, 'w) publisher, 's) site) manager"
  assumes "ds_Kind spec = ''site''" and "ds_ID spec \<noteq> []"
  shows "\<exists>s' r rec ep.
    launch_inproc (with_site_factory wait now fs) env ctx clk spec s = (None, s') \<and>
    go_get (mg_runs s') (ds_ID spec) = Some r \<and> fsm_state (dr_fsm r) = StateReady \<and>
    go_get (mg_reg s') (ds_ID spec) = Some rec \<and> h_Status (k_Health rec) = HealthReady \<and>
    map_option x_Network (k_Exports rec) = Some (Some [ep]) \<and>
    ne_Address ep = st_httpAddr (fsm_kernel (dr_fsm r)) \<and>
    map_option (\<lambda>sp. map fst (sp_workers sp)) (st_sup (fsm_kernel (dr_fsm r))) =
      Some [''fk-hello-http'', ''fk-log-forwarder'', ''worker-logs'']"
proof -
  let ?h = "domain_host_of env spec :: ('w, 'r, 's) domain_host" and ?d = "new_site (ds_ID spec) now"
  obtain f where f: "fsm_run (site_module wait) ?h ctx (ds_Config spec) (new_fsm ?d) = (f, None)"
      "fsm_kernel f = site_ready ?h (ds_Config spec) ?d"
    using site_run[of wait ?h ctx "ds_Config spec" ?d] by (metis prod.collapse)
  have ready: "fsm_state f = StateReady" using f(1) by (rule fsm_run_ready)
  let ?rec = "domain_kernel_record spec (site_module wait) (fsm_kernel f) (clk (ds_ID spec))"
  obtain R where R: "register ?rec (clk (ds_ID spec) 2) (clk (ds_ID spec) 3) (mg_reg s) = go_put (ds_ID spec) R (mg_reg s)"
      "k_Health R = k_Health ?rec" "k_Exports R = k_Exports ?rec"
    using register_put[of ?rec "clk (ds_ID spec) 2" "clk (ds_ID spec) 3" "mg_reg s"] assms(2)
    by (metis domain_record_ID)
  let ?r = "\<lparr>dr_spec = spec, dr_fsm = f, dr_module = site_module wait\<rparr>"
  let ?s = "s\<lparr>mg_reg := go_put (ds_ID spec) R (mg_reg s), mg_runs := go_put (ds_ID spec) ?r (mg_runs s)\<rparr>"
  have launch: "launch_inproc (with_site_factory wait now fs) env ctx clk spec s = (None, ?s)"
    using f(1) R(1) assms(1)
    by (simp add: launch_inproc_def with_site_factory_def register_domain_factory_def site_factory_def)
  have addr: "st_httpAddr (fsm_kernel f) = domain_http_addr spec"
    by (simp add: f(2) site_ready_def site_on_start_def site_configured site_on_load_def new_site_def
        domain_http_addr_def split: option.split)
  have health: "h_Status (k_Health R) = HealthReady"
    by (simp add: R(2) domain_kernel_record_def f(2) site_ready_def site_on_start_def site_configured
        site_on_load_def new_site_def)
  show ?thesis
    by (rule exI[of _ ?s], rule exI[of _ ?r], rule exI[of _ R],
        rule exI[of _ "\<lparr>ne_Name = ''hello'', ne_Protocol = ''http'', ne_Address = domain_http_addr spec,
          ne_Version = ''v1'', ne_Endpoints = Some [''/hello'']\<rparr>"])
      (use launch ready health R(3) addr in
        \<open>simp add: domain_kernel_record_def domain_exports_def f(2) site_sup_workers site_workers_def\<close>)
qed

text \<open>
  A site stops in bounded time: from whatever state its workers have reached since OnStart, once
  OnStop has cancelled the supervisor they take at most twelve more steps, none of them starts its
  function again, and when none is left to take one the wait group is zero, so OnStop's Wait
  returns.
\<close>
theorem site_stops:
  assumes "(worker_step oor)\<^sup>*\<^sup>* site_sup s" and "(worker_step oor ^^ k) (sup_stop_all s) t"
  shows "k \<le> 12 \<and> starts t = starts (sup_stop_all s) \<and> ((\<nexists>u. worker_step oor t u) \<longrightarrow> sp_wg t = 0)"
proof -
  have s: "sup_reachable oor s" "sp_wg s \<le> 3" using site_sup_running[OF assms(1)] by auto
  have ok: "sup_ok (sup_stop_all s)" "sp_cancelled (sup_stop_all s)" "sp_wg (sup_stop_all s) \<le> 3"
    using sup_ok_stop_all[OF sup_ok_reachable[OF s(1)]] s(2) by (simp_all add: sup_stop_all_def)
  note b = worker_steps_bounded[OF assms(2) ok(1,2)]
  have "sup_rank (sup_stop_all s) \<le> 12"
    using ok rank_le_live[of "sp_workers (sup_stop_all s)"] by (simp add: sup_rank_def sup_ok_def)
  then show ?thesis using b idle_live[of t oor] by (auto simp: sup_ok_def)
qed

definition sample_site_spec :: domain_spec where
  "sample_site_spec = \<lparr>ds_ID = ''site'', ds_Mode = ''inproc'', ds_Kind = ''site'', ds_Entry = [],
     ds_Command = [], ds_FeatureFlags = None, ds_Config = Some [(''http_addr'', AnyString '':9000'')]\<rparr>"

definition sample_site_manager ::
  "((unit, unit, unit) domain_host, (unit tee_logger, unit, (log_record_v2, unit) publisher, unit) site) manager" where
  "sample_site_manager = new_domain_manager new_registry"

theorem site_launched_witness:
  "\<exists>s'. launch_inproc (with_site_factory id 1 []) \<lparr>de_bus = None, de_rpc = None\<rparr> False (\<lambda>i n. 1)
       sample_site_spec sample_site_manager = (None, s') \<and> go_get (mg_runs s') ''site'' \<noteq> None"
  using site_launched[of sample_site_spec id 1 "[]" "\<lparr>de_bus = None, de_rpc = None\<rparr>" False "\<lambda>i n. 1"
      sample_site_manager]
  by (auto simp: sample_site_spec_def)

theorem site_stops_witness:
  "\<exists>t. (worker_step oor_amd64 ^^ 1) (sup_stop_all site_sup) t \<and>
     starts t = starts (sup_stop_all site_sup)"
proof -
  have "fst ` set (sp_workers site_sup) \<noteq> {}"
    using site_sup_workers(1) by (auto simp: site_workers_def)
  then obtain n w where w: "go_get (sp_workers site_sup) n = Some w"
    by (metis all_not_in_conv go_keys_def go_keys_get option.exhaust)
  have "w_phase w \<noteq> Exited"
    using sup_ok_reachable[OF site_sup_reachable] w site_sup_workers(3) by (auto simp: sup_ok_def)
  then obtain t where "worker_step oor_amd64 (sup_stop_all site_sup) t"
    using work_progress[of "sup_stop_all site_sup" n "stop_worker w" oor_amd64] w
    by (auto simp: worker_step_def sup_stop_all_def go_get_map_snd)
  then have "(worker_step oor_amd64 ^^ 1) (sup_stop_all site_sup) t" by (simp del: One_nat_def)
  then show ?thesis using site_stops[OF rtranclp.rtrancl_refl] by blast
qed

end
