(* ===== verification/Json_Values.thy ===== *)
theory Json_Values
  imports Json
begin

text \<open>
  JSON values of \<open>encoding/json\<close>: the printer (\<open>Marshal\<close> and \<open>MarshalIndent\<close>), the parser with its limit on
  nesting, and the proof that what is printed reads back. The parser needs no fuel: it recurses on
  the nesting that is still allowed and, inside an array or an object, on the text.
\<close>

section \<open>Values and their printed form\<close>

text \<open>A number is its numeral.\<close>

datatype json = JNull | JBool bool | JNum string | JStr string | JArr "json list"
  | JObj "(string \<times> json) list"

fun decimal :: "nat \<Rightarrow> string" where
  "decimal n = (if n < 10 then [char_of (48 + n)] else decimal (n div 10) @ [char_of (48 + n mod 10)])"

declare decimal.simps [simp del]

definition show_int :: "int \<Rightarrow> string" where
  "show_int i = (if i < 0 then CHR ''-'' # decimal (nat (- i)) else decimal (nat i))"

text \<open>
  The layout: \<open>None\<close> is compact, \<open>Some n\<close> is indented by two blanks per level and stands at level \<open>n\<close>.
  Empty arrays and objects are never broken.
\<close>

type_synonym layout = "nat option"

definition deeper_layout :: "layout \<Rightarrow> layout" where
  "deeper_layout ind = map_option Suc ind"

definition line_break :: "layout \<Rightarrow> string" where
  "line_break ind = (case ind of None \<Rightarrow> [] | Some n \<Rightarrow> CHR 0x0A # replicate (2 * n) (CHR '' ''))"

fun comma_list :: "string list \<Rightarrow> string" where
  "comma_list [] = []"
| "comma_list [i] = i"
| "comma_list (i # j # js) = i @ CHR '','' # comma_list (j # js)"

definition bracketed :: "layout \<Rightarrow> char \<Rightarrow> char \<Rightarrow> string list \<Rightarrow> string" where
  "bracketed ind a b items =
     (if items = [] then [a, b]
      else a # comma_list (map (\<lambda>i. line_break (deeper_layout ind) @ i) items) @ line_break ind @ [b])"

definition print_member :: "layout \<Rightarrow> string \<times> string \<Rightarrow> string" where
  "print_member ind kv = print_string (fst kv) @ CHR '':'' # (if ind = None then [] else '' '') @ snd kv"

primrec print_json :: "json \<Rightarrow> layout \<Rightarrow> string" where
  "print_json JNull ind = ''null''"
| "print_json (JBool b) ind = (if b then ''true'' else ''false'')"
| "print_json (JNum n) ind = n"
| "print_json (JStr s) ind = print_string s"
| "print_json (JArr vs) ind = bracketed ind (CHR ''['') (CHR '']'') (map (\<lambda>v. print_json v (deeper_layout ind)) vs)"
| "print_json (JObj kvs) ind = bracketed ind (CHR ''{'') (CHR ''}'')
     (map (print_member ind) (map (map_prod id (\<lambda>v. print_json v (deeper_layout ind))) kvs))"

section \<open>The parser\<close>

definition json_space :: "char \<Rightarrow> bool" where
  "json_space c \<longleftrightarrow> c = CHR '' '' \<or> c = CHR 0x09 \<or> c = CHR 0x0A \<or> c = CHR 0x0D"

abbreviation skip_ws :: "string \<Rightarrow> string" where
  "skip_ws \<equiv> dropWhile json_space"

definition is_digit :: "char \<Rightarrow> bool" where
  "is_digit c \<longleftrightarrow> code_in 48 57 c"

text \<open>Parts of a numeral: what is read, and the rest.\<close>

definition read_digits :: "string \<Rightarrow> (string \<times> string) option" where
  "read_digits s = (let d = takeWhile is_digit s
     in if d = [] then None else Some (d, dropWhile is_digit s))"

definition read_integer :: "string \<Rightarrow> (string \<times> string) option" where
  "read_integer s = (case s of
       [] \<Rightarrow> None
     | c # r \<Rightarrow> if c = CHR ''0'' then Some ([c], r) else read_digits s)"

definition read_fraction :: "string \<Rightarrow> (string \<times> string) option" where
  "read_fraction s = (case s of
       [] \<Rightarrow> Some ([], s)
     | c # r \<Rightarrow>
         if c = CHR ''.'' then map_option (\<lambda>(d, t). (c # d, t)) (read_digits r) else Some ([], s))"

definition read_exponent :: "string \<Rightarrow> (string \<times> string) option" where
  "read_exponent s = (case s of
       [] \<Rightarrow> Some ([], s)
     | c # r \<Rightarrow>
         if c = CHR ''e'' \<or> c = CHR ''E''
         then (case r of
             [] \<Rightarrow> None
           | g # q \<Rightarrow>
               if g = CHR ''+'' \<or> g = CHR ''-''
               then map_option (\<lambda>(d, t). (c # g # d, t)) (read_digits q)
               else map_option (\<lambda>(d, t). (c # d, t)) (read_digits r))
         else Some ([], s))"

definition read_number :: "string \<Rightarrow> (string \<times> string) option" where
  "read_number s =
     (let (sign, r) = (case s of [] \<Rightarrow> ([], s) | c # q \<Rightarrow> if c = CHR ''-'' then ([c], q) else ([], s))
      in case read_integer r of
          None \<Rightarrow> None
        | Some (a, t) \<Rightarrow> (case read_fraction t of
            None \<Rightarrow> None
          | Some (b, u) \<Rightarrow> (case read_exponent u of
              None \<Rightarrow> None
            | Some (e, w) \<Rightarrow> Some (sign @ a @ b @ e, w))))"

type_synonym 'a reader = "string \<Rightarrow> ('a \<times> string) option"

text \<open>
  The elements of a non-empty array and the members of a non-empty object, up to the closing bracket. The
  comparison of lengths only makes the definitions terminate: a reader consumes what it
  reads (\<open>read_value_shorter\<close>).
\<close>

function read_elems :: "json reader \<Rightarrow> json list reader" where
  "read_elems p s = (case p s of
       None \<Rightarrow> None
     | Some (v, t) \<Rightarrow>
         if length t < length s
         then (case skip_ws t of
             [] \<Rightarrow> None
           | c # r \<Rightarrow>
               if c = CHR '','' then map_option (\<lambda>(vs, w). (v # vs, w)) (read_elems p r)
               else if c = CHR '']'' then Some ([v], r)
               else None)
         else None)"
  by pat_completeness auto

lemma skip_ws_le: "length (skip_ws s) \<le> length s"
  by (rule length_dropWhile_le)

lemma skip_ws_Cons: "skip_ws s = c # r \<Longrightarrow> length r < length s"
  using skip_ws_le[of s] by simp

termination read_elems
  by (relation "measure (length \<circ> snd)") (auto dest!: skip_ws_Cons)

declare read_elems.simps [simp del]

definition read_member :: "json reader \<Rightarrow> (string \<times> json) reader" where
  "read_member p s = (case skip_ws s of
       [] \<Rightarrow> None
     | c # r \<Rightarrow>
         if c = dquote
         then (case unquote r of
             None \<Rightarrow> None
           | Some (k, t) \<Rightarrow> (case skip_ws t of
               [] \<Rightarrow> None
             | d # q \<Rightarrow>
                 if d = CHR '':'' then map_option (\<lambda>(v, w). ((k, v), w)) (p q) else None))
         else None)"

function read_members :: "json reader \<Rightarrow> (string \<times> json) list reader" where
  "read_members p s = (case read_member p s of
       None \<Rightarrow> None
     | Some (kv, t) \<Rightarrow>
         if length t < length s
         then (case skip_ws t of
             [] \<Rightarrow> None
           | c # r \<Rightarrow>
               if c = CHR '','' then map_option (\<lambda>(kvs, w). (kv # kvs, w)) (read_members p r)
               else if c = CHR ''}'' then Some ([kv], r)
               else None)
         else None)"
  by pat_completeness auto

termination read_members
  by (relation "measure (length \<circ> snd)") (auto dest!: skip_ws_Cons)

declare read_members.simps [simp del]

definition read_word :: "string \<Rightarrow> json \<Rightarrow> json reader" where
  "read_word w v s = (if has_prefix s w then Some (v, drop (length w) s) else None)"

text \<open>One value; \<open>inner\<close> reads what it contains, \<open>None\<close> where the nesting is exhausted.\<close>

definition read_one :: "json reader option \<Rightarrow> json reader" where
  "read_one inner s = (case skip_ws s of
       [] \<Rightarrow> None
     | c # r \<Rightarrow>
         if c = dquote then map_option (\<lambda>(u, t). (JStr u, t)) (unquote r)
         else if c = CHR ''n'' then read_word ''null'' JNull (c # r)
         else if c = CHR ''t'' then read_word ''true'' (JBool True) (c # r)
         else if c = CHR ''f'' then read_word ''false'' (JBool False) (c # r)
         else if c = CHR ''['' then (case inner of
             None \<Rightarrow> None
           | Some p \<Rightarrow>
               if has_prefix (skip_ws r) '']'' then Some (JArr [], tl (skip_ws r))
               else map_option (\<lambda>(vs, t). (JArr vs, t)) (read_elems p r))
         else if c = CHR ''{'' then (case inner of
             None \<Rightarrow> None
           | Some p \<Rightarrow>
               if has_prefix (skip_ws r) ''}'' then Some (JObj [], tl (skip_ws r))
               else map_option (\<lambda>(kvs, t). (JObj kvs, t)) (read_members p r))
         else map_option (\<lambda>(n, t). (JNum n, t)) (read_number (c # r)))"

primrec read_value :: "nat \<Rightarrow> json reader" where
  "read_value 0 = read_one None"
| "read_value (Suc d) = read_one (Some (read_value d))"

definition max_nesting :: nat where "max_nesting = 10000"

text \<open>A whole text is one value with white space around it.\<close>

definition parse_json :: "string \<Rightarrow> json option" where
  "parse_json s = (case read_value max_nesting s of
       Some (v, t) \<Rightarrow> if skip_ws t = [] then Some v else None
     | None \<Rightarrow> None)"

section \<open>A reader consumes what it reads\<close>

lemma unquote_shorter: "unquote s = Some (u, t) \<Longrightarrow> length t < length s"
proof (induction s arbitrary: u rule: unquote.induct)
  case (1 s)
  show ?case
  proof (cases s)
    case (Cons c r)
    have len: "length (drop (utf8_len s) s) \<le> length s" by simp
    show ?thesis
      using 1(4) Cons
      apply (subst (asm) unquote.simps)
      apply (auto simp del: utf8_len.simps split: if_splits option.splits prod.splits)
      using 1(1)[OF Cons] 1(2)[OF Cons] 1(3)[OF Cons] unescape_shorter
      apply (fastforce simp del: utf8_len.simps)+
      done
  qed (use 1(4) in \<open>simp add: unquote.simps\<close>)
qed

lemma read_elems_shorter: "read_elems p s = Some (vs, t) \<Longrightarrow> length t < length s"
proof (induction "length s" arbitrary: s vs rule: less_induct)
  case (less s)
  have step: "length t < length s" if "length x < length y" "length y < length s" "read_elems p x = Some (xs, t)"
    for x y :: string and xs
    using less(1)[OF _ that(3)] that(1,2) by simp
  from less(2) show ?case
    unfolding read_elems.simps[of p s]
    by (auto split: option.splits if_splits list.splits dest!: skip_ws_Cons dest: step)
qed

lemma read_members_shorter: "read_members p s = Some (kvs, t) \<Longrightarrow> length t < length s"
proof (induction "length s" arbitrary: s kvs rule: less_induct)
  case (less s)
  have step: "length t < length s" if "length x < length y" "length y < length s" "read_members p x = Some (xs, t)"
    for x y :: string and xs
    using less(1)[OF _ that(3)] that(1,2) by simp
  from less(2) show ?case
    unfolding read_members.simps[of p s]
    by (auto split: option.splits if_splits list.splits dest!: skip_ws_Cons dest: step)
qed

lemma read_digits_shorter: "read_digits s = Some (d, t) \<Longrightarrow> length t < length s"
proof -
  assume "read_digits s = Some (d, t)"
  then have "d \<noteq> []" "takeWhile is_digit s = d" "dropWhile is_digit s = t"
    by (simp_all add: read_digits_def Let_def split: if_splits)
  then have "length d + length t = length s" using takeWhile_dropWhile_id[of is_digit s] by (metis length_append)
  then show ?thesis using \<open>d \<noteq> []\<close> by (cases d) auto
qed

lemma read_number_shorter: "read_number s = Some (n, t) \<Longrightarrow> length t < length s"
proof -
  have i: "length t < length s" if "read_integer s = Some (a, t)" for s a t
    using that by (auto simp: read_integer_def dest!: read_digits_shorter split: list.splits if_splits)
  have f: "length t \<le> length s" if "read_fraction s = Some (a, t)" for s a t
    using that read_digits_shorter
    by (fastforce simp: read_fraction_def split: list.splits if_splits)
  have e: "length t \<le> length s" if "read_exponent s = Some (a, t)" for s a t
    using that by (auto simp: read_exponent_def dest!: read_digits_shorter split: list.splits if_splits)
  show "read_number s = Some (n, t) \<Longrightarrow> length t < length s"
    by (auto simp: read_number_def Let_def split: prod.splits option.splits list.splits if_splits
        dest!: i f e)
qed

lemma read_one_shorter: "read_one inner s = Some (v, t) \<Longrightarrow> length t < length s"
proof (cases "skip_ws s")
  case (Cons c r)
  have "length (c # r) \<le> length s" using skip_ws_le[of s] Cons by simp
  moreover have "length (tl (skip_ws r)) \<le> length r" using skip_ws_le[of r] by simp
  moreover assume "read_one inner s = Some (v, t)"
  ultimately show ?thesis
    by (auto simp: read_one_def Cons read_word_def split: if_splits option.splits
        dest!: unquote_shorter read_elems_shorter read_members_shorter read_number_shorter)
qed (simp add: read_one_def)

lemma read_value_shorter: "read_value d s = Some (v, t) \<Longrightarrow> length t < length s"
  by (cases d) (auto intro: read_one_shorter)

section \<open>Numerals read back\<close>

lemma code_digit: "n < 10 \<Longrightarrow> byte_of (char_of (48 + n)) = 48 + n"
  by (rule code_char_of) simp

lemma code_zero: "byte_of (CHR ''0'') = 48"
  by (simp add: byte_of_def)

lemma is_digit_char: "n < (10 :: nat) \<Longrightarrow> is_digit (char_of (48 + n))"
  by (simp add: is_digit_def code_in_def code_digit)

lemma decimal_digits: "list_all is_digit (decimal n)"
proof (induction n rule: decimal.induct)
  case (1 n)
  then show ?case by (subst decimal.simps) (simp add: is_digit_char)
qed

lemma decimal_head: "\<exists>c r. decimal n = c # r \<and> is_digit c \<and> (c = CHR ''0'' \<longleftrightarrow> n = 0)"
proof (induction n rule: decimal.induct)
  case (1 n)
  show ?case
  proof (cases "n < 10")
    case True
    have "char_of (48 + n) = CHR ''0'' \<longleftrightarrow> n = 0"
      using code_digit[OF True] code_zero char_of_code[of "CHR ''0''"] by auto
    then show ?thesis using True is_digit_char[OF True] by (subst decimal.simps) simp
  next
    case False
    then have "n div 10 \<noteq> 0" by simp
    then show ?thesis using 1[OF False] False by (subst decimal.simps) auto
  qed
qed

text \<open>What can follow a value.\<close>

definition value_end :: "string \<Rightarrow> bool" where
  "value_end s \<longleftrightarrow> s = [] \<or> hd s \<in> {CHR '','', CHR '']'', CHR ''}'', CHR 0x0A}"

lemma value_endE:
  assumes "value_end s"
  shows "dropWhile is_digit s = s" and "takeWhile is_digit s = []"
    and "read_fraction s = Some ([], s)" and "read_exponent s = Some ([], s)"
  using assms
  by (cases s; auto simp: value_end_def is_digit_def code_in_def byte_of_def read_fraction_def read_exponent_def)+

lemma read_decimal:
  assumes "value_end t"
  shows "read_integer (decimal n @ t) = Some (decimal n, t)"
proof (cases "n = 0")
  case True
  have "decimal 0 = ''0''" by (simp add: decimal.simps char_of_eq_iff)
  then show ?thesis by (simp add: read_integer_def True)
next
  case False
  obtain c r where c: "decimal n = c # r" "is_digit c" "c \<noteq> CHR ''0''" using decimal_head[of n] False by auto
  have "takeWhile is_digit (decimal n @ t) = decimal n" "dropWhile is_digit (decimal n @ t) = t"
    using decimal_digits[of n] value_endE[OF assms] by (simp_all add: list_all_iff)
  then have "read_digits (decimal n @ t) = Some (decimal n, t)" by (simp add: read_digits_def Let_def c)
  then show ?thesis using c by (simp add: read_integer_def)
qed

lemma read_show_int:
  assumes "value_end t"
  shows "read_number (show_int i @ t) = Some (show_int i, t)"
proof -
  have minus: "c \<noteq> CHR ''-''" if "is_digit c" for c
    using that by (auto simp: is_digit_def code_in_def byte_of_def)
  obtain c r where c: "decimal (nat i) = c # r" "is_digit c" using decimal_head[of "nat i"] by auto
  show ?thesis
    using read_decimal[OF assms, of "nat i"] read_decimal[OF assms, of "nat (- i)"] c minus[OF c(2)]
    by (auto simp: show_int_def read_number_def Let_def value_endE[OF assms])
qed

lemma show_int_head: "\<exists>c r. show_int i = c # r \<and> (is_digit c \<or> c = CHR ''-'')"
  using decimal_head[of "nat i"] by (auto simp: show_int_def)

section \<open>Values read back\<close>

text \<open>What can be printed, how deep it nests, and what comes back: every string made valid.\<close>

primrec json_ok :: "json \<Rightarrow> bool" where
  "json_ok JNull \<longleftrightarrow> True"
| "json_ok (JBool b) \<longleftrightarrow> True"
| "json_ok (JNum n) \<longleftrightarrow> n \<in> range show_int"
| "json_ok (JStr s) \<longleftrightarrow> True"
| "json_ok (JArr vs) \<longleftrightarrow> list_all id (map json_ok vs)"
| "json_ok (JObj kvs) \<longleftrightarrow> list_all snd (map (map_prod id json_ok) kvs)"

primrec nesting :: "json \<Rightarrow> nat" where
  "nesting JNull = 0"
| "nesting (JBool b) = 0"
| "nesting (JNum n) = 0"
| "nesting (JStr s) = 0"
| "nesting (JArr vs) = Suc (fold max (map nesting vs) 0)"
| "nesting (JObj kvs) = Suc (fold max (map snd (map (map_prod id nesting) kvs)) 0)"

primrec cleaned :: "json \<Rightarrow> json" where
  "cleaned JNull = JNull"
| "cleaned (JBool b) = JBool b"
| "cleaned (JNum n) = JNum n"
| "cleaned (JStr s) = JStr (to_valid s)"
| "cleaned (JArr vs) = JArr (map cleaned vs)"
| "cleaned (JObj kvs) = JObj (map (map_prod to_valid cleaned) kvs)"

lemma fold_max_le: "x \<in> set xs \<Longrightarrow> x \<le> fold max xs (a :: nat)"
proof -
  assume "x \<in> set xs"
  then have "x \<le> Max (set (a # xs))" by simp
  then show ?thesis by (simp only: Max.set_eq_fold)
qed

lemma nesting_elem: "v \<in> set vs \<Longrightarrow> nesting v < nesting (JArr vs)"
  using fold_max_le[of "nesting v" "map nesting vs" 0] by simp

lemma nesting_member: "(k, v) \<in> set kvs \<Longrightarrow> nesting v < nesting (JObj kvs)"
  using fold_max_le[of "nesting v" "map snd (map (map_prod id nesting) kvs)" 0] by (force simp: image_image)

lemma skip_line [simp]: "skip_ws (line_break ind @ s) = skip_ws s"
proof -
  have "skip_ws (replicate n (CHR '' '') @ s) = skip_ws s" for n
    by (induction n) (auto simp: json_space_def)
  then show ?thesis by (auto simp: line_break_def json_space_def split: option.splits)
qed

lemma value_end_marks [simp]:
  "value_end []" "value_end (CHR '','' # s)" "value_end (CHR '']'' # s)" "value_end (CHR ''}'' # s)"
  "value_end (CHR 0x0A # s)"
  by (simp_all add: value_end_def)

lemma value_end_line: "value_end s \<Longrightarrow> value_end (line_break ind @ s)"
  by (cases ind) (simp_all add: line_break_def)

lemma read_one_skip: "skip_ws s = skip_ws s' \<Longrightarrow> read_one inner s = read_one inner s'"
  by (simp add: read_one_def)

lemma read_value_skip: "skip_ws s = skip_ws s' \<Longrightarrow> read_value d s = read_value d s'"
  by (cases d) (simp_all only: read_value.simps, (rule read_one_skip, assumption)+)

text \<open>The readers of sequences, against any reader of the members that skips white space and consumes.\<close>

definition reads_as :: "json reader \<Rightarrow> string \<Rightarrow> json \<Rightarrow> bool" where
  "reads_as p s v \<longleftrightarrow> (\<forall>t. value_end t \<longrightarrow> p (s @ t) = Some (v, t))"

definition proper_reader :: "json reader \<Rightarrow> bool" where
  "proper_reader p \<longleftrightarrow> (\<forall>s s'. skip_ws s = skip_ws s' \<longrightarrow> p s = p s') \<and>
     (\<forall>s v t. p s = Some (v, t) \<longrightarrow> length t < length s)"

lemma proper_read_value: "proper_reader (read_value d)"
  unfolding proper_reader_def
  by (intro conjI allI impI) (rule read_value_skip, assumption, rule read_value_shorter, assumption)

lemma proper_skip: "proper_reader p \<Longrightarrow> skip_ws s = skip_ws s' \<Longrightarrow> p s = p s'"
  unfolding proper_reader_def by blast

lemma proper_shorter: "proper_reader p \<Longrightarrow> p s = Some (v, t) \<Longrightarrow> length t < length s"
  unfolding proper_reader_def by blast

lemma reads_elem:
  assumes "proper_reader p" and "reads_as p s v" and "value_end t"
  shows "p (line_break i @ s @ t) = Some (v, t)" and "length t < length (line_break i @ s @ t)"
proof -
  have "p (line_break i @ s @ t) = p (s @ t)" by (rule proper_skip[OF assms(1)]) simp
  then show *: "p (line_break i @ s @ t) = Some (v, t)" using assms(2,3) by (simp add: reads_as_def)
  show "length t < length (line_break i @ s @ t)" by (rule proper_shorter[OF assms(1) *])
qed

lemma read_elems_commas:
  assumes p: "proper_reader p" and "vs \<noteq> []" and "\<And>v. v \<in> set vs \<Longrightarrow> reads_as p (f v) (g v)"
  shows "read_elems p (comma_list (map (\<lambda>v. line_break i @ f v) vs) @ line_break j @ CHR '']'' # t) = Some (map g vs, t)"
  using assms(2,3)
proof (induction vs rule: list_nonempty_induct)
  case (single v)
  then show ?case
    using reads_elem[OF p single(1)[of v], of "line_break j @ CHR '']'' # t" i]
    by (subst read_elems.simps) (simp add: value_end_line json_space_def)
next
  case (cons v vs)
  obtain w ws where vs: "vs = w # ws" using cons(1) by (cases vs) auto
  let ?r = "comma_list (map (\<lambda>v. line_break i @ f v) vs) @ line_break j @ CHR '']'' # t"
  have "read_elems p ?r = Some (map g vs, t)" by (rule cons(2)) (rule cons(3), simp)
  then show ?case
    using reads_elem[OF p cons(3)[of v], of "CHR '','' # ?r" i] unfolding vs
    by (subst read_elems.simps) (simp add: json_space_def)
qed

lemma quote_space: "\<not> json_space dquote" "\<not> json_space (CHR '':'')"
  by (simp_all add: dquote_def json_space_def)

lemma read_print_member:
  assumes "proper_reader p" and "reads_as p s v" and "value_end t"
  shows "read_member p (line_break i @ print_member ind (k, s) @ t) = Some ((to_valid k, v), t)"
proof -
  let ?gap = "if ind = None then [] else '' ''"
  have eq: "line_break i @ print_member ind (k, s) @ t = line_break i @ dquote # json_escape k @ dquote # CHR '':'' # ?gap @ s @ t"
    by (simp add: print_member_def print_string_def)
  have "p (?gap @ s @ t) = p (s @ t)" by (rule proper_skip[OF assms(1)]) (simp add: json_space_def)
  then have "p (?gap @ s @ t) = Some (v, t)" using assms(2,3) by (simp add: reads_as_def)
  then show ?thesis unfolding eq by (simp add: read_member_def quote_space unquote_escape)
qed

lemma read_members_commas:
  assumes p: "proper_reader p" and "kvs \<noteq> []" and "\<And>k v. (k, v) \<in> set kvs \<Longrightarrow> reads_as p (f v) (g v)"
  shows "read_members p (comma_list (map (\<lambda>kv. line_break i @ print_member ind (map_prod id f kv)) kvs) @ line_break j @ CHR ''}'' # t) =
    Some (map (map_prod to_valid g) kvs, t)"
  using assms(2,3)
proof (induction kvs rule: list_nonempty_induct)
  case (single kv)
  obtain k v where kv: "kv = (k, v)" by force
  show ?case
    using read_print_member[OF p single(1)[of k v], of "line_break j @ CHR ''}'' # t" i ind k] kv
    by (subst read_members.simps) (simp add: value_end_line json_space_def print_member_def)
next
  case (cons kv kvs)
  obtain k v where kv: "kv = (k, v)" by force
  obtain w ws where vs: "kvs = w # ws" using cons(1) by (cases kvs) auto
  let ?r = "comma_list (map (\<lambda>kv. line_break i @ print_member ind (map_prod id f kv)) kvs) @ line_break j @ CHR ''}'' # t"
  have "read_members p ?r = Some (map (map_prod to_valid g) kvs, t)"
    by (rule cons(2)) (rule cons(3), rule list.set_intros(2))
  then show ?case
    using read_print_member[OF p cons(3)[of k v], of "CHR '','' # ?r" i ind k] kv unfolding vs
    by (subst read_members.simps) (simp add: json_space_def print_member_def)
qed

lemma commas_Cons: "\<exists>r. comma_list (i # js) = i @ r"
  by (cases js) auto

text \<open>What the parser skips before a closing bracket is not there when there is an element.\<close>

definition opens_value :: "string \<Rightarrow> bool" where
  "opens_value s \<longleftrightarrow> s \<noteq> [] \<and> \<not> json_space (hd s) \<and> hd s \<noteq> CHR '']'' \<and> hd s \<noteq> CHR ''}''"

lemma opens_append: "opens_value s \<Longrightarrow> skip_ws (s @ t) = s @ t \<and> opens_value (s @ t)"
  by (cases s) (auto simp: opens_value_def)

lemma digit_marks:
  assumes "is_digit c \<or> c = CHR ''-''"
  shows "\<not> json_space c" "c \<noteq> dquote" "c \<noteq> CHR ''n''" "c \<noteq> CHR ''t''" "c \<noteq> CHR ''f''"
    "c \<noteq> CHR ''[''" "c \<noteq> CHR ''{''" "c \<noteq> CHR '']''" "c \<noteq> CHR ''}''"
  using assms by (auto simp: is_digit_def code_in_def byte_of_def json_space_def dquote_def)

lemma print_opens: "json_ok v \<Longrightarrow> opens_value (print_json v ind)"
proof (cases v)
  case (JNum n)
  assume "json_ok v"
  then obtain i where n: "n = show_int i" by (auto simp: JNum)
  obtain c r where "show_int i = c # r" "is_digit c \<or> c = CHR ''-''" using show_int_head by blast
  then show ?thesis using digit_marks[of c] by (simp add: JNum n opens_value_def)
qed (auto simp: opens_value_def json_space_def print_string_def dquote_def bracketed_def)

lemma opens_not_closing:
  assumes "opens_value s"
  shows "\<not> has_prefix (skip_ws (line_break i @ s @ t)) '']''" "\<not> has_prefix (skip_ws (line_break i @ s @ t)) ''}''"
  using opens_append[OF assms, of t] by (cases "s @ t"; auto simp: opens_value_def has_prefix_def)+

lemma read_array:
  assumes "proper_reader p" and "vs \<noteq> []" and "\<And>v. v \<in> set vs \<Longrightarrow> opens_value (f v) \<and> reads_as p (f v) (g v)"
  shows "reads_as (read_one (Some p)) (bracketed ind (CHR ''['') (CHR '']'') (map f vs)) (JArr (map g vs))"
  unfolding reads_as_def
proof (intro allI impI)
  fix t
  obtain v ws where vs: "vs = v # ws" using assms(2) by (cases vs) auto
  let ?r = "comma_list (map (\<lambda>v. line_break (deeper_layout ind) @ f v) vs) @ line_break ind @ CHR '']'' # t"
  have eq: "bracketed ind (CHR ''['') (CHR '']'') (map f vs) @ t = CHR ''['' # ?r"
    using assms(2) by (simp add: bracketed_def comp_def)
  obtain q where q: "comma_list (map (\<lambda>v. line_break (deeper_layout ind) @ f v) vs) = (line_break (deeper_layout ind) @ f v) @ q"
    using commas_Cons[of "line_break (deeper_layout ind) @ f v"] unfolding vs list.map(2) by blast
  have first: "\<not> has_prefix (skip_ws ?r) '']''"
    using opens_not_closing(1)[of "f v" "deeper_layout ind" "q @ line_break ind @ CHR '']'' # t"] assms(3)[of v] unfolding q
    by (simp add: vs)
  have elems: "read_elems p ?r = Some (map g vs, t)"
    by (rule read_elems_commas[OF assms(1,2)]) (use assms(3) in blast)
  have "\<not> json_space (CHR ''['')" "CHR ''['' \<noteq> dquote" by (simp_all add: json_space_def dquote_def)
  then have "read_one (Some p) (CHR ''['' # ?r) = map_option (\<lambda>(vs, t). (JArr vs, t)) (read_elems p ?r)"
    unfolding read_one_def using first by simp
  then show "read_one (Some p) (bracketed ind (CHR ''['') (CHR '']'') (map f vs) @ t) = Some (JArr (map g vs), t)"
    unfolding eq elems by simp
qed

lemma read_object:
  assumes "proper_reader p" and "kvs \<noteq> []" and "\<And>k v. (k, v) \<in> set kvs \<Longrightarrow> reads_as p (f v) (g v)"
  shows "reads_as (read_one (Some p))
    (bracketed ind (CHR ''{'') (CHR ''}'') (map (print_member ind) (map (map_prod id f) kvs)))
    (JObj (map (map_prod to_valid g) kvs))"
  unfolding reads_as_def
proof (intro allI impI)
  fix t
  obtain kv ws where vs: "kvs = kv # ws" using assms(2) by (cases kvs) auto
  let ?m = "\<lambda>kv. line_break (deeper_layout ind) @ print_member ind (map_prod id f kv)"
  let ?r = "comma_list (map ?m kvs) @ line_break ind @ CHR ''}'' # t"
  have eq: "bracketed ind (CHR ''{'') (CHR ''}'') (map (print_member ind) (map (map_prod id f) kvs)) @ t = CHR ''{'' # ?r"
    using assms(2) by (simp add: bracketed_def comp_def)
  obtain q where q: "comma_list (map ?m kvs) = ?m kv @ q"
    using commas_Cons[of "?m kv"] unfolding vs list.map(2) by blast
  have first: "\<not> has_prefix (skip_ws ?r) ''}''"
    unfolding q by (simp add: print_member_def print_string_def quote_space has_prefix_def) (simp add: dquote_def)
  have elems: "read_members p ?r = Some (map (map_prod to_valid g) kvs, t)"
    by (rule read_members_commas[OF assms(1,2)]) (use assms(3) in blast)
  have "\<not> json_space (CHR ''{'')" "CHR ''{'' \<noteq> dquote" by (simp_all add: json_space_def dquote_def)
  then have "read_one (Some p) (CHR ''{'' # ?r) = map_option (\<lambda>(kvs, t). (JObj kvs, t)) (read_members p ?r)"
    unfolding read_one_def using first by simp
  then show "read_one (Some p)
      (bracketed ind (CHR ''{'') (CHR ''}'') (map (print_member ind) (map (map_prod id f) kvs)) @ t) =
      Some (JObj (map (map_prod to_valid g) kvs), t)"
    unfolding eq elems by simp
qed

lemma read_empty:
  "reads_as (read_one (Some p)) ''[]'' (JArr [])" "reads_as (read_one (Some p)) ''{}'' (JObj [])"
  by (simp_all add: reads_as_def read_one_def json_space_def dquote_def has_prefix_def)

lemma read_scalar:
  "reads_as (read_one inner) ''null'' JNull"
  "reads_as (read_one inner) ''true'' (JBool True)"
  "reads_as (read_one inner) ''false'' (JBool False)"
  "reads_as (read_one inner) (print_string s) (JStr (to_valid s))"
  "reads_as (read_one inner) (show_int i) (JNum (show_int i))"
proof -
  obtain c r where c: "show_int i = c # r" "is_digit c \<or> c = CHR ''-''" using show_int_head by blast
  show "reads_as (read_one inner) (show_int i) (JNum (show_int i))"
    using read_show_int[of _ i] digit_marks[OF c(2)] by (simp add: reads_as_def read_one_def c(1))
  show "reads_as (read_one inner) (print_string s) (JStr (to_valid s))"
    by (simp add: reads_as_def read_one_def print_string_def quote_space unquote_escape)
qed (simp_all add: reads_as_def read_one_def read_word_def json_space_def dquote_def has_prefix_def)

lemma read_print:
  "json_ok v \<Longrightarrow> nesting v \<le> d \<Longrightarrow> reads_as (read_value d) (print_json v ind) (cleaned v)"
proof (induction v arbitrary: d ind)
  case (JArr vs)
  obtain e where d: "d = Suc e" using JArr.prems(2) by (cases d) auto
  show ?case
  proof (cases "vs = []")
    case False
    have "opens_value (print_json v (deeper_layout ind)) \<and> reads_as (read_value e) (print_json v (deeper_layout ind)) (cleaned v)"
      if "v \<in> set vs" for v
    proof -
      have "json_ok v" "nesting v \<le> e"
        using that JArr.prems nesting_elem[OF that] unfolding d by (auto simp: list_all_iff)
      then show ?thesis using JArr.IH[OF that] print_opens by blast
    qed
    then show ?thesis
      unfolding d read_value.simps print_json.simps cleaned.simps by (rule read_array[OF proper_read_value False])
  qed (simp add: d bracketed_def read_empty)
next
  case (JObj kvs)
  obtain e where d: "d = Suc e" using JObj.prems(2) by (cases d) auto
  show ?case
  proof (cases "kvs = []")
    case False
    have "reads_as (read_value e) (print_json v (deeper_layout ind)) (cleaned v)" if "(k, v) \<in> set kvs" for k v
    proof -
      have "json_ok v" "nesting v \<le> e"
        using that JObj.prems nesting_member[OF that] unfolding d by (force simp: list_all_iff)+
      then show ?thesis using JObj.IH[OF that] by simp
    qed
    then show ?thesis
      unfolding d read_value.simps print_json.simps cleaned.simps by (rule read_object[OF proper_read_value False])
  qed (simp add: d bracketed_def read_empty)
next
  case (JNum n)
  then obtain i where "n = show_int i" by auto
  then show ?case by (cases d) (simp_all add: read_scalar)
next
  case (JBool b)
  then show ?case by (cases d; cases b) (simp_all add: read_scalar)
next
  case JNull
  then show ?case by (cases d) (simp_all add: read_scalar)
next
  case (JStr s)
  then show ?case by (cases d) (simp_all add: read_scalar)
qed

text \<open>
  Every value that the printer writes, compact or indented, with white space around it, is read back as
  the value with its strings made valid UTF-8, as long as it is not nested deeper_layout than the
  parser goes.
\<close>
theorem parse_print_json:
  assumes "json_ok v" and "nesting v \<le> max_nesting" and "list_all json_space a" and "list_all json_space z"
    and "z = [] \<or> hd z = CHR 0x0A"
  shows "parse_json (a @ print_json v ind @ z) = Some (cleaned v)"
proof -
  have "value_end z" using assms(5) by (auto simp: value_end_def)
  then have "read_value max_nesting (print_json v ind @ z) = Some (cleaned v, z)"
    using read_print[OF assms(1,2), of ind] by (simp add: reads_as_def)
  moreover have "skip_ws (a @ print_json v ind @ z) = skip_ws (print_json v ind @ z)" "skip_ws z = []"
    using assms(3,4) by (simp_all add: dropWhile_append list_all_iff)
  ultimately show ?thesis using read_value_skip[of "a @ print_json v ind @ z"] by (simp add: parse_json_def)
qed

end
