(* ===== verification/Json_Codec.thy ===== *)
theory Json_Codec
  imports Json_Values Telemetry
begin

text \<open>
  How log records travel: \<open>json.Marshal\<close> of a \<open>LogRecordV2\<close> with the tags of \<open>log_v2_gen.go\<close> on the server,
  \<open>json.Unmarshal\<close> on the client, and the text of a manifest (\<open>Manifest.JSON\<close> in
  \<open>platform/contracts/contracts.go\<close>). Two parts of the standard library are arguments: the text of a
  time with its reader (\<open>ft\<close>, \<open>pt\<close>), and the value of a numeral (\<open>num\<close>; no value when it is
  out of range), an \<open>AnyInt\<close> where the number is an integer.
\<close>

section \<open>Values of type any\<close>

primrec any_json :: "any \<Rightarrow> json" where
  "any_json AnyNil = JNull"
| "any_json (AnyBool b) = JBool b"
| "any_json (AnyInt i) = JNum (show_int i)"
| "any_json (AnyString s) = JStr s"
| "any_json (AnyList vs) = JArr (map any_json vs)"
| "any_json (AnyMap es) = JObj (sorted_entries (map (map_prod id any_json) es))"

text \<open>A later member replaces an earlier one of the same name.\<close>

definition put_all :: "('k \<times> 'v) list \<Rightarrow> ('k, 'v) gomap \<Rightarrow> ('k, 'v) gomap" where
  "put_all es m = foldl (\<lambda>m (k, v). go_put k v m) m es"

definition canonical_entries :: "(string \<times> 'v) list \<Rightarrow> (string \<times> 'v) list" where
  "canonical_entries es = sorted_entries (put_all es [])"

definition those_snd :: "('k \<times> 'v option) list \<Rightarrow> ('k \<times> 'v) list option" where
  "those_snd es = those (map (\<lambda>(k, v). map_option (Pair k) v) es)"

primrec json_any :: "(string \<Rightarrow> any option) \<Rightarrow> json \<Rightarrow> any option" where
  "json_any num JNull = Some AnyNil"
| "json_any num (JBool b) = Some (AnyBool b)"
| "json_any num (JNum n) = num n"
| "json_any num (JStr s) = Some (AnyString s)"
| "json_any num (JArr vs) = map_option AnyList (those (map (json_any num) vs))"
| "json_any num (JObj kvs) =
     map_option (\<lambda>es. AnyMap (canonical_entries es)) (those_snd (map (map_prod id (json_any num)) kvs))"

section \<open>Records\<close>

definition omit_empty :: "string \<Rightarrow> string \<Rightarrow> (string \<times> json) list" where
  "omit_empty name s = (if s = [] then [] else [(name, JStr s)])"

definition omit_empty_map :: "string \<Rightarrow> any_map \<Rightarrow> (string \<times> json) list" where
  "omit_empty_map name m = (case m of
       None \<Rightarrow> []
     | Some es \<Rightarrow> if es = [] then [] else [(name, any_json (AnyMap es))])"

text \<open>A record can not be encoded when its time can not.\<close>

definition record_json :: "(gotime \<Rightarrow> string option) \<Rightarrow> log_record_v2 \<Rightarrow> json option" where
  "record_json ft r = map_option (\<lambda>ts. JObj
     ([(''time'', JStr ts), (''level'', JNum (show_int (l_Level r))),
       (''kernel_id'', JStr (l_KernelID r)), (''scope'', JStr (l_Scope r))] @
      omit_empty ''component'' (l_Component r) @ omit_empty ''trace'' (l_Trace r) @
      [(''message'', JStr (l_Message r))] @ omit_empty_map ''fields'' (l_Fields r))) (ft (l_Time r))"

text \<open>The error of \<open>Marshal\<close> is ignored: nothing is written then.\<close>

definition encode_record :: "(gotime \<Rightarrow> string option) \<Rightarrow> log_record_v2 \<Rightarrow> string" where
  "encode_record ft r = (case record_json ft r of Some j \<Rightarrow> print_json j None | None \<Rightarrow> [])"

text \<open>An integer field takes a numeral without fraction and exponent that fits 64 bits.\<close>

definition digits_value :: "string \<Rightarrow> nat" where
  "digits_value s = foldl (\<lambda>n c. 10 * n + (byte_of c - 48)) 0 s"

definition parse_int :: "string \<Rightarrow> int option" where
  "parse_int s =
     (let (neg, d) = (case s of [] \<Rightarrow> (False, []) | c # r \<Rightarrow> if c = CHR ''-'' then (True, r) else (False, s));
          i = (if neg then - int (digits_value d) else int (digits_value d))
      in if d \<noteq> [] \<and> list_all is_digit d \<and> in_int64 i then Some i else None)"

definition set_string :: "(string \<Rightarrow> log_record_v2 \<Rightarrow> log_record_v2) \<Rightarrow> json \<Rightarrow> log_record_v2 \<Rightarrow> log_record_v2 option" where
  "set_string f v r = (case v of JStr s \<Rightarrow> Some (f s r) | JNull \<Rightarrow> Some r | _ \<Rightarrow> None)"

text \<open>One member of the object; an unknown name is skipped, \<open>null\<close> changes nothing but a map.\<close>

definition set_member ::
  "(string \<Rightarrow> gotime option) \<Rightarrow> (string \<Rightarrow> any option) \<Rightarrow> string \<times> json \<Rightarrow> log_record_v2 \<Rightarrow> log_record_v2 option" where
  "set_member pt num kv r = (case kv of (name, v) \<Rightarrow> (let k = json_fold name in
     if k = ''TIME'' then (case v of
         JStr s \<Rightarrow> map_option (\<lambda>t. r\<lparr>l_Time := t\<rparr>) (pt s)
       | JNull \<Rightarrow> Some r
       | _ \<Rightarrow> None)
     else if k = ''LEVEL'' then (case v of
         JNum n \<Rightarrow> map_option (\<lambda>i. r\<lparr>l_Level := i\<rparr>) (parse_int n)
       | JNull \<Rightarrow> Some r
       | _ \<Rightarrow> None)
     else if k = ''KERNEL_ID'' then set_string (\<lambda>s r. r\<lparr>l_KernelID := s\<rparr>) v r
     else if k = ''SCOPE'' then set_string (\<lambda>s r. r\<lparr>l_Scope := s\<rparr>) v r
     else if k = ''COMPONENT'' then set_string (\<lambda>s r. r\<lparr>l_Component := s\<rparr>) v r
     else if k = ''TRACE'' then set_string (\<lambda>s r. r\<lparr>l_Trace := s\<rparr>) v r
     else if k = ''MESSAGE'' then set_string (\<lambda>s r. r\<lparr>l_Message := s\<rparr>) v r
     else if k = ''FIELDS'' then (case v of
         JObj kvs \<Rightarrow> map_option
           (\<lambda>es. r\<lparr>l_Fields := Some (put_all es (case l_Fields r of Some m \<Rightarrow> m | None \<Rightarrow> []))\<rparr>)
           (those_snd (map (map_prod id (json_any num)) kvs))
       | JNull \<Rightarrow> Some (r\<lparr>l_Fields := None\<rparr>)
       | _ \<Rightarrow> None)
     else Some r))"

fun set_members ::
  "(string \<Rightarrow> gotime option) \<Rightarrow> (string \<Rightarrow> any option) \<Rightarrow> (string \<times> json) list \<Rightarrow> log_record_v2 \<Rightarrow> log_record_v2 option" where
  "set_members pt num [] r = Some r"
| "set_members pt num (kv # kvs) r = Option.bind (set_member pt num kv r) (set_members pt num kvs)"

definition decode_record ::
  "(string \<Rightarrow> gotime option) \<Rightarrow> (string \<Rightarrow> any option) \<Rightarrow> string \<Rightarrow> log_record_v2 option" where
  "decode_record pt num s = (case parse_json s of
       Some (JObj kvs) \<Rightarrow> set_members pt num kvs zero_record
     | Some JNull \<Rightarrow> Some zero_record
     | _ \<Rightarrow> None)"

text \<open>The greeting of the log stream: a map of two strings.\<close>

definition hello_text :: "int \<Rightarrow> string" where
  "hello_text unix = print_json (JObj (sorted_entries [(''status'', JStr ''ok''), (''ts'', JStr (show_int unix))])) None"

section \<open>The fields in the line of a record\<close>

text \<open>\<open>printLog\<close>: compact, or read back and indented; the compact text stays when it can not be read.\<close>

definition fields_text :: "(string \<Rightarrow> any option) \<Rightarrow> bool \<Rightarrow> any_map \<Rightarrow> string" where
  "fields_text num pretty flds =
     (let b = print_json (case flds of None \<Rightarrow> JNull | Some es \<Rightarrow> any_json (AnyMap es)) None
      in if pretty
         then (case Option.bind (parse_json b) (json_any num) of
             Some j \<Rightarrow> print_json (any_json j) (Some 0)
           | None \<Rightarrow> b)
         else b)"

section \<open>The text of a manifest\<close>

definition manifest_json :: "manifest \<Rightarrow> json" where
  "manifest_json m = JObj
     ([(''kernel_id'', JStr (m_KernelID m)), (''version'', JStr (m_Version m)), (''scope'', JStr (m_Scope m))] @
      (case m_Features m of
         None \<Rightarrow> []
       | Some fs \<Rightarrow> if fs = [] then [] else [(''features'', JArr (map JStr fs))]) @
      omit_empty_map ''requires'' (m_Requires m) @ omit_empty_map ''resources'' (m_Resources m) @
      omit_empty_map ''security'' (m_Security m) @ omit_empty_map ''compat'' (m_Compat m))"

definition manifest_text :: "manifest \<Rightarrow> string" where
  "manifest_text m = print_json (manifest_json m) (Some 0)"

section \<open>What arrives\<close>

text \<open>Strings are made valid UTF-8; keys are, after sorting, and of two that become equal the later stays.\<close>

definition valid_keys :: "(string \<times> 'v) list \<Rightarrow> (string \<times> 'v) list" where
  "valid_keys es = map (map_prod to_valid id) (sorted_entries es)"

primrec wire_any :: "any \<Rightarrow> any" where
  "wire_any AnyNil = AnyNil"
| "wire_any (AnyBool b) = AnyBool b"
| "wire_any (AnyInt i) = AnyInt i"
| "wire_any (AnyString s) = AnyString (to_valid s)"
| "wire_any (AnyList vs) = AnyList (map wire_any vs)"
| "wire_any (AnyMap es) = AnyMap (canonical_entries (valid_keys (map (map_prod id wire_any) es)))"

definition wire_fields :: "any_map \<Rightarrow> any_map" where
  "wire_fields m = (case m of
       None \<Rightarrow> None
     | Some es \<Rightarrow> if es = [] then None else Some (put_all (valid_keys (map (map_prod id wire_any) es)) []))"

definition wire_record :: "log_record_v2 \<Rightarrow> log_record_v2" where
  "wire_record r = r\<lparr>l_KernelID := to_valid (l_KernelID r), l_Scope := to_valid (l_Scope r),
     l_Component := to_valid (l_Component r), l_Trace := to_valid (l_Trace r),
     l_Message := to_valid (l_Message r), l_Fields := wire_fields (l_Fields r)\<rparr>"

text \<open>The numbers that come back as themselves, and values the parser's nesting is enough for.\<close>

primrec exact_numbers :: "(string \<Rightarrow> any option) \<Rightarrow> any \<Rightarrow> bool" where
  "exact_numbers num AnyNil \<longleftrightarrow> True"
| "exact_numbers num (AnyBool b) \<longleftrightarrow> True"
| "exact_numbers num (AnyInt i) \<longleftrightarrow> num (show_int i) = Some (AnyInt i)"
| "exact_numbers num (AnyString s) \<longleftrightarrow> True"
| "exact_numbers num (AnyList vs) \<longleftrightarrow> list_all id (map (exact_numbers num) vs)"
| "exact_numbers num (AnyMap es) \<longleftrightarrow> list_all snd (map (map_prod id (exact_numbers num)) es)"

definition fields_fit :: "(string \<Rightarrow> any option) \<Rightarrow> any_map \<Rightarrow> bool" where
  "fields_fit num m \<longleftrightarrow> (case m of
       None \<Rightarrow> True
     | Some es \<Rightarrow> exact_numbers num (AnyMap es) \<and> nesting (any_json (AnyMap es)) < max_nesting)"

section \<open>Sequences of entries\<close>

lemma insort_map_prod:
  "insort_key fst (map_prod id f x) (map (map_prod id f) xs) = map (map_prod id f) (insort_key fst x xs)"
  by (induction xs) auto

lemma sorted_entries_map: "sorted_entries (map (map_prod id f) es) = map (map_prod id f) (sorted_entries es)"
  unfolding sorted_entries_def by (induction es) (simp_all only: list.map sort_key_simps insort_map_prod)

lemma set_sorted_entries [simp]: "set (sorted_entries es) = set es"
  by (simp add: sorted_entries_def)

lemma sorted_entries_Nil [simp]: "sorted_entries es = [] \<longleftrightarrow> es = []"
  by (metis set_empty set_sorted_entries)

lemma those_map: "(\<And>x. x \<in> set xs \<Longrightarrow> f x = Some (g x)) \<Longrightarrow> those (map f xs) = Some (map g xs)"
  by (induction xs) auto

lemma those_snd_map:
  assumes "\<And>k v. (k, v) \<in> set es \<Longrightarrow> h (f v) = Some (g v)"
  shows "those_snd (map (map_prod id h) (map (map_prod key f) (sorted_entries es))) =
    Some (map (map_prod key g) (sorted_entries es))"
  unfolding those_snd_def map_map by (rule those_map) (use assms in force)

lemma json_ok_any: "json_ok (any_json v)"
proof (induction v)
  case (AnyList vs)
  then show ?case by (simp add: list_all_iff)
next
  case (AnyMap es)
  then show ?case by (force simp: list_all_iff)
qed auto

lemma those_entries:
  assumes "\<And>k v. (k, v) \<in> set es \<Longrightarrow> json_any num (cleaned (any_json v)) = Some (wire_any v)"
  shows "those_snd (map (map_prod id (json_any num))
      (map (map_prod to_valid cleaned) (sorted_entries (map (map_prod id any_json) es)))) =
    Some (valid_keys (map (map_prod id wire_any) es))"
proof -
  have "map (map_prod to_valid cleaned) (sorted_entries (map (map_prod id any_json) es)) =
      map (map_prod to_valid (\<lambda>v. cleaned (any_json v))) (sorted_entries es)"
    unfolding sorted_entries_map by (simp add: map_prod_def prod.case_eq_if)
  moreover have "valid_keys (map (map_prod id wire_any) es) = map (map_prod to_valid wire_any) (sorted_entries es)"
    unfolding valid_keys_def sorted_entries_map by (simp add: map_prod_def prod.case_eq_if)
  ultimately show ?thesis using those_snd_map[of es "json_any num" _ wire_any to_valid] assms by metis
qed

lemma json_any_wire: "exact_numbers num v \<Longrightarrow> json_any num (cleaned (any_json v)) = Some (wire_any v)"
proof (induction v)
  case (AnyList vs)
  have "those (map (json_any num) (map cleaned (map any_json vs))) = Some (map wire_any vs)"
    unfolding map_map by (rule those_map) (use AnyList in \<open>auto simp: list_all_iff\<close>)
  then show ?case by simp
next
  case (AnyMap es)
  have "json_any num (cleaned (any_json v)) = Some (wire_any v)" if "(k, v) \<in> set es" for k v
    using AnyMap.IH[OF that] AnyMap.prems that by (force simp: list_all_iff)
  from those_entries[OF this] show ?case by simp
qed auto

section \<open>Integers read back\<close>

lemma digits_value_decimal: "digits_value (decimal n) = n"
proof (induction n rule: decimal.induct)
  case (1 n)
  then show ?case
    by (subst decimal.simps) (simp add: digits_value_def code_digit)
qed

lemma parse_show_int: "in_int64 i \<Longrightarrow> parse_int (show_int i) = Some i"
proof -
  have minus: "c \<noteq> CHR ''-''" if "is_digit c" for c
    using that by (auto simp: is_digit_def code_in_def byte_of_def)
  obtain c r where c: "decimal (nat i) = c # r" "is_digit c" using decimal_head[of "nat i"] by auto
  obtain d q where d: "decimal (nat (- i)) = d # q" using decimal_head[of "nat (- i)"] by auto
  assume "in_int64 i"
  then show ?thesis
    using minus[OF c(2)] decimal_digits[of "nat i"] decimal_digits[of "nat (- i)"]
      digits_value_decimal[of "nat i"] digits_value_decimal[of "nat (- i)"]
    by (auto simp: show_int_def parse_int_def Let_def c(1) d)
qed

section \<open>A record read back\<close>

lemma field_folds:
  "json_fold ''time'' = ''TIME''" "json_fold ''level'' = ''LEVEL''" "json_fold ''kernel_id'' = ''KERNEL_ID''"
  "json_fold ''scope'' = ''SCOPE''" "json_fold ''component'' = ''COMPONENT''" "json_fold ''trace'' = ''TRACE''"
  "json_fold ''message'' = ''MESSAGE''" "json_fold ''fields'' = ''FIELDS''"
  "json_fold ''status'' = ''STATUS''" "json_fold ''ts'' = ''TS''"
  by code_simp+

lemma field_names:
  "to_valid ''time'' = ''time''" "to_valid ''level'' = ''level''" "to_valid ''kernel_id'' = ''kernel_id''"
  "to_valid ''scope'' = ''scope''" "to_valid ''component'' = ''component''" "to_valid ''trace'' = ''trace''"
  "to_valid ''message'' = ''message''" "to_valid ''fields'' = ''fields''"
  "to_valid ''status'' = ''status''" "to_valid ''ts'' = ''ts''" "to_valid ''ok'' = ''ok''"
  by (rule to_valid_ascii, simp add: ascii_def byte_of_def)+

lemma set_members_append:
  "set_members pt num (kvs @ kvs') r = Option.bind (set_members pt num kvs r) (set_members pt num kvs')"
  by (induction kvs arbitrary: r) (auto simp: Option.bind_assoc intro!: arg_cong[where f = "Option.bind _"])

lemma set_member_strings:
  "set_member pt num (''kernel_id'', JStr s) r = Some (r\<lparr>l_KernelID := s\<rparr>)"
  "set_member pt num (''scope'', JStr s) r = Some (r\<lparr>l_Scope := s\<rparr>)"
  "set_member pt num (''component'', JStr s) r = Some (r\<lparr>l_Component := s\<rparr>)"
  "set_member pt num (''trace'', JStr s) r = Some (r\<lparr>l_Trace := s\<rparr>)"
  "set_member pt num (''message'', JStr s) r = Some (r\<lparr>l_Message := s\<rparr>)"
  by (simp_all add: set_member_def field_folds set_string_def Let_def)

lemma set_member_time: "pt s = Some t \<Longrightarrow> set_member pt num (''time'', JStr s) r = Some (r\<lparr>l_Time := t\<rparr>)"
  by (simp add: set_member_def field_folds Let_def)

lemma set_member_level:
  "in_int64 i \<Longrightarrow> set_member pt num (''level'', JNum (show_int i)) r = Some (r\<lparr>l_Level := i\<rparr>)"
  by (simp add: set_member_def field_folds Let_def parse_show_int)

lemma set_member_fields:
  assumes "exact_numbers num (AnyMap es)" and "l_Fields r = None"
  shows "set_member pt num (''fields'', cleaned (any_json (AnyMap es))) r =
    Some (r\<lparr>l_Fields := Some (put_all (valid_keys (map (map_prod id wire_any) es)) [])\<rparr>)"
proof -
  have "json_any num (cleaned (any_json v)) = Some (wire_any v)" if "(k, v) \<in> set es" for k v
    using json_any_wire[of num v] assms(1) that by (force simp: list_all_iff)
  from those_entries[OF this] show ?thesis
    using assms(2) by (simp add: set_member_def field_folds Let_def)
qed

lemma set_members_omit:
  "l_Component r = [] \<Longrightarrow> set_members pt num (map (map_prod to_valid cleaned) (omit_empty ''component'' s)) r =
      Some (r\<lparr>l_Component := to_valid s\<rparr>)"
  "l_Trace r = [] \<Longrightarrow> set_members pt num (map (map_prod to_valid cleaned) (omit_empty ''trace'' s)) r =
      Some (r\<lparr>l_Trace := to_valid s\<rparr>)"
  by (cases r; simp add: omit_empty_def field_names set_member_strings)+

lemma set_members_fields:
  assumes "fields_fit num m" and "l_Fields r = None"
  shows "set_members pt num (map (map_prod to_valid cleaned) (omit_empty_map ''fields'' m)) r =
    Some (r\<lparr>l_Fields := wire_fields m\<rparr>)"
proof (cases "m = None \<or> m = Some []")
  case True
  then show ?thesis using assms(2) by (cases r) (auto simp: omit_empty_map_def wire_fields_def)
next
  case False
  then obtain es where es: "m = Some es" "es \<noteq> []" by auto
  then have "exact_numbers num (AnyMap es)" using assms(1) by (simp add: fields_fit_def)
  from set_member_fields[OF this assms(2)] show ?thesis
    by (simp add: omit_empty_map_def wire_fields_def es field_names del: any_json.simps exact_numbers.simps)
qed

lemma set_members_record:
  assumes "pt ts = Some (l_Time r)" and "to_valid ts = ts" and "in_int64 (l_Level r)"
    and "fields_fit num (l_Fields r)" and "record_json (\<lambda>_. Some ts) r = Some (JObj kvs)"
  shows "set_members pt num (map (map_prod to_valid cleaned) kvs) zero_record = Some (wire_record r)"
proof -
  have kvs: "kvs = [(''time'', JStr ts), (''level'', JNum (show_int (l_Level r))),
       (''kernel_id'', JStr (l_KernelID r)), (''scope'', JStr (l_Scope r))] @
      omit_empty ''component'' (l_Component r) @ omit_empty ''trace'' (l_Trace r) @
      [(''message'', JStr (l_Message r))] @ omit_empty_map ''fields'' (l_Fields r)"
    using assms(5) by (simp add: record_json_def)
  have wire: "wire_record r = zero_record\<lparr>l_Time := l_Time r, l_Level := l_Level r,
      l_KernelID := to_valid (l_KernelID r), l_Scope := to_valid (l_Scope r),
      l_Component := to_valid (l_Component r), l_Trace := to_valid (l_Trace r),
      l_Message := to_valid (l_Message r), l_Fields := wire_fields (l_Fields r)\<rparr>"
    by (cases r) (simp add: wire_record_def zero_record_def)
  show ?thesis
    unfolding kvs wire map_append set_members_append
    by (simp add: field_names assms(1,2) set_member_time[where pt = pt, OF assms(1)] set_member_level[OF assms(3)]
        set_member_strings set_members_omit set_members_fields[OF assms(4)] zero_record_def
        del: any_json.simps)
qed

section \<open>Characters of a compact text\<close>

text \<open>No control character, so no line break, and braces around a record.\<close>

definition no_controls :: "string \<Rightarrow> bool" where
  "no_controls s \<longleftrightarrow> list_all (\<lambda>c. 32 \<le> byte_of c) s"

lemma plain_simps [simp]:
  "no_controls []" "no_controls (c # s) \<longleftrightarrow> 32 \<le> byte_of c \<and> no_controls s" "no_controls (s @ t) \<longleftrightarrow> no_controls s \<and> no_controls t"
  by (auto simp: no_controls_def)

lemma plain_newline: "no_controls s \<Longrightarrow> CHR 0x0A \<notin> set s"
  by (auto simp: no_controls_def list_all_iff byte_of_def)

lemma code_marks [simp]:
  "32 \<le> byte_of dquote" "32 \<le> byte_of backslash" "32 \<le> byte_of (CHR ''u'')" "32 \<le> byte_of (CHR '','')"
  "32 \<le> byte_of (CHR '':'')" "32 \<le> byte_of (CHR ''['')" "32 \<le> byte_of (CHR '']'')" "32 \<le> byte_of (CHR ''{'')"
  "32 \<le> byte_of (CHR ''}'')" "32 \<le> byte_of (CHR ''-'')"
  by (simp_all add: byte_of_def dquote_def backslash_def)

lemma plain_u_escape: "no_controls (u_escape n)"
proof -
  have "32 \<le> byte_of (hex_char (k mod 16))" for k
    using mod_less_divisor[of 16 k] by (simp add: hex_char_def code_char_of)
  then show ?thesis by (simp add: u_escape_def)
qed

lemma plain_escape_byte: "no_controls (escape_byte c)"
proof -
  have "32 \<le> byte_of (CHR ''b'')" "32 \<le> byte_of (CHR ''f'')" "32 \<le> byte_of (CHR ''n'')" "32 \<le> byte_of (CHR ''r'')"
    "32 \<le> byte_of (CHR ''t'')" by (simp_all add: byte_of_def)
  then show ?thesis by (auto simp: escape_byte_def plain_u_escape)
qed

lemma plain_escape: "no_controls (json_escape s)"
proof (induction s rule: json_escape.induct)
  case (1 s)
  have long: "no_controls (escape_long (take (utf8_len s) s))" if "1 < utf8_len s"
  proof -
    have "32 \<le> byte_of c" if "c \<in> set (take (utf8_len s) s)" for c
      using utf8_len_bytes[OF \<open>1 < utf8_len s\<close> that] by simp
    then have "no_controls (take (utf8_len s) s)" by (simp add: no_controls_def list_all_iff)
    then show ?thesis by (simp add: escape_long_def plain_u_escape)
  qed
  consider "s = []" | "s \<noteq> []" "utf8_len s = 0" | "s \<noteq> []" "utf8_len s = 1" | "s \<noteq> []" "1 < utf8_len s"
    by linarith
  then show ?case
  proof cases
    case 1
    then show ?thesis by (simp add: json_escape.simps)
  next
    case 2
    then show ?thesis using 1(1) by (subst json_escape.simps) (simp add: plain_u_escape)
  next
    case 3
    then show ?thesis using 1(2) by (subst json_escape.simps) (simp add: plain_escape_byte)
  next
    case 4
    then show ?thesis using 1(3) long by (subst json_escape.simps) simp
  qed
qed

lemma plain_show_int: "no_controls (show_int i)"
proof -
  have "no_controls (decimal n)" for n
    using decimal_digits[of n] by (auto simp: no_controls_def list_all_iff is_digit_def code_in_def)
  then show ?thesis by (simp add: show_int_def)
qed

lemma plain_commas: "list_all no_controls items \<Longrightarrow> no_controls (comma_list items)"
  by (induction items rule: comma_list.induct) auto

lemma plain_bracket:
  assumes "32 \<le> byte_of a" and "32 \<le> byte_of b" and "list_all no_controls items"
  shows "no_controls (bracketed None a b items)"
  using assms plain_commas[of items] by (simp add: bracketed_def line_break_def deeper_layout_def)

lemma plain_words: "no_controls ''null''" "no_controls ''true''" "no_controls ''false''"
  by (simp_all add: no_controls_def byte_of_def)

lemma plain_print: "json_ok v \<Longrightarrow> no_controls (print_json v None)"
proof (induction v)
  case (JArr vs)
  then show ?case by (auto simp: deeper_layout_def list_all_iff intro!: plain_bracket)
next
  case (JObj kvs)
  have "no_controls (print_member None (k, print_json v None))" if "(k, v) \<in> set kvs" for k v
    using JObj.IH[OF that] JObj.prems that
    by (force simp: print_member_def print_string_def plain_escape list_all_iff)
  then show ?case by (auto simp: deeper_layout_def list_all_iff intro!: plain_bracket)
next
  case JNull
  then show ?case using plain_words(1) by (simp del: plain_simps)
next
  case (JBool b)
  then show ?case using plain_words(2,3) by (cases b) (simp_all del: plain_simps)
qed (auto simp: print_string_def plain_escape plain_show_int)

lemma trim_by_keep: "list_all (\<lambda>p. p = [] \<or> hd p \<noteq> c) ps \<Longrightarrow> trim_by ps (c # s) = c # s"
proof -
  assume "list_all (\<lambda>p. p = [] \<or> hd p \<noteq> c) ps"
  then have "find (\<lambda>p. p \<noteq> [] \<and> has_prefix (c # s) p) ps = None"
    by (induction ps) (auto simp: has_prefix_def neq_Nil_conv)
  then show ?thesis by (subst trim_by.simps) simp
qed

lemma trim_space_braces: "trim_space (CHR ''{'' # s @ ''}'') = CHR ''{'' # s @ ''}''"
proof -
  have "list_all (\<lambda>p. p = [] \<or> hd p \<noteq> CHR ''{'') go_spaces"
    "list_all (\<lambda>p. p = [] \<or> hd p \<noteq> CHR ''}'') (map rev go_spaces)"
    by (simp_all add: go_spaces_def)
  then show ?thesis by (simp add: trim_space_def trim_by_keep)
qed

lemma print_object_braces:
  "\<exists>s. print_json (JObj kvs) ind = CHR ''{'' # s @ ''}''"
  by (cases "kvs = []") (auto simp: bracketed_def)

lemma fold_max_le_bound: "list_all (\<lambda>x. x \<le> m) xs \<Longrightarrow> a \<le> m \<Longrightarrow> fold max xs a \<le> (m :: nat)"
  by (induction xs arbitrary: a) auto

lemma nesting_object_le:
  assumes "0 < n" and "\<And>k v. (k, v) \<in> set kvs \<Longrightarrow> nesting v < n"
  shows "nesting (JObj kvs) \<le> n"
proof -
  have "list_all (\<lambda>x. x \<le> n - 1) (map snd (map (map_prod id nesting) kvs))"
    using assms(2) by (fastforce simp: list_all_iff)
  from fold_max_le_bound[OF this, of 0] show ?thesis using assms(1) by simp
qed

section \<open>Properties of the encoding\<close>

text \<open>
  What is written for a record is one line that no trimming changes, and the client's decoder reads the
  record back from it, with its strings made valid UTF-8 and an empty map of fields missing,
  provided the text of its time reads back, its level fits 64 bits, its numbers are exact
  and its fields are not nested too deeply.
\<close>
lemma record_encoding:
  assumes "ft (l_Time r) = Some ts" and "to_valid ts = ts" and "pt ts = Some (l_Time r)"
    and "in_int64 (l_Level r)" and "fields_fit num (l_Fields r)"
  shows "CHR 0x0A \<notin> set (encode_record ft r) \<and>
    decode_record pt num (trim_space (encode_record ft r)) = Some (wire_record r)"
proof -
  obtain kvs where kvs: "record_json (\<lambda>_. Some ts) r = Some (JObj kvs)" by (simp add: record_json_def)
  then have enc: "encode_record ft r = print_json (JObj kvs) None"
    using assms(1) by (simp add: encode_record_def record_json_def del: print_json.simps)
  have def: "kvs = [(''time'', JStr ts), (''level'', JNum (show_int (l_Level r))),
       (''kernel_id'', JStr (l_KernelID r)), (''scope'', JStr (l_Scope r))] @
      omit_empty ''component'' (l_Component r) @ omit_empty ''trace'' (l_Trace r) @
      [(''message'', JStr (l_Message r))] @ omit_empty_map ''fields'' (l_Fields r)"
    using kvs by (simp add: record_json_def)
  have ok: "json_ok (JObj kvs)"
    unfolding def by (auto simp: omit_empty_def omit_empty_map_def json_ok_any simp del: any_json.simps split: option.splits)
  have deep: "nesting (JObj kvs) \<le> max_nesting"
  proof (rule nesting_object_le)
    show "0 < max_nesting" by (simp add: max_nesting_def)
    then show "nesting v < max_nesting" if "(k, v) \<in> set kvs" for k v
      using that assms(5) unfolding def fields_fit_def
      by (auto simp: omit_empty_def omit_empty_map_def simp del: any_json.simps exact_numbers.simps
          split: option.splits if_splits)
  qed
  have trim: "trim_space (encode_record ft r) = encode_record ft r"
    unfolding enc using print_object_braces[of kvs None] trim_space_braces by metis
  have "parse_json (encode_record ft r) = Some (JObj (map (map_prod to_valid cleaned) kvs))"
    using parse_print_json[OF ok deep, of "[]" "[]" None] unfolding enc by (simp del: print_json.simps)
  then have "decode_record pt num (trim_space (encode_record ft r)) = Some (wire_record r)"
    using set_members_record[of pt ts r num kvs, OF assms(3,2,4,5) kvs] unfolding trim by (simp add: decode_record_def)
  moreover have "CHR 0x0A \<notin> set (encode_record ft r)"
    unfolding enc by (rule plain_newline[OF plain_print[OF ok]])
  ultimately show ?thesis by blast
qed

lemma show_int_ascii: "ascii (show_int i)"
proof -
  have "ascii (decimal n)" for n
    using decimal_digits[of n] by (auto simp: ascii_def list_all_iff is_digit_def code_in_def)
  moreover have "byte_of (CHR ''-'') < 128" by (simp add: byte_of_def)
  ultimately show ?thesis by (simp add: show_int_def ascii_def)
qed

text \<open>The greeting is no record, but it decodes to one: the zero record.\<close>

lemma hello_decodes:
  "CHR 0x0A \<notin> set (hello_text u)" "decode_record pt num (trim_space (hello_text u)) = Some zero_record"
proof -
  let ?kvs = "[(''status'', JStr ''ok''), (''ts'', JStr (show_int u))]"
  have enc: "hello_text u = print_json (JObj ?kvs) None"
    by (simp add: hello_text_def sorted_entries_def del: print_json.simps)
  have ok: "json_ok (JObj ?kvs)" "nesting (JObj ?kvs) \<le> max_nesting" by (simp_all add: max_nesting_def)
  have trim: "trim_space (hello_text u) = hello_text u"
    unfolding enc using print_object_braces[of ?kvs None] trim_space_braces by metis
  show "CHR 0x0A \<notin> set (hello_text u)" unfolding enc by (rule plain_newline[OF plain_print[OF ok(1)]])
  have "parse_json (hello_text u) = Some (cleaned (JObj ?kvs))"
    using parse_print_json[OF ok, of "[]" "[]" None] unfolding enc by (simp del: print_json.simps)
  then show "decode_record pt num (trim_space (hello_text u)) = Some zero_record"
    unfolding trim by (simp add: decode_record_def field_names set_member_def field_folds Let_def)
qed

text \<open>Values that come back as they are.\<close>

definition key_sorted :: "(string \<times> 'v) list \<Rightarrow> bool" where
  "key_sorted es \<longleftrightarrow> sorted (map fst es) \<and> distinct (map fst es)"

primrec valid_any :: "any \<Rightarrow> bool" where
  "valid_any AnyNil \<longleftrightarrow> True"
| "valid_any (AnyBool b) \<longleftrightarrow> True"
| "valid_any (AnyInt i) \<longleftrightarrow> True"
| "valid_any (AnyString s) \<longleftrightarrow> to_valid s = s"
| "valid_any (AnyList vs) \<longleftrightarrow> list_all id (map valid_any vs)"
| "valid_any (AnyMap es) \<longleftrightarrow> key_sorted es \<and> list_all (\<lambda>(k, ok). to_valid k = k \<and> ok) (map (map_prod id valid_any) es)"

lemma put_all_append: "put_all (es @ [(k, v)]) m = go_put k v (put_all es m)"
  by (simp add: put_all_def)

lemma go_put_new: "k \<notin> fst ` set m \<Longrightarrow> go_put k v m = m @ [(k, v)]"
  by (induction m) (auto simp: go_put_def)

lemma put_all_distinct: "distinct (map fst es) \<Longrightarrow> put_all es [] = es"
proof (induction es rule: rev_induct)
  case (snoc e es)
  then show ?case by (cases e) (simp add: put_all_append go_put_new)
qed (simp add: put_all_def)

lemma sorted_entries_sorted: "key_sorted es \<Longrightarrow> sorted_entries es = es"
  unfolding key_sorted_def sorted_entries_def by (rule sort_key_id_if_sorted) simp

lemma valid_keys_id:
  assumes "list_all (\<lambda>(k, v). to_valid k = k) es"
  shows "valid_keys es = sorted_entries es"
proof -
  have "map (map_prod to_valid id) (sorted_entries es) = map id (sorted_entries es)"
    by (rule map_cong) (use assms in \<open>auto simp: list_all_iff\<close>)
  then show ?thesis by (simp add: valid_keys_def)
qed

lemma wire_valid: "valid_any v \<Longrightarrow> wire_any v = v"
proof (induction v)
  case (AnyList vs)
  then show ?case by (auto simp: list_all_iff intro: map_idI)
next
  case (AnyMap es)
  have es: "map (map_prod id wire_any) es = es"
  proof (rule map_idI)
    fix e assume e: "e \<in> set es"
    obtain k v where kv: "e = (k, v)" by force
    have "valid_any v" using AnyMap.prems e unfolding kv by (auto simp: list_all_iff)
    then show "map_prod id wire_any e = e" using AnyMap.IH[OF e, of v] by (simp add: kv)
  qed
  have k: "key_sorted es" "list_all (\<lambda>(k, v). to_valid k = k) es"
    using AnyMap.prems by (auto simp: list_all_iff)
  have "canonical_entries (valid_keys es) = es"
    using put_all_distinct[of es] k(1) valid_keys_id[OF k(2)] sorted_entries_sorted[OF k(1)]
    by (simp add: canonical_entries_def key_sorted_def)
  then show ?case by (simp add: es)
qed auto

definition valid_record :: "log_record_v2 \<Rightarrow> bool" where
  "valid_record r \<longleftrightarrow> list_all (\<lambda>s. to_valid s = s)
       [l_KernelID r, l_Scope r, l_Component r, l_Trace r, l_Message r] \<and> in_int64 (l_Level r) \<and>
     (case l_Fields r of
        None \<Rightarrow> True
      | Some es \<Rightarrow> go_map es \<and> list_all (\<lambda>(k, v). to_valid k = k \<and> valid_any v) es)"

lemma wire_record_same:
  assumes "valid_record r"
  shows "wire_record r = r\<lparr>l_Fields := l_Fields (wire_record r)\<rparr> \<and>
    any_get (l_Fields (wire_record r)) k = any_get (l_Fields r) k"
proof
  show "wire_record r = r\<lparr>l_Fields := l_Fields (wire_record r)\<rparr>"
    using assms by (cases r) (simp add: wire_record_def valid_record_def)
  show "any_get (l_Fields (wire_record r)) k = any_get (l_Fields r) k"
  proof (cases "l_Fields r")
    case (Some es)
    have valid: "to_valid k = k \<and> valid_any v" if "(k, v) \<in> set es" for k v
      using assms that by (auto simp: valid_record_def Some list_all_iff)
    have es: "map (map_prod id wire_any) es = es"
      by (rule map_idI) (use valid wire_valid in force)
    have "list_all (\<lambda>(k, v). to_valid k = k) es" using valid by (auto simp: list_all_iff)
    then have keys: "valid_keys es = sorted_entries es" by (rule valid_keys_id)
    have perm: "mset (map fst (sorted_entries es)) = mset (map fst es)"
      by (simp only: sorted_entries_def mset_map mset_sort)
    have d: "distinct (map fst es)" using assms by (simp add: valid_record_def Some go_map_def)
    then have ds: "distinct (map fst (sorted_entries es))" using mset_eq_imp_distinct_iff[OF perm] by simp
    have "map_of (sorted_entries es) = map_of es"
      using map_of_inject_set[OF ds d] by simp
    then show ?thesis
      using put_all_distinct[OF ds] Some es keys
      by (auto simp: any_get_def wire_record_def wire_fields_def go_get_def)
  qed (simp add: wire_record_def wire_fields_def)
qed

text \<open>
  C3: What the log stream writes for a record, the client's decoder reads back as the same record: every
  field is equal and every key of its fields holds the same value (an empty map of fields comes
  back as a missing one, which reads the same), from one line that trimming does not change; for
  every record with valid UTF-8, the text of whose time reads back, whose numbers are exact
  and whose fields do not nest beyond the parser's limit.
\<close>
theorem record_roundtrip:
  assumes "valid_record r" and "ft (l_Time r) = Some ts" and "to_valid ts = ts" and "pt ts = Some (l_Time r)"
    and "fields_fit num (l_Fields r)"
  shows "CHR 0x0A \<notin> set (encode_record ft r) \<and>
    (\<exists>r'. decode_record pt num (trim_space (encode_record ft r)) = Some r' \<and>
       r' = r\<lparr>l_Fields := l_Fields r'\<rparr> \<and> (\<forall>k. any_get (l_Fields r') k = any_get (l_Fields r) k))"
proof -
  have "in_int64 (l_Level r)" using assms(1) by (simp add: valid_record_def)
  from record_encoding[of ft r ts pt num, OF assms(2,3,4) this assms(5)] show ?thesis
    using wire_record_same[OF assms(1)] by blast
qed

definition sample_record :: log_record_v2 where
  "sample_record = zero_record\<lparr>l_Time := 5, l_Level := Warn, l_KernelID := ''site'', l_Message := [dquote, CHR 0x0A],
     l_Fields := Some [(''n'', AnyInt 7), (''a'', AnyNil)]\<rparr>"

theorem record_roundtrip_witness:
  "\<exists>r'. decode_record parse_int (\<lambda>n. map_option AnyInt (parse_int n))
     (trim_space (encode_record (\<lambda>t. Some (show_int t)) sample_record)) = Some r' \<and>
   l_Message r' = [dquote, CHR 0x0A] \<and> any_get (l_Fields r') ''n'' = Some (AnyInt 7)"
proof -
  have valid: "to_valid s = s" if "list_all (\<lambda>c. byte_of c < 128) s" for s
    using that by (simp add: to_valid_ascii ascii_def)
  have s: "list_all (\<lambda>s. to_valid s = s) [''site'', [dquote, CHR 0x0A], ''n'', ''a'']"
    by (simp add: valid byte_of_def dquote_def)
  then have v: "valid_record sample_record"
    by (simp add: valid_record_def sample_record_def zero_record_def go_map_def in_int64_def level_defs)
  have ints: "in_int64 5" "in_int64 7" by (simp_all add: in_int64_def)
  have f: "fields_fit (\<lambda>n. map_option AnyInt (parse_int n)) (l_Fields sample_record)"
    using parse_show_int[OF ints(2)]
    by (simp add: fields_fit_def sample_record_def sorted_entries_def max_nesting_def)
  have t: "l_Time sample_record = 5" by (simp add: sample_record_def)
  obtain r' where r': "decode_record parse_int (\<lambda>n. map_option AnyInt (parse_int n))
      (trim_space (encode_record (\<lambda>t. Some (show_int t)) sample_record)) = Some r'"
      "r' = sample_record\<lparr>l_Fields := l_Fields r'\<rparr>" "\<forall>k. any_get (l_Fields r') k = any_get (l_Fields sample_record) k"
    using record_roundtrip[OF v, of "\<lambda>t. Some (show_int t)" "show_int 5" parse_int, OF _ _ _ f]
      to_valid_ascii[OF show_int_ascii] parse_show_int[OF ints(1)] unfolding t by blast
  have "l_Message r' = [dquote, CHR 0x0A]" by (subst r'(2)) (simp add: sample_record_def)
  moreover have "any_get (l_Fields r') ''n'' = Some (AnyInt 7)"
    using r'(3) by (simp add: sample_record_def any_get_def)
  ultimately show ?thesis using r'(1) by blast
qed

section \<open>A second hop\<close>

lemma put_all_subset: "set (put_all es m) \<subseteq> set es \<union> set m"
proof (induction es rule: rev_induct)
  case (snoc e es)
  have "set (go_put k v m) \<subseteq> insert (k, v) (set m)" for k :: 'a and v :: 'b and m
    by (induction m) (auto simp: go_put_def)
  then show ?case using snoc by (cases e) (fastforce simp: put_all_append)
qed (simp add: put_all_def)

lemma put_all_map: "go_map m \<Longrightarrow> go_map (put_all es m)"
  by (induction es rule: rev_induct) (auto simp: put_all_append put_all_def[of "[]"])

lemma canonical_subset: "set (canonical_entries es) \<subseteq> set es"
  using put_all_subset[of es "[]"] by (simp add: canonical_entries_def)

lemma canonical_sorted: "key_sorted (canonical_entries es)"
proof -
  have "distinct (map fst (put_all es []))" using put_all_map[of "[]" es] by (simp add: go_map_def)
  moreover have "mset (map fst (canonical_entries es)) = mset (map fst (put_all es []))"
    unfolding canonical_entries_def by (simp only: sorted_entries_def mset_map mset_sort)
  ultimately show ?thesis
    using mset_eq_imp_distinct_iff by (fastforce simp: key_sorted_def canonical_entries_def sorted_entries_def)
qed

lemma wire_map_entries:
  assumes "(k, v) \<in> set (canonical_entries (valid_keys (map (map_prod id wire_any) es)))"
  shows "\<exists>k' v'. (k', v') \<in> set es \<and> k = to_valid k' \<and> v = wire_any v'"
proof -
  have "(k, v) \<in> map_prod to_valid id ` map_prod id wire_any ` set es"
    using assms canonical_subset[of "valid_keys (map (map_prod id wire_any) es)"]
    by (auto simp: valid_keys_def simp del: image_eqI)
  then show ?thesis by force
qed

lemma valid_wire: "valid_any (wire_any v)"
proof (induction v)
  case (AnyList vs)
  then show ?case by (simp add: list_all_iff)
next
  case (AnyMap es)
  have "to_valid k = k \<and> valid_any v"
    if "(k, v) \<in> set (canonical_entries (valid_keys (map (map_prod id wire_any) es)))" for k v
    using wire_map_entries[OF that] AnyMap.IH by auto
  then show ?case by (auto simp: list_all_iff canonical_sorted)
qed auto

lemma wire_idem: "wire_any (wire_any v) = wire_any v"
  by (rule wire_valid[OF valid_wire])

lemma exact_wire: "exact_numbers num v \<Longrightarrow> exact_numbers num (wire_any v)"
proof (induction v)
  case (AnyList vs)
  then show ?case by (auto simp: list_all_iff)
next
  case (AnyMap es)
  have "exact_numbers num v"
    if "(k, v) \<in> set (canonical_entries (valid_keys (map (map_prod id wire_any) es)))" for k v
  proof -
    from wire_map_entries[OF that] obtain k' v' where kv: "(k', v') \<in> set es" "v = wire_any v'" by blast
    then have "exact_numbers num v'" using AnyMap.prems by (auto simp: list_all_iff)
    then show ?thesis using AnyMap.IH[OF kv(1)] kv(2) by simp
  qed
  then show ?case by (auto simp: list_all_iff)
qed auto

lemma nesting_wire: "nesting (any_json (wire_any v)) \<le> nesting (any_json v)"
proof (induction v)
  case (AnyList vs)
  have "nesting (any_json (wire_any v)) \<le> fold max (map nesting (map any_json vs)) 0" if "v \<in> set vs" for v
    using AnyList[OF that] fold_max_le[of "nesting (any_json v)" "map nesting (map any_json vs)" 0] that by force
  then show ?case by (auto simp: list_all_iff intro: fold_max_le_bound)
next
  case (AnyMap es)
  let ?kvs = "sorted_entries (map (map_prod id any_json) es)"
  show ?case
    unfolding wire_any.simps any_json.simps
  proof (rule nesting_object_le)
    fix k j
    assume "(k, j) \<in> set (sorted_entries (map (map_prod id any_json)
      (canonical_entries (valid_keys (map (map_prod id wire_any) es)))))"
    then obtain v where v: "(k, v) \<in> set (canonical_entries (valid_keys (map (map_prod id wire_any) es)))"
      "j = any_json v" by auto
    obtain k' v' where kv: "(k', v') \<in> set es" "v = wire_any v'" using wire_map_entries[OF v(1)] by blast
    have "nesting (any_json v') < nesting (JObj ?kvs)"
      by (rule nesting_member[of k']) (use kv(1) in force)
    then show "nesting j < nesting (JObj ?kvs)" using AnyMap[OF kv(1), of v'] kv(2) v(2) by simp
  qed simp
qed auto

lemma parse_any:
  assumes "exact_numbers num v" and "nesting (any_json v) \<le> max_nesting"
  shows "Option.bind (parse_json (print_json (any_json v) ind)) (json_any num) = Some (wire_any v)"
  using parse_print_json[OF json_ok_any assms(2), of "[]" "[]" ind] json_any_wire[OF assms(1)] by simp

text \<open>
  The fields that \<open>rkctl\<close> prints after a record are the same data with and without \<open>--pretty\<close>: both texts
  read back to the same value.
\<close>
theorem pretty_fields_same:
  assumes "fields_fit num (Some es)"
  shows "Option.bind (parse_json (fields_text num pretty (Some es))) (json_any num) = Some (wire_any (AnyMap es))"
proof -
  have ok: "exact_numbers num (AnyMap es)" "nesting (any_json (AnyMap es)) \<le> max_nesting"
    using assms by (simp_all add: fields_fit_def del: exact_numbers.simps any_json.simps)
  have ok': "exact_numbers num (wire_any (AnyMap es))" "nesting (any_json (wire_any (AnyMap es))) \<le> max_nesting"
    using exact_wire[OF ok(1)] nesting_wire[of "AnyMap es"] ok(2) by simp_all
  show ?thesis
    using parse_any[OF ok, of None] parse_any[OF ok', of "Some 0"] wire_idem[of "AnyMap es"]
    by (simp add: fields_text_def Let_def del: exact_numbers.simps any_json.simps wire_any.simps print_json.simps)
qed

text \<open>The indented text of a manifest is a JSON text of its members.\<close>

theorem manifest_text_parses:
  assumes "nesting (manifest_json m) \<le> max_nesting"
  shows "parse_json (manifest_text m) = Some (cleaned (manifest_json m))"
proof -
  have "json_ok (manifest_json m)"
    by (auto simp: manifest_json_def omit_empty_map_def json_ok_any list_all_iff simp del: any_json.simps
        split: option.splits)
  from parse_print_json[OF this assms, of "[]" "[]" "Some 0"] show ?thesis
    by (simp add: manifest_text_def del: print_json.simps)
qed

end
