(* ===== verification/Std_Logger.thy ===== *)
theory Std_Logger
  imports Telemetry
begin

text \<open>
  Text for people: the logger of the root kernel that writes to standard output
  (\<open>cmd/rk/logger_gen.go\<close>) and the printed form of a record (\<open>platform/telemetry/log.go\<close>). The
  formatted time, the JSON and the printed form of the fields come from the standard library and
  are arguments.
\<close>

section \<open>Padding\<close>

text \<open>
  \<open>%-5s\<close> and \<open>%-8s\<close> pad on the right and count characters: in valid UTF-8, the bytes that do not
  continue a character.
\<close>

definition rune_count :: "string \<Rightarrow> nat" where
  "rune_count s = length (filter (\<lambda>c. (of_char c :: nat) < 128 \<or> 192 \<le> (of_char c :: nat)) s)"

definition pad_right :: "nat \<Rightarrow> string \<Rightarrow> string" where
  "pad_right n s = s @ replicate (n - rune_count s) (CHR '' '')"

section \<open>The printed forms\<close>

text \<open>\<open>LogRecord.String\<close>, without time and fields: \<open>ts\<close> and \<open>flds\<close> are their printed forms.\<close>

definition log_record_string :: "string \<Rightarrow> string \<Rightarrow> log_record \<Rightarrow> string" where
  "log_record_string ts flds r =
     ts @ '' '' @ pad_right 5 (level_string (v1_Level r)) @ '' '' @ v1_Scope r @ ''/'' @ v1_KernelID r @
     '' '' @ v1_Message r @ '' '' @ flds"

text \<open>
  What one call of \<open>StdLogger.Log\<close> writes; the prefix is \<open>None\<close> for a nil logger, \<open>json\<close> is \<open>None\<close> when the
  fields can not be encoded.
\<close>

definition std_log ::
  "string option \<Rightarrow> string \<Rightarrow> string \<Rightarrow> string \<Rightarrow> any_map \<Rightarrow> string option \<Rightarrow> string" where
  "std_log pre ts lv message flds json =
     (case pre of
        None \<Rightarrow> []
      | Some p \<Rightarrow>
        let payload = (case flds of None \<Rightarrow> [] | Some es \<Rightarrow>
              if length es > 0 then (case json of Some b \<Rightarrow> b | None \<Rightarrow> []) else [])
        in ts @ '' '' @ pad_right 5 lv @ '' '' @ p @ '' '' @ message @ [CHR 0x0A] @
           (if payload \<noteq> [] then ''   '' @ payload @ [CHR 0x0A] else []))"

text \<open>A call writes its message line even when the fields can not be encoded, and starts with it.\<close>

lemma std_log_line:
  "prefix (ts @ '' '' @ pad_right 5 lv @ '' '' @ p @ '' '' @ message @ [CHR 0x0A])
     (std_log (Some p) ts lv message flds json)"
  by (simp add: std_log_def Let_def prefix_def)

end
