(* ===== verification/Rkctl.thy ===== *)
theory Rkctl
  imports Admin Std_Logger Json_Codec
begin

text \<open>
  The command line client \<open>rkctl\<close> (\<open>cmd/rkctl/main_run_gen.go\<close>): the requests it makes and what it
  does with the answers. The command line itself is in \<open>Rkctl_Main\<close>.
\<close>

section \<open>Requests\<close>

definition default_http :: string where "default_http = ''http://localhost:8090''"

definition trim_right :: "char \<Rightarrow> string \<Rightarrow> string" where
  "trim_right c s = rev (dropWhile (\<lambda>x. x = c) (rev s))"

text \<open>\<open>strings.ReplaceAll\<close> with a one-byte pattern.\<close>

definition replace_all :: "string \<Rightarrow> char \<Rightarrow> string \<Rightarrow> string" where
  "replace_all s c by = concat (map (\<lambda>x. if x = c then by else [x]) s)"

definition url_query_esc :: "string \<Rightarrow> string" where
  "url_query_esc s = replace_all (replace_all s (CHR '' '') ''%20'') (CHR ''#'') ''%23''"

definition logs_url :: "string \<Rightarrow> string \<Rightarrow> string \<Rightarrow> string \<Rightarrow> string \<Rightarrow> string" where
  "logs_url base lv krn scope cmp =
     trim_right (CHR ''/'') base @ ''/admin/logs/stream?level='' @ url_query_esc lv @
     ''&kernel='' @ url_query_esc krn @ ''&scope='' @ url_query_esc scope @
     ''&component='' @ url_query_esc cmp"

definition list_url :: "string \<Rightarrow> string" where
  "list_url base = trim_right (CHR ''/'') base @ ''/admin/kernels''"

definition health_url :: "string \<Rightarrow> string" where
  "health_url base = trim_right (CHR ''/'') base @ ''/admin/health''"

text \<open>The action command makes no request without an id.\<close>

definition action_url :: "string \<Rightarrow> string \<Rightarrow> string \<Rightarrow> string option" where
  "action_url base i action =
     (if i = [] then None
      else Some (trim_right (CHR ''/'') base @ ''/admin/kernels/'' @ i @ ''/'' @ action))"

section \<open>Reading the log stream\<close>

text \<open>The lines \<open>ReadString\<close> returns, without their final newline; an unfinished line is dropped.\<close>

definition read_lines :: "string \<Rightarrow> string list" where
  "read_lines s = butlast (split_on (CHR 0x0A) s)"

definition data_line :: "(string \<Rightarrow> log_record_v2 option) \<Rightarrow> string \<Rightarrow> log_record_v2 list" where
  "data_line dec line =
     (if has_prefix line ''data: ''
      then (case dec (trim_space (trim_prefix line ''data: '')) of None \<Rightarrow> [] | Some rec \<Rightarrow> [rec])
      else [])"

definition client_records :: "(string \<Rightarrow> log_record_v2 option) \<Rightarrow> string \<Rightarrow> log_record_v2 list" where
  "client_records dec s = concat (map (data_line dec) (read_lines s))"

section \<open>Printing a record\<close>

definition color_for_level :: "string \<Rightarrow> string" where
  "color_for_level lv = (let u = go_to_upper lv in
     CHR 0x1B # (if u = ''DEBUG'' then ''[36m''
       else if u = ''INFO'' then ''[32m''
       else if u = ''WARN'' then ''[33m''
       else if u = ''ERROR'' then ''[31m''
       else ''[0m''))"

definition reset_color :: string where "reset_color = CHR 0x1B # ''[0m''"

text \<open>
  The line printed for a record; \<open>ts\<close> is its time in RFC 3339, \<open>flds\<close> the JSON of its fields
  (indented when \<open>--pretty\<close> is given).
\<close>

definition print_log :: "log_record_v2 \<Rightarrow> string \<Rightarrow> string \<Rightarrow> bool \<Rightarrow> string" where
  "print_log r ts flds compact =
     (let lv = level_string (l_Level r); color = color_for_level lv
      in if compact
         then color @ pad_right 5 lv @ reset_color @ '' '' @ ts @ '' '' @ l_Scope r @ ''/'' @
           l_KernelID r @ '' '' @ l_Message r @ [CHR 0x0A]
         else color @ pad_right 5 lv @ reset_color @ '' '' @ ts @ '' '' @ pad_right 8 (l_Scope r) @
           '' '' @ l_KernelID r @ ''/'' @ l_Component r @ '' ['' @ l_Trace r @ ''] '' @ l_Message r @
           '' | '' @ flds @ [CHR 0x0A])"

text \<open>
  What \<open>cmdLogs\<close> prints for the bytes it reads; \<open>rfc\<close> formats a time in RFC 3339, and \<open>pt\<close> and \<open>num\<close> read
  times and numerals as in \<open>Json_Codec\<close>.
\<close>

definition client_line ::
  "(gotime \<Rightarrow> string) \<Rightarrow> (string \<Rightarrow> any option) \<Rightarrow> bool \<Rightarrow> bool \<Rightarrow> log_record_v2 \<Rightarrow> string" where
  "client_line rfc num pretty compact r =
     print_log r (rfc (l_Time r)) (fields_text num pretty (l_Fields r)) compact"

definition client_prints ::
  "(gotime \<Rightarrow> string) \<Rightarrow> (string \<Rightarrow> gotime option) \<Rightarrow> (string \<Rightarrow> any option) \<Rightarrow> bool \<Rightarrow> bool \<Rightarrow> string \<Rightarrow> string" where
  "client_prints rfc pt num pretty compact s =
     concat (map (client_line rfc num pretty compact) (client_records (decode_record pt num) s))"

section \<open>Lines of the stream\<close>

declare render.simps [simp del]

lemma read_lines_append:
  "CHR 0x0A \<notin> set a \<Longrightarrow> read_lines (a @ CHR 0x0A # s) = a # read_lines s"
  by (simp add: read_lines_def split_on_append)

lemma read_lines_Nil [simp]: "read_lines [] = []"
  by (simp add: read_lines_def)

lemma client_records_line:
  "CHR 0x0A \<notin> set a \<Longrightarrow>
     client_records dec (a @ CHR 0x0A # s) = data_line dec a @ client_records dec s"
  by (simp add: client_records_def read_lines_append)

lemma client_records_Nil [simp]: "client_records dec [] = []"
  by (simp add: client_records_def)

lemma data_line_other:
  "data_line dec [] = []" "data_line dec (''event: '' @ tag) = []" "data_line dec '': keep-alive'' = []"
  by (simp_all add: data_line_def has_prefix_def)

lemma data_line_data:
  "data_line dec (''data: '' @ d) = (case dec (trim_space d) of None \<Rightarrow> [] | Some rec \<Rightarrow> [rec])"
  by (simp add: data_line_def has_prefix_def trim_prefix_def)

lemma client_event:
  assumes "CHR 0x0A \<notin> set tag" and "CHR 0x0A \<notin> set d"
  shows "client_records dec (render (SseEvent tag d) @ s) =
    (case dec (trim_space d) of None \<Rightarrow> [] | Some rec \<Rightarrow> [rec]) @ client_records dec s"
proof -
  have eq: "render (SseEvent tag d) @ s =
      (''event: '' @ tag) @ CHR 0x0A # (''data: '' @ d) @ CHR 0x0A # [] @ CHR 0x0A # s"
    by (simp add: newline_def render.simps)
  have n: "CHR 0x0A \<notin> set (''event: '' @ tag)" "CHR 0x0A \<notin> set (''data: '' @ d)"
    using assms by simp_all
  show ?thesis
    unfolding eq client_records_line[OF n(1)] client_records_line[OF n(2)] data_line_data data_line_other
    using client_records_line[of "[]" dec s] by (simp add: data_line_other)
qed

lemma client_comment: "client_records dec (render SseComment @ s) = client_records dec s"
proof -
  have eq: "render SseComment @ s = '': keep-alive'' @ CHR 0x0A # [] @ CHR 0x0A # s"
    by (simp add: newline_def render.simps)
  have n: "CHR 0x0A \<notin> set '': keep-alive''" by simp
  show ?thesis
    unfolding eq client_records_line[OF n] data_line_other
    using client_records_line[of "[]" dec s] by (simp add: data_line_other)
qed

text \<open>The log records among the events that pass the filter, in order.\<close>

fun event_record :: "stream_event \<Rightarrow> log_record_v2 option" where
  "event_record (FromAll (Some (MsgLog rec))) = Some rec"
| "event_record (FromScope (Some (MsgLog rec))) = Some rec"
| "event_record _ = None"

definition passed :: "log_filter \<Rightarrow> stream_event list \<Rightarrow> log_record_v2 list" where
  "passed f evs = filter (match_v2 f) (List.map_filter event_record evs)"

lemma stream_turn_record:
  "stream_turn enc f ev = (case event_record ev of
     Some rec \<Rightarrow> if match_v2 f rec then [SseEvent ''log'' (enc rec)] else []
   | None \<Rightarrow> if ev = KeepTick then [SseComment] else [])"
  by (cases "(enc, f, ev)" rule: stream_turn.cases) auto

lemma client_stream:
  assumes "\<And>rec. rec \<in> set (passed f evs) \<Longrightarrow>
    CHR 0x0A \<notin> set (enc rec) \<and> dec (trim_space (enc rec)) = Some (norm rec)"
  shows "client_records dec (concat (map render (concat (map (stream_turn enc f) evs)))) =
    map norm (passed f evs)"
  using assms
proof (induction evs)
  case Nil
  then show ?case by (simp add: passed_def map_filter_simps)
next
  case (Cons ev evs)
  have IH: "client_records dec (concat (map render (concat (map (stream_turn enc f) evs)))) =
      map norm (passed f evs)"
    using Cons by (auto simp: passed_def map_filter_simps split: option.splits)
  show ?case
  proof (cases "event_record ev")
    case None
    then show ?thesis
      using IH stream_turn_record[of enc f ev]
      by (simp add: passed_def map_filter_simps client_comment)
  next
    case (Some rec)
    then show ?thesis
      using IH Cons.prems[of rec] stream_turn_record[of enc f ev]
      by (auto simp: passed_def map_filter_simps client_event)
  qed
qed

section \<open>Properties of the client and the server together\<close>

text \<open>
  What the log stream writes is what rkctl reads: given that the JSON decoder reads back (as
  \<open>norm rec\<close>) the one-line text the encoder wrote, the client recovers from the byte stream,
  framing, keep-alive comments and all, exactly the records that pass the filter, in order,
  preceded by whatever it makes of the greeting.
\<close>
theorem stream_client_roundtrip:
  assumes "\<And>rec. rec \<in> set (passed f evs) \<Longrightarrow>
      CHR 0x0A \<notin> set (enc rec) \<and> dec (trim_space (enc rec)) = Some (norm rec)"
    and "CHR 0x0A \<notin> set hello"
  shows "client_records dec (concat (map render (stream_run enc hello f evs))) =
    (case dec (trim_space hello) of None \<Rightarrow> [] | Some rec \<Rightarrow> [rec]) @ map norm (passed f evs)"
proof -
  have "client_records dec (concat (map render (concat (map (stream_turn enc f) evs)))) =
      map norm (passed f evs)"
    by (rule client_stream) (rule assms(1))
  then show ?thesis
    using client_event[of "''hello''" hello dec] assms(2) by (simp add: stream_run_def)
qed

definition sample_enc :: "log_record_v2 \<Rightarrow> string" where
  "sample_enc rec = ''{'' @ filter (\<lambda>c. c \<noteq> CHR 0x0A) (l_KernelID rec) @ ''}''"

definition sample_dec :: "string \<Rightarrow> log_record_v2 option" where
  "sample_dec s = (if has_prefix s ''{'' then Some (zero_record\<lparr>l_KernelID := butlast (tl s)\<rparr>) else None)"

lemma sample_trim:
  "trim_space (sample_enc (zero_record\<lparr>l_KernelID := ''site'', l_Level := Warn\<rparr>)) = ''{site}''"
  "trim_space ''hi'' = ''hi''"
  by code_simp+

theorem stream_client_roundtrip_witness:
  "client_records sample_dec (concat (map render (stream_run sample_enc ''hi''
     (stream_filter ''warn'' [] [] [])
     [FromAll (Some (MsgLog (zero_record\<lparr>l_KernelID := ''site'', l_Level := Warn\<rparr>))), KeepTick,
      FromAll (Some (MsgLog (zero_record\<lparr>l_KernelID := ''rk''\<rparr>)))]))) =
   [zero_record\<lparr>l_KernelID := ''site''\<rparr>]"
proof -
  let ?site = "zero_record\<lparr>l_KernelID := ''site'', l_Level := Warn\<rparr>"
  let ?f = "stream_filter ''warn'' [] [] []"
  let ?evs = "[FromAll (Some (MsgLog ?site)), KeepTick,
    FromAll (Some (MsgLog (zero_record\<lparr>l_KernelID := ''rk''\<rparr>)))]"
  have p: "passed ?f ?evs = [?site]"
    by (simp add: passed_def map_filter_simps match_v2_iff stream_filter_def stream_level_def
        level_defs zero_record_def)
  have "client_records sample_dec (concat (map render (stream_run sample_enc ''hi'' ?f ?evs))) =
      (case sample_dec (trim_space ''hi'') of None \<Rightarrow> [] | Some rec \<Rightarrow> [rec]) @
      map (\<lambda>rec. zero_record\<lparr>l_KernelID := l_KernelID rec\<rparr>) (passed ?f ?evs)"
  proof (rule stream_client_roundtrip)
    show "CHR 0x0A \<notin> set (sample_enc rec) \<and>
        sample_dec (trim_space (sample_enc rec)) = Some (zero_record\<lparr>l_KernelID := l_KernelID rec\<rparr>)"
      if "rec \<in> set (passed ?f ?evs)" for rec
      using that by (simp add: p sample_trim) (simp add: sample_enc_def sample_dec_def has_prefix_def)
  qed simp
  then show ?thesis by (simp add: p sample_trim sample_dec_def has_prefix_def)
qed

definition esc_char :: "char \<Rightarrow> string" where
  "esc_char x = (if x = CHR '' '' then ''%20'' else if x = CHR ''#'' then ''%23'' else [x])"

lemma url_query_esc_chars: "url_query_esc s = concat (map esc_char s)"
  by (induction s) (auto simp: url_query_esc_def replace_all_def esc_char_def)

lemma esc_chars_inj:
  "CHR ''%'' \<notin> set a \<Longrightarrow> CHR ''%'' \<notin> set b \<Longrightarrow>
     concat (map esc_char a) = concat (map esc_char b) \<Longrightarrow> a = b"
proof (induction a arbitrary: b)
  case Nil
  then show ?case by (cases b) (auto simp: esc_char_def split: if_splits)
next
  case (Cons x a)
  then obtain y ys where b: "b = y # ys"
    by (cases b) (auto simp: esc_char_def split: if_splits)
  have step: "x = y \<and> s = t" if "esc_char x @ s = esc_char y @ t" for s t
    using that Cons.prems(1,2) unfolding b by (auto simp: esc_char_def split: if_splits)
  have "esc_char x @ concat (map esc_char a) = esc_char y @ concat (map esc_char ys)"
    using Cons.prems(3) unfolding b by simp
  from step[OF this] have "x = y" and "concat (map esc_char a) = concat (map esc_char ys)"
    by auto
  then show ?case using Cons.IH[of ys] Cons.prems unfolding b by auto
qed

text \<open>
  The escaping of query parameters is enough for values without a percent sign, and only for them: the
  escaped text has no blank and no hash, and two values without percent signs are never
  confused; but a value can already contain an escape, and then two different values (a blank
  and the text %20) give the same request. An ampersand in a value starts a new parameter.
\<close>
theorem url_query_esc_injective:
  "CHR '' '' \<notin> set (url_query_esc s) \<and> CHR ''#'' \<notin> set (url_query_esc s) \<and>
   inj_on url_query_esc {s. CHR ''%'' \<notin> set s} \<and>
   url_query_esc '' '' = url_query_esc ''%20'' \<and> url_query_esc ''a&scope=root'' = ''a&scope=root''"
proof (intro conjI)
  show "CHR '' '' \<notin> set (url_query_esc s)" "CHR ''#'' \<notin> set (url_query_esc s)"
    by (auto simp: url_query_esc_chars esc_char_def)
  show "inj_on url_query_esc {s. CHR ''%'' \<notin> set s}"
    by (rule inj_onI) (auto simp: url_query_esc_chars intro: esc_chars_inj)
qed (simp_all add: url_query_esc_chars esc_char_def)

text \<open>
  The terminal line of a record starts with the color of its level and the level's name padded to five
  characters, so that levels line up, and a record of an unknown level is printed without color.
\<close>
theorem print_log_prefix:
  "prefix (color_for_level (level_string (l_Level r)) @ pad_right 5 (level_string (l_Level r)) @ reset_color)
     (print_log r ts flds compact) \<and>
   (l_Level r \<notin> set known_levels \<longleftrightarrow> color_for_level (level_string (l_Level r)) = reset_color)"
proof
  show "prefix (color_for_level (level_string (l_Level r)) @ pad_right 5 (level_string (l_Level r)) @ reset_color)
     (print_log r ts flds compact)"
    by (simp add: print_log_def Let_def prefix_def)
  show "l_Level r \<notin> set known_levels \<longleftrightarrow> color_for_level (level_string (l_Level r)) = reset_color"
    by (auto simp: color_for_level_def reset_color_def level_string_def known_levels_def
        go_to_upper_keywords level_defs Let_def)
qed

end
