(* ===== verification/Admin_Server.thy ===== *)
theory Admin_Server
  imports Admin
begin

text \<open>
  The admin server as a whole (\<open>cmd/rk/http_admin_server_gen.go\<close>): the patterns it registers with
  \<open>http.ServeMux\<close>, a request going through the router to its handler, and \<open>Start\<close> with its listener
  goroutine inside \<open>RunRootKernel\<close> (\<open>cmd/rk/root_kernel_gen.go\<close>) and \<open>main\<close>
  (\<open>cmd/rk/main_run_gen.go\<close>).
\<close>

section \<open>Routes\<close>

datatype route = HealthPage | KernelsPage | ControlPage | TelemetryPage | LogStream | NotFound | Redirected

text \<open>
  \<open>ServeMux\<close> first redirects a path with an empty, a \<open>.\<close> or a \<open>..\<close> segment to its cleaned form;
  then an exact pattern wins over a subtree.
\<close>

definition path_clean :: "string \<Rightarrow> bool" where
  "path_clean p = (case split_on (CHR ''/'') p of
       [] \<Rightarrow> False
     | s # segs \<Rightarrow> s = [] \<and> segs \<noteq> [] \<and> list_all (\<lambda>x. x \<notin> {[], ''.'', ''..''}) (butlast segs) \<and>
         last segs \<notin> {''.'', ''..''})"

definition admin_route :: "string \<Rightarrow> route" where
  "admin_route p =
     (if \<not> path_clean p then Redirected
      else if p = ''/admin/health'' then HealthPage
      else if p = ''/admin/kernels'' then KernelsPage
      else if p = ''/admin/telemetry'' then TelemetryPage
      else if p = ''/admin/logs/stream'' then LogStream
      else if has_prefix p control_prefix then ControlPage
      else NotFound)"

section \<open>Serving a request\<close>

text \<open>The state the handlers share; the level is the package variable \<open>currentLogLevel\<close>.\<close>

record admin_server =
  as_reg :: registry
  as_health :: "health_aggregator option"
  as_level :: string

definition new_admin_server :: "registry \<Rightarrow> admin_server" where
  "new_admin_server r = \<lparr>as_reg = r, as_health = None, as_level = initial_log_level\<rparr>"

definition set_health_aggregator :: "health_aggregator \<Rightarrow> admin_server \<Rightarrow> admin_server" where
  "set_health_aggregator h s = s\<lparr>as_health := Some h\<rparr>"

text \<open>
  What a handler answers before it is encoded; the log stream goes on with the filter it has read.
\<close>

datatype answer = Responds http_response | HealthAnswer "health \<times> (string, health) gomap"
  | KernelsAnswer "kernel_record list" | Streams log_filter | MuxNotFound | MuxRedirect

text \<open>
  A request has a method, a decoded path, the filter its query asks for, and the level its body decodes
  to. \<open>ord1\<close> and \<open>ord2\<close> are orders in which Go may visit the registry's map, \<open>clk\<close> the times read.
\<close>

record request =
  rq_method :: string
  rq_path :: string
  rq_filter :: log_filter
  rq_level :: "string option"

definition admin_serve ::
  "(string \<times> kernel_record) list \<Rightarrow> (string \<times> kernel_record) list \<Rightarrow> (nat \<Rightarrow> gotime)
    \<Rightarrow> request \<Rightarrow> admin_server \<Rightarrow> answer \<times> admin_server" where
  "admin_serve ord1 ord2 clk rq s =
     (case admin_route (rq_path rq) of
        HealthPage \<Rightarrow> (HealthAnswer (admin_health (as_health s) ord1 ord2 (clk 0) (clk 1) (clk 2)), s)
      | KernelsPage \<Rightarrow> (KernelsAnswer (kernels ord1), s)
      | ControlPage \<Rightarrow>
          (case control_handler (rq_method rq) (rq_path rq) (clk 0) (clk 1) (clk 2) (clk 3) (as_reg s) of
             (resp, r) \<Rightarrow> (Responds resp, s\<lparr>as_reg := r\<rparr>))
      | TelemetryPage \<Rightarrow>
          (case telemetry_handler (rq_method rq) (rq_level rq) (as_level s) of
             (resp, lv) \<Rightarrow> (Responds resp, s\<lparr>as_level := lv\<rparr>))
      | LogStream \<Rightarrow> (Streams (rq_filter rq), s)
      | NotFound \<Rightarrow> (MuxNotFound, s)
      | Redirected \<Rightarrow> (MuxRedirect, s))"

text \<open>
  Only a POST changes the server, and only through the two handlers that are meant to: the registry
  through the control pages, and then only the record of one id; the level through the telemetry
  page, and then to a known level.
\<close>

lemma control_handler_changes:
  assumes "control_handler meth path now t1 t2 t3 r = (resp, r')" and "r' \<noteq> r"
  obtains i where "meth = ''POST''" and "rs_code resp = 202" and "\<And>j. j \<noteq> i \<Longrightarrow> go_get r' j = go_get r j"
proof -
  let ?i = "split_on (CHR ''/'') (trim_prefix path control_prefix) ! 0"
  obtain h where "meth = ''POST''" "rs_code resp = 202" "r' = update_health ?i h t1 t2 t3 r"
    using assms by (auto simp: control_handler_def Let_def split: if_splits)
  then show thesis by (intro that[of ?i]) auto
qed

lemma admin_serve_changes:
  assumes "admin_serve ord1 ord2 clk rq s = (ans, s')"
  shows "as_health s' = as_health s"
    and "as_reg s' \<noteq> as_reg s \<Longrightarrow> admin_route (rq_path rq) = ControlPage \<and> rq_method rq = ''POST'' \<and>
      (\<exists>i. \<forall>j. j \<noteq> i \<longrightarrow> go_get (as_reg s') j = go_get (as_reg s) j)"
    and "as_level s' \<noteq> as_level s \<Longrightarrow> admin_route (rq_path rq) = TelemetryPage \<and> rq_method rq = ''POST'' \<and>
      as_level s' \<in> {''DEBUG'', ''INFO'', ''WARN'', ''ERROR''}"
proof -
  show "as_health s' = as_health s"
    using assms by (auto simp: admin_serve_def split: route.splits prod.splits)
  show "admin_route (rq_path rq) = ControlPage \<and> rq_method rq = ''POST'' \<and>
      (\<exists>i. \<forall>j. j \<noteq> i \<longrightarrow> go_get (as_reg s') j = go_get (as_reg s) j)" if ne: "as_reg s' \<noteq> as_reg s"
  proof -
    obtain resp where c: "admin_route (rq_path rq) = ControlPage"
        "control_handler (rq_method rq) (rq_path rq) (clk 0) (clk 1) (clk 2) (clk 3) (as_reg s) = (resp, as_reg s')"
      using assms ne by (auto simp: admin_serve_def split: route.splits prod.splits)
    from c(2) ne show ?thesis by (rule control_handler_changes) (use c(1) in auto)
  qed
  show "admin_route (rq_path rq) = TelemetryPage \<and> rq_method rq = ''POST'' \<and>
      as_level s' \<in> {''DEBUG'', ''INFO'', ''WARN'', ''ERROR''}" if ne: "as_level s' \<noteq> as_level s"
  proof -
    have "admin_route (rq_path rq) = TelemetryPage"
      "snd (telemetry_handler (rq_method rq) (rq_level rq) (as_level s)) = as_level s'"
      using assms ne by (auto simp: admin_serve_def split: route.splits prod.splits)
    with ne show ?thesis by (auto simp: telemetry_handler_def Let_def split: if_splits option.splits)
  qed
qed

section \<open>Start, RunRootKernel and main at the end\<close>

text \<open>
  The listener goroutine sends the result of \<open>ListenAndServe\<close> to \<open>errCh\<close>; \<open>Start\<close> selects between it and
  the context. \<open>Result v\<close> is a value in the buffer of \<open>errCh\<close>.
\<close>

datatype listener = Listening | Result "go_error option" | Taken

datatype start_phase = Selecting | ShuttingDown | Awaiting | Returned "go_error option"

datatype root_phase = RootSelecting | RootReturned "go_error option"

record server_run =
  sr_cancelled :: bool
  sr_shutdown :: bool \<comment> \<open>\<open>Shutdown\<close> was called on the HTTP server\<close>
  sr_listener :: listener
  sr_failed :: "go_error option" \<comment> \<open>history: the error \<open>ListenAndServe\<close> returned by itself\<close>
  sr_start :: start_phase
  sr_root :: root_phase

definition server_closed :: go_error where "server_closed = ''http: Server closed''"

definition listen_result :: "go_error \<Rightarrow> go_error option" where
  "listen_result err = (if err = server_closed then None else Some err)"

text \<open>
  The library promises that \<open>ListenAndServe\<close> returns \<open>ErrServerClosed\<close> after \<open>Shutdown\<close>, and some other
  error when it ends by itself.
\<close>

inductive server_step :: "server_run \<Rightarrow> server_run \<Rightarrow> bool" where
  cancel: "server_step s (s\<lparr>sr_cancelled := True\<rparr>)"
| listen_fails: "sr_listener s = Listening \<Longrightarrow> \<not> sr_shutdown s \<Longrightarrow> err \<noteq> server_closed \<Longrightarrow>
    server_step s (s\<lparr>sr_listener := Result (listen_result err), sr_failed := Some err\<rparr>)"
| listen_closed: "sr_listener s = Listening \<Longrightarrow> sr_shutdown s \<Longrightarrow>
    server_step s (s\<lparr>sr_listener := Result (listen_result server_closed)\<rparr>)"
| select_done: "sr_start s = Selecting \<Longrightarrow> sr_cancelled s \<Longrightarrow>
    server_step s (s\<lparr>sr_start := ShuttingDown\<rparr>)"
| select_err: "sr_start s = Selecting \<Longrightarrow> sr_listener s = Result v \<Longrightarrow>
    server_step s (s\<lparr>sr_start := Returned v, sr_listener := Taken\<rparr>)"
| shutdown: "sr_start s = ShuttingDown \<Longrightarrow>
    server_step s (s\<lparr>sr_start := Awaiting, sr_shutdown := True\<rparr>)"
| await: "sr_start s = Awaiting \<Longrightarrow> sr_listener s = Result v \<Longrightarrow>
    server_step s (s\<lparr>sr_start := Returned None, sr_listener := Taken\<rparr>)"
| root_done: "sr_root s = RootSelecting \<Longrightarrow> sr_cancelled s \<Longrightarrow>
    server_step s (s\<lparr>sr_root := RootReturned None\<rparr>)"
| root_err: "sr_root s = RootSelecting \<Longrightarrow> sr_start s = Returned v \<Longrightarrow>
    server_step s (s\<lparr>sr_root := RootReturned v\<rparr>)"

inductive_cases server_stepE: "server_step s t"

definition server_start :: server_run where
  "server_start = \<lparr>sr_cancelled = False, sr_shutdown = False, sr_listener = Listening, sr_failed = None,
     sr_start = Selecting, sr_root = RootSelecting\<rparr>"

text \<open>
  \<open>main\<close>: the exit code, from the result of loading the configuration and of \<open>RunRootKernel\<close>;
  \<open>context.Canceled\<close> is not an error.
\<close>

definition rk_exit :: "go_error option \<Rightarrow> go_error option \<Rightarrow> nat" where
  "rk_exit load_err run_err = (case load_err of
       Some _ \<Rightarrow> 1
     | None \<Rightarrow> (case run_err of None \<Rightarrow> 0 | Some err \<Rightarrow> if err \<noteq> ''context canceled'' then 1 else 0))"

text \<open>What the select of \<open>Start\<close> and of \<open>RunRootKernel\<close> can know, phase by phase.\<close>

definition listener_ok :: "server_run \<Rightarrow> bool" where
  "listener_ok s = (case sr_listener s of
       Listening \<Rightarrow> sr_failed s = None
     | Result v \<Rightarrow> v = sr_failed s \<and> (sr_shutdown s \<or> v \<noteq> None)
     | Taken \<Rightarrow> False)"

definition outcome_ok :: "server_run \<Rightarrow> go_error option \<Rightarrow> bool" where
  "outcome_ok s v \<longleftrightarrow> (case v of None \<Rightarrow> sr_cancelled s | Some err \<Rightarrow> sr_failed s = Some err)"

definition start_ok :: "server_run \<Rightarrow> bool" where
  "start_ok s = (case sr_start s of
       Selecting \<Rightarrow> \<not> sr_shutdown s \<and> listener_ok s
     | ShuttingDown \<Rightarrow> sr_cancelled s \<and> \<not> sr_shutdown s \<and> listener_ok s
     | Awaiting \<Rightarrow> sr_cancelled s \<and> sr_shutdown s \<and> listener_ok s
     | Returned v \<Rightarrow> sr_listener s = Taken \<and> outcome_ok s v)"

definition root_ok :: "server_run \<Rightarrow> bool" where
  "root_ok s = (case sr_root s of RootSelecting \<Rightarrow> True | RootReturned v \<Rightarrow> outcome_ok s v)"

lemma start_ok_step: "server_step s t \<Longrightarrow> start_ok s \<Longrightarrow> start_ok t"
  by (induction rule: server_step.induct)
    (auto simp: start_ok_def listener_ok_def outcome_ok_def listen_result_def
      split: start_phase.splits option.splits listener.splits)

lemma failed_once: "server_step s t \<Longrightarrow> start_ok s \<Longrightarrow> sr_failed s = Some err \<Longrightarrow> sr_failed t = Some err"
  by (induction rule: server_step.induct)
    (simp_all add: start_ok_def listener_ok_def split: start_phase.splits)

lemma cancelled_once: "server_step s t \<Longrightarrow> sr_cancelled s \<Longrightarrow> sr_cancelled t"
  by (induction rule: server_step.induct) simp_all

lemma outcome_ok_step: "server_step s t \<Longrightarrow> start_ok s \<Longrightarrow> outcome_ok s v \<Longrightarrow> outcome_ok t v"
  using failed_once cancelled_once by (auto simp: outcome_ok_def split: option.splits)

lemma root_ok_step:
  assumes "server_step s t" and "start_ok s" and "root_ok s"
  shows "root_ok t"
proof (cases "sr_root t = sr_root s")
  case True
  then show ?thesis using assms(3) outcome_ok_step[OF assms(1,2)] by (simp add: root_ok_def split: root_phase.splits)
next
  case False
  with assms(1,2) show ?thesis
    by (cases rule: server_step.cases)
      (auto simp: root_ok_def start_ok_def outcome_ok_def listener_ok_def split: option.splits)
qed

lemma server_reachable_ok: "server_step\<^sup>*\<^sup>* server_start s \<Longrightarrow> start_ok s \<and> root_ok s"
proof (induction rule: rtranclp_induct)
  case base
  then show ?case by (simp add: server_start_def start_ok_def root_ok_def listener_ok_def)
next
  case (step s t)
  then show ?case using start_ok_step root_ok_step by blast
qed

section \<open>Properties of the server\<close>

text \<open>
  How the node ends, in every interleaving of the listener, Start, RunRootKernel and the cancellation of the
  context: Start has returned only when the listener goroutine is over and its result was
  taken, so the goroutine never leaks; an error that Start or RunRootKernel returns is the one the listener failed
  with, and nil means that the context was cancelled; so main exits with 1 only after the
  listener failed (when the configuration was loaded and valid).
\<close>
theorem server_ends_for_a_reason:
  assumes "server_step\<^sup>*\<^sup>* server_start s"
  shows "(sr_start s = Returned v \<longrightarrow> sr_listener s = Taken \<and>
      (case v of None \<Rightarrow> sr_cancelled s | Some err \<Rightarrow> sr_failed s = Some err)) \<and>
    (sr_root s = RootReturned w \<longrightarrow>
      (case w of None \<Rightarrow> sr_cancelled s | Some err \<Rightarrow> sr_failed s = Some err) \<and>
      (rk_exit None w = 1 \<longrightarrow> sr_failed s \<noteq> None \<and> sr_failed s = w))"
  using server_reachable_ok[OF assms]
  by (auto simp: start_ok_def root_ok_def outcome_ok_def rk_exit_def split: option.splits)

theorem server_ends_for_a_reason_witness:
  "\<exists>s. server_step\<^sup>*\<^sup>* server_start s \<and> sr_root s = RootReturned (Some ''bind'') \<and> sr_listener s = Taken \<and>
     rk_exit None (Some ''bind'') = 1 \<and> sr_failed s = Some ''bind''"
proof -
  let ?a = "server_start\<lparr>sr_listener := Result (Some ''bind''), sr_failed := Some ''bind''\<rparr>"
  let ?b = "?a\<lparr>sr_start := Returned (Some ''bind''), sr_listener := Taken\<rparr>"
  let ?c = "?b\<lparr>sr_root := RootReturned (Some ''bind'')\<rparr>"
  have "server_step server_start ?a"
    using listen_fails[of server_start "''bind''"] by (simp add: server_start_def listen_result_def server_closed_def)
  moreover have "server_step ?a ?b" by (rule select_err) (simp_all add: server_start_def)
  moreover have "server_step ?b ?c" by (rule root_err) (simp_all add: server_start_def)
  ultimately have run: "server_step\<^sup>*\<^sup>* server_start ?c" by (rule run3[of server_step])
  show ?thesis
    using server_ends_for_a_reason[OF run, of "Some ''bind''" "Some ''bind''"] run
    by (intro exI[of _ ?c]) (simp add: rk_exit_def)
qed

text \<open>Steps that change something; \<open>cancel\<close> changes nothing when the context is done already.\<close>

definition server_moves :: "server_run \<Rightarrow> server_run \<Rightarrow> bool" where
  "server_moves s t \<longleftrightarrow> server_step s t \<and> t \<noteq> s"

definition server_rank :: "server_run \<Rightarrow> nat" where
  "server_rank s =
     (case sr_start s of Selecting \<Rightarrow> 3 | ShuttingDown \<Rightarrow> 2 | Awaiting \<Rightarrow> 1 | Returned v \<Rightarrow> 0) +
     (if sr_listener s = Listening then 1 else 0) + (if sr_root s = RootSelecting then 1 else 0)"

lemma cancel_idle: "sr_cancelled s \<Longrightarrow> s\<lparr>sr_cancelled := True\<rparr> = s"
  by (cases s) simp

lemma server_step_rank: "server_step s t \<Longrightarrow> sr_cancelled s \<Longrightarrow> t = s \<or> server_rank t < server_rank s"
  by (induction rule: server_step.induct) (simp_all add: server_rank_def cancel_idle)

lemma server_moves_rank: "server_moves s t \<Longrightarrow> sr_cancelled s \<Longrightarrow> server_rank t < server_rank s"
  using server_step_rank by (auto simp: server_moves_def)

lemma server_movesI: "server_step s t \<Longrightarrow> server_rank t < server_rank s \<Longrightarrow> server_moves s t"
  by (auto simp: server_moves_def)

lemma server_moves_or_done:
  assumes "start_ok s" and "sr_cancelled s" and "\<And>v. sr_start s \<noteq> Returned v"
  shows "\<exists>t. server_moves s t"
proof (cases "sr_start s")
  case Selecting
  then show ?thesis using server_movesI[OF select_done[OF Selecting assms(2)]]
      by (auto simp: server_rank_def)
next
  case ShuttingDown
  then show ?thesis using server_movesI[OF shutdown[OF ShuttingDown]]
      by (auto simp: server_rank_def)
next
  case Awaiting
  with assms(1) have ok: "sr_shutdown s" "listener_ok s" by (simp_all add: start_ok_def)
  show ?thesis
  proof (cases "sr_listener s")
    case Listening
    then show ?thesis using server_movesI[OF listen_closed[OF Listening ok(1)]]
      by (auto simp: server_rank_def)
  next
    case (Result v)
    then show ?thesis using server_movesI[OF await[OF Awaiting Result]]
      by (auto simp: server_rank_def Awaiting)
  qed (use ok(2) in \<open>simp add: listener_ok_def\<close>)
qed (use assms(3) in blast)

text \<open>
  C40: After a cancellation the node always ends, whatever the order of the goroutines: no run makes more than five further
  steps, and where no step is left both Start and RunRootKernel have returned.
\<close>
theorem server_stops_after_cancel:
  assumes "server_step\<^sup>*\<^sup>* server_start s" and "sr_cancelled s" and "(server_moves ^^ n) s t"
  shows "n \<le> 5 \<and> ((\<nexists>u. server_moves t u) \<longrightarrow> (\<exists>v w. sr_start t = Returned v \<and> sr_root t = RootReturned w))"
proof -
  have run: "n + server_rank t \<le> server_rank s \<and> sr_cancelled t \<and> server_step\<^sup>*\<^sup>* s t"
    using assms(3)
  proof (induction n arbitrary: t)
    case 0
    then show ?case using assms(2) by simp
  next
    case (Suc n)
    then obtain u where u: "(server_moves ^^ n) s u" "server_moves u t" by auto
    have "sr_cancelled t" using Suc.IH[OF u(1)] u(2) cancelled_once by (auto simp: server_moves_def)
    then show ?case
      using Suc.IH[OF u(1)] server_moves_rank[OF u(2)] u(2) by (fastforce simp: server_moves_def)
  qed
  have rank: "server_rank s \<le> 5" by (auto simp: server_rank_def split: start_phase.splits)
  have ok: "start_ok t" using server_reachable_ok[of t] run assms(1) by (meson rtranclp_trans)
  have "\<exists>v w. sr_start t = Returned v \<and> sr_root t = RootReturned w" if stuck: "\<nexists>u. server_moves t u"
  proof -
    have "sr_root t \<noteq> RootSelecting"
    proof
      assume r: "sr_root t = RootSelecting"
      then have "server_moves t (t\<lparr>sr_root := RootReturned None\<rparr>)"
        using run by (intro server_movesI root_done) (simp_all add: server_rank_def)
      then show False using stuck by blast
    qed
    then show ?thesis
      using server_moves_or_done[OF ok] run stuck by (cases "sr_root t") auto
  qed
  then show ?thesis using run rank by auto
qed

theorem server_stops_after_cancel_witness:
  "\<exists>t. server_moves (server_start\<lparr>sr_cancelled := True\<rparr>) t \<and>
     ((\<nexists>u. server_moves t u) \<longrightarrow> (\<exists>v w. sr_start t = Returned v \<and> sr_root t = RootReturned w))"
proof -
  let ?s = "server_start\<lparr>sr_cancelled := True\<rparr>"
  let ?t = "?s\<lparr>sr_start := ShuttingDown\<rparr>"
  have s: "server_step\<^sup>*\<^sup>* server_start ?s" using cancel[of server_start] by blast
  have "server_step ?s ?t" by (rule select_done) (simp_all add: server_start_def)
  then have m: "server_moves ?s ?t" by (simp add: server_moves_def server_start_def)
  then have "(server_moves ^^ 1) ?s ?t" by (simp add: relcompp_apply)
  from server_stops_after_cancel[OF s _ this] m show ?thesis by auto
qed

text \<open>
  RunRootKernel does not wait for the admin server: on a cancellation it can return, and main end the program, while Start has
  not even called Shutdown and the listener still serves, so that requests under way are cut
  off; and Start itself can report success for a listener that had failed, when both are ready
  at its select.
\<close>
theorem server_shutdown_not_awaited:
  "(\<exists>s. server_step\<^sup>*\<^sup>* server_start s \<and> sr_root s = RootReturned None \<and> sr_start s = Selecting \<and>
      sr_listener s = Listening) \<and>
   (\<exists>s. server_step\<^sup>*\<^sup>* server_start s \<and> sr_start s = Returned None \<and> sr_failed s = Some ''bind'')"
proof
  let ?s = "server_start\<lparr>sr_cancelled := True\<rparr>"
  let ?t = "?s\<lparr>sr_root := RootReturned None\<rparr>"
  have s: "server_step server_start ?s" by (rule cancel)
  have "server_step ?s ?t" by (rule root_done) (simp_all add: server_start_def)
  from run2[of server_step, OF s this]
  show "\<exists>s. server_step\<^sup>*\<^sup>* server_start s \<and> sr_root s = RootReturned None \<and> sr_start s = Selecting \<and>
      sr_listener s = Listening"
    by (intro exI[of _ ?t]) (simp add: server_start_def)
  let ?a = "?s\<lparr>sr_listener := Result (Some ''bind''), sr_failed := Some ''bind''\<rparr>"
  let ?b = "?a\<lparr>sr_start := ShuttingDown\<rparr>"
  let ?c = "?b\<lparr>sr_start := Awaiting, sr_shutdown := True\<rparr>"
  let ?d = "?c\<lparr>sr_start := Returned None, sr_listener := Taken\<rparr>"
  have a: "server_step ?s ?a"
    using listen_fails[of ?s "''bind''"] by (simp add: server_start_def listen_result_def server_closed_def)
  have b: "server_step ?a ?b" by (rule select_done) (simp_all add: server_start_def)
  have c: "server_step ?b ?c" by (rule shutdown) simp
  have d: "server_step ?c ?d" by (rule await) simp_all
  from run5[of server_step, OF s a b c d]
  show "\<exists>s. server_step\<^sup>*\<^sup>* server_start s \<and> sr_start s = Returned None \<and> sr_failed s = Some ''bind''"
    by (intro exI[of _ ?d]) simp
qed

text \<open>
  Every request to the admin server, in one statement: a request changes the registry only as a POST to a control page, and then
  at most the record of one kernel; it changes the log level only as a POST to the telemetry
  page, and then to one of the four levels; pages and streams change nothing; and what is
  redirected or not found changes nothing.
\<close>
theorem admin_requests_contained:
  assumes "admin_serve ord1 ord2 clk rq s = (ans, s')"
  shows "(as_reg s' \<noteq> as_reg s \<longrightarrow> has_prefix (rq_path rq) control_prefix \<and> rq_method rq = ''POST'' \<and>
      (\<exists>i. \<forall>j. j \<noteq> i \<longrightarrow> go_get (as_reg s') j = go_get (as_reg s) j)) \<and>
    (as_level s' \<noteq> as_level s \<longrightarrow> rq_path rq = ''/admin/telemetry'' \<and> rq_method rq = ''POST'' \<and>
      as_level s' \<in> {''DEBUG'', ''INFO'', ''WARN'', ''ERROR''}) \<and>
    as_health s' = as_health s"
proof -
  have "admin_route p = ControlPage \<Longrightarrow> has_prefix p control_prefix"
    "admin_route p = TelemetryPage \<Longrightarrow> p = ''/admin/telemetry''" for p
    by (simp_all add: admin_route_def split: if_splits)
  then show ?thesis using admin_serve_changes[OF assms] by blast
qed

theorem admin_requests_contained_witness:
  "\<exists>ans s'. admin_serve [] [] (\<lambda>_. 5)
      \<lparr>rq_method = ''POST'', rq_path = ''/admin/telemetry'', rq_filter = stream_filter [] [] [] [], rq_level = Some ''debug''\<rparr>
      (new_admin_server []) = (ans, s') \<and>
    as_level s' = ''DEBUG'' \<and> as_reg s' = []"
proof -
  let ?rq = "\<lparr>rq_method = ''POST'', rq_path = ''/admin/telemetry'', rq_filter = stream_filter [] [] [] [],
    rq_level = Some ''debug''\<rparr>"
  obtain ans s' where s: "admin_serve [] [] (\<lambda>_. 5) ?rq (new_admin_server []) = (ans, s')" by fastforce
  have r: "admin_route ''/admin/telemetry'' = TelemetryPage" by code_simp
  have "as_level s' = ''DEBUG''"
    using s
    by (simp add: admin_serve_def r telemetry_handler_def Let_def go_to_upper_admin)
      (auto simp: new_admin_server_def)
  moreover have "as_reg s' = []"
    using admin_requests_contained[OF s] by (auto simp: new_admin_server_def has_prefix_def control_prefix_def)
  ultimately show ?thesis using s by blast
qed

end
