(* ===== verification/Http_Routes.thy ===== *)
theory Http_Routes
  imports Rkctl Admin_Server
begin

text \<open>
  Between the requests of \<open>rkctl\<close> and the handlers of the admin server: the URL of a
  request as \<open>net/url\<close> takes it apart, the action request with its ignored error
  (\<open>cmd/rkctl/main_run_gen.go\<close>), the route it takes, and the query parameters that the log stream
  reads (\<open>cmd/rk/http_admin_logs_gen.go\<close>). Of the standard library the model has what these requests exercise.
\<close>

section \<open>Cutting a string\<close>

text \<open>\<open>strings.Cut\<close> at a byte: what is before and after its first occurrence.\<close>

definition str_cut :: "char \<Rightarrow> string \<Rightarrow> string \<times> string" where
  "str_cut c s = (let a = takeWhile (\<lambda>x. x \<noteq> c) s in (a, drop (Suc (length a)) s))"

lemma str_cut_absent: "c \<notin> set s \<Longrightarrow> str_cut c s = (s, [])"
  by (induction s) (auto simp: str_cut_def Let_def)

lemma str_cut_at: "c \<notin> set a \<Longrightarrow> str_cut c (a @ c # b) = (a, b)"
  by (induction a) (auto simp: str_cut_def Let_def)

section \<open>Percent escapes\<close>

definition hex_digit :: "char \<Rightarrow> nat option" where
  "hex_digit c = (let n = (of_char c :: nat) in
     if 48 \<le> n \<and> n \<le> 57 then Some (n - 48)
     else if 65 \<le> n \<and> n \<le> 70 then Some (n - 55)
     else if 97 \<le> n \<and> n \<le> 102 then Some (n - 87)
     else None)"

text \<open>\<open>url.PathUnescape\<close>: no result on a percent sign that two hexadecimal digits do not follow.\<close>

fun pct_decode :: "string \<Rightarrow> string option" where
  "pct_decode [] = Some []"
| "pct_decode (c # cs) =
     (if c \<noteq> CHR ''%'' then map_option (Cons c) (pct_decode cs)
      else case cs of
          a # b # ds \<Rightarrow>
            (case (hex_digit a, hex_digit b) of
               (Some x, Some y) \<Rightarrow> map_option (Cons (char_of (16 * x + y))) (pct_decode ds)
             | _ \<Rightarrow> None)
        | _ \<Rightarrow> None)"

text \<open>\<open>url.QueryUnescape\<close> also reads a plus sign as a blank.\<close>

definition query_decode :: "string \<Rightarrow> string option" where
  "query_decode s = pct_decode (map (\<lambda>c. if c = CHR ''+'' then CHR '' '' else c) s)"

section \<open>Parsing a URL\<close>

definition is_ctl :: "char \<Rightarrow> bool" where
  "is_ctl c \<longleftrightarrow> (of_char c :: nat) < 32 \<or> (of_char c :: nat) = 127"

text \<open>What follows the authority of a URL with a scheme.\<close>

definition after_authority :: "string \<Rightarrow> string" where
  "after_authority s =
     dropWhile (\<lambda>c. c \<notin> {CHR ''/'', CHR ''?'', CHR ''#''}) (drop 2 (dropWhile (\<lambda>c. c \<noteq> CHR ''/'') s))"

text \<open>
  The decoded path and the raw query of the request that \<open>http.NewRequest\<close> makes; no result when the URL
  does not parse. The authority of the base URL is taken to be well formed.
\<close>

definition parse_url :: "string \<Rightarrow> (string \<times> string) option" where
  "parse_url s =
     (case str_cut (CHR ''#'') s of (u, frag) \<Rightarrow>
        if \<exists>c \<in> set u. is_ctl c then None
        else case str_cut (CHR ''?'') (after_authority u) of (path, query) \<Rightarrow>
          (case (pct_decode path, pct_decode frag) of
             (Some p, Some _) \<Rightarrow> Some (p, query)
           | _ \<Rightarrow> None))"

text \<open>\<open>r.URL.Query().Get(k)\<close>: the value of the first parameter of that name.\<close>

definition query_pair :: "string \<Rightarrow> (string \<times> string) list" where
  "query_pair seg =
     (if CHR '';'' \<in> set seg \<or> seg = [] then []
      else case str_cut (CHR ''='') seg of (k, v) \<Rightarrow>
        (case (query_decode k, query_decode v) of (Some a, Some b) \<Rightarrow> [(a, b)] | _ \<Rightarrow> []))"

definition query_get :: "string \<Rightarrow> string \<Rightarrow> string" where
  "query_get q k = (case map_of (concat (map query_pair (split_on (CHR ''&'') q))) k of
     Some v \<Rightarrow> v | None \<Rightarrow> [])"

section \<open>What rkctl sends and copies\<close>

text \<open>
  How a command ends: with the usage, in the flag package, or with the request it sends (\<open>Followed\<close> is
  the log stream with its flags \<open>--pretty\<close> and \<open>--compact\<close>).
\<close>

datatype client_result = Usage | FlagExit nat | IdRequired | HttpError | ClientPanics
  | Got string string | Posted string string | Followed string string bool bool

text \<open>
  The action command after its flags. The error of \<open>NewRequest\<close> is ignored, and \<open>Do\<close> of the nil request
  it then returns panics.
\<close>

definition action_request :: "string \<Rightarrow> string \<Rightarrow> string \<Rightarrow> client_result" where
  "action_request base i action =
     (case action_url base i action of
        None \<Rightarrow> IdRequired
      | Some url \<Rightarrow> (case parse_url url of
            None \<Rightarrow> ClientPanics
          | Some (path, query) \<Rightarrow> Posted path query))"

text \<open>\<open>ioCopy\<close>: what is written, from the chunks that \<open>Read\<close> returns up to its first error.\<close>

fun io_copy :: "(string \<times> bool) list \<Rightarrow> string" where
  "io_copy [] = []"
| "io_copy ((chunk, err) # rs) = chunk @ (if err then [] else io_copy rs)"

text \<open>The filter that the log stream reads from the query.\<close>

definition query_filter :: "string \<Rightarrow> log_filter" where
  "query_filter q = stream_filter (query_get q ''level'') (query_get q ''kernel'')
     (query_get q ''scope'') (query_get q ''component'')"

section \<open>Characters that survive\<close>

definition path_safe :: "char \<Rightarrow> bool" where
  "path_safe c \<longleftrightarrow> c \<notin> {CHR ''/'', CHR ''?'', CHR ''#'', CHR ''%''} \<and> \<not> is_ctl c"

definition value_safe :: "char \<Rightarrow> bool" where
  "value_safe c \<longleftrightarrow> c \<notin> {CHR ''&'', CHR '';'', CHR ''%'', CHR ''+''} \<and> \<not> is_ctl c"

definition base_url :: "string \<Rightarrow> nat \<Rightarrow> string" where
  "base_url host n = ''http://'' @ host @ replicate n (CHR ''/'')"

lemma pct_decode_plain: "CHR ''%'' \<notin> set s \<Longrightarrow> pct_decode s = Some s"
  by (induction s) auto

lemma pct_decode_append: "CHR ''%'' \<notin> set s \<Longrightarrow> pct_decode (s @ t) = map_option (append s) (pct_decode t)"
proof (induction s)
  case Nil
  have "append [] = (\<lambda>t. t :: string)" by (simp add: fun_eq_iff)
  then show ?case by (simp add: option.map_ident)
next
  case (Cons c s)
  then show ?case by (cases "pct_decode t") auto
qed

lemma trim_right_base:
  assumes "list_all path_safe host" and "host \<noteq> []"
  shows "trim_right (CHR ''/'') (base_url host n) = ''http://'' @ host"
proof -
  obtain h c where h: "host = h @ [c]" using assms(2) by (metis rev_exhaust)
  have c: "c \<noteq> CHR ''/''" using assms(1) by (simp add: h path_safe_def)
  have "dropWhile (\<lambda>x. x = CHR ''/'') (replicate n (CHR ''/'') @ c # t) = c # t" for t
    using c by (induction n) auto
  then show ?thesis by (simp add: trim_right_def base_url_def h)
qed

lemma after_authority_base:
  assumes "list_all path_safe host"
  shows "after_authority (''http://'' @ host @ CHR ''/'' # s) = CHR ''/'' # s"
proof -
  have "dropWhile (\<lambda>c. c \<notin> {CHR ''/'', CHR ''?'', CHR ''#''}) (host @ CHR ''/'' # s) = CHR ''/'' # s"
    using assms by (induction host) (auto simp: path_safe_def)
  then show ?thesis by (simp add: after_authority_def)
qed

lemma safe_ctl: "list_all path_safe s \<Longrightarrow> c \<in> set s \<Longrightarrow> \<not> is_ctl c"
  by (auto simp: list_all_iff path_safe_def)

lemma no_hash: "list_all path_safe s \<Longrightarrow> CHR ''#'' \<notin> set s"
  by (auto simp: list_all_iff path_safe_def)

text \<open>A URL with a plain path, without and with a query.\<close>

lemma parse_url_plain:
  assumes "list_all path_safe host" and "CHR ''#'' \<notin> set p" and "CHR ''?'' \<notin> set p"
    and "\<forall>c \<in> set p. \<not> is_ctl c"
  shows "parse_url (''http://'' @ host @ CHR ''/'' # p) = map_option (\<lambda>d. (CHR ''/'' # d, [])) (pct_decode p)"
proof -
  have ctl: "\<not> (\<exists>c \<in> set (''http://'' @ host @ CHR ''/'' # p). is_ctl c)"
    using safe_ctl[OF assms(1)] assms(4) by (auto simp: is_ctl_def)
  have cut1: "str_cut (CHR ''#'') (''http://'' @ host @ CHR ''/'' # p) = (''http://'' @ host @ CHR ''/'' # p, [])"
    using assms(2) no_hash[OF assms(1)] by (intro str_cut_absent) simp
  have cut2: "str_cut (CHR ''?'') (CHR ''/'' # p) = (CHR ''/'' # p, [])"
    using assms(3) by (intro str_cut_absent) simp
  show ?thesis
    unfolding parse_url_def cut1 prod.case if_not_P[OF ctl] after_authority_base[OF assms(1)] cut2
    by (simp split: option.splits)
qed

lemma parse_url_query:
  assumes "list_all path_safe host" and "CHR ''#'' \<notin> set (p @ q)" and "CHR ''?'' \<notin> set p"
    and "\<forall>c \<in> set (p @ q). \<not> is_ctl c"
  shows "parse_url (''http://'' @ host @ CHR ''/'' # p @ CHR ''?'' # q) =
    map_option (\<lambda>d. (CHR ''/'' # d, q)) (pct_decode p)"
proof -
  have ctl: "\<not> (\<exists>c \<in> set (''http://'' @ host @ CHR ''/'' # p @ CHR ''?'' # q). is_ctl c)"
    using safe_ctl[OF assms(1)] assms(4) by (auto simp: is_ctl_def)
  have cut1: "str_cut (CHR ''#'') (''http://'' @ host @ CHR ''/'' # p @ CHR ''?'' # q) =
      (''http://'' @ host @ CHR ''/'' # p @ CHR ''?'' # q, [])"
    using assms(2) no_hash[OF assms(1)] by (intro str_cut_absent) simp
  have cut2: "str_cut (CHR ''?'') (CHR ''/'' # p @ CHR ''?'' # q) = (CHR ''/'' # p, q)"
    using str_cut_at[of "CHR ''?''" "CHR ''/'' # p" q] assms(3) by simp
  show ?thesis
    unfolding parse_url_def cut1 prod.case if_not_P[OF ctl] after_authority_base[OF assms(1)] cut2
    by (simp split: option.splits)
qed

lemma page_char:
  "path_safe c \<or> c = CHR ''/'' \<Longrightarrow> c \<noteq> CHR ''#'' \<and> c \<noteq> CHR ''?'' \<and> c \<noteq> CHR ''%'' \<and> \<not> is_ctl c"
  by (elim disjE) (simp_all add: path_safe_def is_ctl_def)

text \<open>A request for a known page of the server.\<close>

lemma parse_page:
  assumes "list_all path_safe host" and "host \<noteq> []"
    and "list_all (\<lambda>c. path_safe c \<or> c = CHR ''/'') p"
  shows "parse_url (trim_right (CHR ''/'') (base_url host n) @ CHR ''/'' # p) = Some (CHR ''/'' # p, [])"
proof -
  have p: "CHR ''#'' \<notin> set p" "CHR ''?'' \<notin> set p" "CHR ''%'' \<notin> set p" "\<forall>c \<in> set p. \<not> is_ctl c"
    using assms(3) page_char unfolding list_all_iff by blast+
  show ?thesis
    using parse_url_plain[OF assms(1) p(1,2,4)] pct_decode_plain[OF p(3)] trim_right_base[OF assms(1,2), of n]
    by simp
qed

lemma page_chars:
  "list_all (\<lambda>c. path_safe c \<or> c = CHR ''/'') ''admin/kernels''"
  "list_all (\<lambda>c. path_safe c \<or> c = CHR ''/'') ''admin/health''"
  "list_all (\<lambda>c. path_safe c \<or> c = CHR ''/'') ''admin/kernels/''"
  "list_all path_safe ''restart''" "list_all path_safe ''drain''"
  by (simp_all add: path_safe_def is_ctl_def)

lemma page_routes:
  "admin_route ''/admin/kernels'' = KernelsPage" "admin_route ''/admin/health'' = HealthPage"
  "admin_route ''/admin/logs/stream'' = LogStream"
  by code_simp+

definition control_path :: "string \<Rightarrow> string \<Rightarrow> string" where
  "control_path i action = control_prefix @ i @ CHR ''/'' # action"

lemma list_all_slash: "list_all path_safe s \<Longrightarrow> list_all (\<lambda>c. path_safe c \<or> c = CHR ''/'') s"
  by (auto simp: list_all_iff)

lemma no_slash: "list_all path_safe s \<Longrightarrow> CHR ''/'' \<notin> set s"
  by (auto simp: list_all_iff path_safe_def)

lemma control_path_split:
  assumes "CHR ''/'' \<notin> set i" and "CHR ''/'' \<notin> set action"
  shows "split_on (CHR ''/'') (control_path i action) = [[], ''admin'', ''kernels'', i, action]"
proof -
  have "split_on (CHR ''/'') (i @ CHR ''/'' # action) = [i, action]"
    using split_on_append[OF assms(1), of action] split_on_no_sep[OF assms(2)] by simp
  then show ?thesis by (simp add: control_path_def control_prefix_def)
qed

lemma control_path_route:
  assumes "CHR ''/'' \<notin> set i" and "action \<in> {''restart'', ''drain''}"
  shows "admin_route (control_path i action) =
    (if i \<in> {[], ''.'', ''..''} then Redirected else ControlPage)"
proof -
  have "CHR ''/'' \<notin> set action" using assms(2) by auto
  note sp = control_path_split[OF assms(1) this]
  have clean: "path_clean (control_path i action) \<longleftrightarrow> i \<notin> {[], ''.'', ''..''}"
    using assms(2) by (auto simp: path_clean_def sp)
  have pre: "has_prefix (control_path i action) control_prefix"
    by (simp add: control_path_def)
  have ne: "control_path i action \<noteq> ''/admin/health''" "control_path i action \<noteq> ''/admin/kernels''"
    "control_path i action \<noteq> ''/admin/telemetry''" "control_path i action \<noteq> ''/admin/logs/stream''"
    by (simp_all add: control_path_def control_prefix_def)
  show ?thesis using clean pre ne by (simp add: admin_route_def)
qed

lemma action_path:
  assumes "list_all path_safe host" and "host \<noteq> []" and "list_all path_safe i" and "i \<noteq> []"
    and "action \<in> {''restart'', ''drain''}"
  shows "action_request (base_url host n) i action = Posted (control_path i action) []"
proof -
  have a: "list_all path_safe action" using assms(5) page_chars(4,5) by auto
  have "parse_url (trim_right (CHR ''/'') (base_url host n) @ CHR ''/'' # (''admin/kernels/'' @ i @ CHR ''/'' # action)) =
      Some (CHR ''/'' # (''admin/kernels/'' @ i @ CHR ''/'' # action), [])"
    by (rule parse_page[OF assms(1,2)])
      (use page_chars(3) list_all_slash[OF assms(3)] list_all_slash[OF a] in simp)
  then show ?thesis
    using assms(4) by (simp add: action_request_def action_url_def control_path_def control_prefix_def)
qed

lemma control_accepts:
  assumes "CHR ''/'' \<notin> set i" and "action \<in> {''restart'', ''drain''}"
  shows "rs_code (fst (control_handler ''POST'' (control_path i action) now t1 t2 t3 r)) = 202 \<and>
    (\<exists>rec. go_get (snd (control_handler ''POST'' (control_path i action) now t1 t2 t3 r)) i = Some rec \<and>
       h_Status (k_Health rec) = (if action = ''drain'' then HealthDraining else HealthReady))"
proof -
  have "CHR ''/'' \<notin> set action" using assms(2) by auto
  then have parts: "split_on (CHR ''/'') (trim_prefix (control_path i action) control_prefix) = [i, action]"
    using control_parse[OF assms(1)] by (simp add: control_path_def)
  show ?thesis
    using assms(2) go_get_update_health_same[of i _ t1 t2 t3 r]
    unfolding control_handler_def parts by (fastforce simp: Let_def)
qed

section \<open>Query parameters\<close>

definition plus_to_blank :: "char \<Rightarrow> char" where
  "plus_to_blank c = (if c = CHR ''+'' then CHR '' '' else c)"

lemma query_decode_alt: "query_decode s = pct_decode (map plus_to_blank s)"
  unfolding query_decode_def plus_to_blank_def by (rule refl)

lemma plain_query: "CHR ''%'' \<notin> set k \<Longrightarrow> CHR ''+'' \<notin> set k \<Longrightarrow> query_decode k = Some k"
proof -
  assume "CHR ''%'' \<notin> set k" "CHR ''+'' \<notin> set k"
  moreover from this(2) have "map plus_to_blank k = k" by (induction k) (auto simp: plus_to_blank_def)
  ultimately show ?thesis by (simp add: query_decode_alt pct_decode_plain)
qed

lemma hex_digits: "hex_digit (CHR ''2'') = Some 2" "hex_digit (CHR ''0'') = Some 0" "hex_digit (CHR ''3'') = Some 3"
  by (simp_all add: hex_digit_def)

lemma escaped_chars: "(char_of (32 :: nat) :: char) = CHR '' ''" "(char_of (35 :: nat) :: char) = CHR ''#''"
  by code_simp+

lemma query_decode_step:
  assumes "c \<noteq> CHR ''%''" and "c \<noteq> CHR ''+''"
  shows "query_decode (esc_char c @ s) = map_option (Cons c) (query_decode s)"
proof -
  consider (blank) "c = CHR '' ''" | (hash) "c = CHR ''#''" | (plain) "esc_char c = [c]"
    unfolding esc_char_def by presburger
  then show ?thesis
  proof cases
    case blank
    then show ?thesis by (simp add: esc_char_def query_decode_alt plus_to_blank_def hex_digits escaped_chars)
  next
    case hash
    then show ?thesis by (simp add: esc_char_def query_decode_alt plus_to_blank_def hex_digits escaped_chars)
  next
    case plain
    then show ?thesis using assms by (simp add: query_decode_alt plus_to_blank_def)
  qed
qed

lemma value_safe_char: "value_safe c \<Longrightarrow> c \<noteq> CHR ''%'' \<and> c \<noteq> CHR ''+'' \<and> c \<noteq> CHR ''&'' \<and> c \<noteq> CHR '';'' \<and> \<not> is_ctl c"
  by (simp add: value_safe_def)

lemma query_roundtrip: "list_all value_safe v \<Longrightarrow> query_decode (url_query_esc v) = Some v"
proof (induction v)
  case Nil
  then show ?case by (simp add: url_query_esc_chars query_decode_def)
next
  case (Cons c v)
  then show ?case
    using query_decode_step[of c "url_query_esc v"] value_safe_char[of c]
    by (simp add: url_query_esc_chars)
qed

definition query_plain :: "char \<Rightarrow> bool" where
  "query_plain c \<longleftrightarrow> c \<noteq> CHR ''&'' \<and> c \<noteq> CHR '';'' \<and> c \<noteq> CHR ''#'' \<and> \<not> is_ctl c"

lemma esc_char_plain: "value_safe c \<Longrightarrow> x \<in> set (esc_char c) \<Longrightarrow> query_plain x"
proof -
  assume c: "value_safe c" and x: "x \<in> set (esc_char c)"
  have "query_plain (CHR ''%'')" "query_plain (CHR ''2'')" "query_plain (CHR ''0'')" "query_plain (CHR ''3'')"
    by (simp_all add: query_plain_def is_ctl_def)
  moreover have "c \<noteq> CHR ''#'' \<Longrightarrow> query_plain c"
    using value_safe_char[OF c] by (simp add: query_plain_def)
  ultimately show ?thesis using x by (auto simp: esc_char_def split: if_splits)
qed

lemma esc_plain: "list_all value_safe v \<Longrightarrow> x \<in> set (url_query_esc v) \<Longrightarrow> query_plain x"
  unfolding url_query_esc_chars by (induction v) (auto dest: esc_char_plain)

lemma query_pair_value:
  assumes "list_all value_safe v" and "CHR ''='' \<notin> set k" and "CHR '';'' \<notin> set k"
    and "CHR ''%'' \<notin> set k" and "CHR ''+'' \<notin> set k"
  shows "query_pair (k @ CHR ''='' # url_query_esc v) = [(k, v)]"
proof -
  have "CHR '';'' \<notin> set (k @ CHR ''='' # url_query_esc v)"
    using esc_plain[OF assms(1)] assms(3) by (auto simp: query_plain_def)
  then show ?thesis
    using str_cut_at[OF assms(2)] plain_query[OF assms(4,5)] query_roundtrip[OF assms(1)]
    by (simp add: query_pair_def)
qed

definition logs_query :: "string \<Rightarrow> string \<Rightarrow> string \<Rightarrow> string \<Rightarrow> string" where
  "logs_query lv krn scope cmp =
     (''level'' @ CHR ''='' # url_query_esc lv) @ CHR ''&'' # (''kernel'' @ CHR ''='' # url_query_esc krn) @
     CHR ''&'' # (''scope'' @ CHR ''='' # url_query_esc scope) @ CHR ''&'' # (''component'' @ CHR ''='' # url_query_esc cmp)"

lemma logs_query_filter:
  assumes "list_all value_safe lv" and "list_all value_safe krn" and "list_all value_safe scope"
    and "list_all value_safe cmp"
  shows "query_filter (logs_query lv krn scope cmp) = stream_filter lv krn scope cmp"
proof -
  have amp: "CHR ''&'' \<notin> set (k @ CHR ''='' # url_query_esc v)"
    if "list_all value_safe v" and "CHR ''&'' \<notin> set k" for k v
    using esc_plain[OF that(1)] that(2) by (auto simp: query_plain_def)
  have "split_on (CHR ''&'') (logs_query lv krn scope cmp) =
      [''level'' @ CHR ''='' # url_query_esc lv, ''kernel'' @ CHR ''='' # url_query_esc krn,
       ''scope'' @ CHR ''='' # url_query_esc scope, ''component'' @ CHR ''='' # url_query_esc cmp]"
    unfolding logs_query_def
    by (subst split_on_append, rule amp[OF assms(1)], simp,
        subst split_on_append, rule amp[OF assms(2)], simp,
        subst split_on_append, rule amp[OF assms(3)], simp,
        subst split_on_no_sep, rule amp[OF assms(4)], simp_all)
  then have "concat (map query_pair (split_on (CHR ''&'') (logs_query lv krn scope cmp))) =
      [(''level'', lv), (''kernel'', krn), (''scope'', scope), (''component'', cmp)]"
    using query_pair_value[OF assms(1), of "''level''"] query_pair_value[OF assms(2), of "''kernel''"]
      query_pair_value[OF assms(3), of "''scope''"] query_pair_value[OF assms(4), of "''component''"]
    by simp
  then show ?thesis by (simp add: query_filter_def query_get_def)
qed

lemma logs_query_plain:
  assumes "list_all value_safe lv" and "list_all value_safe krn" and "list_all value_safe scope"
    and "list_all value_safe cmp" and "x \<in> set (logs_query lv krn scope cmp)"
  shows "x \<noteq> CHR ''#'' \<and> \<not> is_ctl x"
proof -
  have lits: "list_all query_plain (''level'' @ ''='')" "list_all query_plain (''kernel'' @ ''='')"
    "list_all query_plain (''scope'' @ ''='')" "list_all query_plain (''component'' @ ''='')"
    by (simp_all add: query_plain_def is_ctl_def)
  have vals: "list_all query_plain (url_query_esc v)" if "list_all value_safe v" for v
    using esc_plain[OF that] by (simp add: list_all_iff)
  have "list_all (\<lambda>c. query_plain c \<or> c = CHR ''&'') (logs_query lv krn scope cmp)"
    using lits vals[OF assms(1)] vals[OF assms(2)] vals[OF assms(3)] vals[OF assms(4)]
    unfolding logs_query_def list_all_append list.pred_inject(2) list_all_iff by (simp add: ball_Un)
  then have "query_plain x \<or> x = CHR ''&''" using assms(5) unfolding list_all_iff by blast
  then show ?thesis by (elim disjE) (simp_all add: query_plain_def is_ctl_def)
qed

section \<open>Properties of the requests\<close>

text \<open>
  What the operator asks for is what the server does: for any host and any number of trailing
  slashes in the base URL, the list and health commands reach their pages, and a restart or
  drain of an id of plain characters reaches the control handler, which is answered 202 and sets the
  health of exactly this id to ready or to draining.
\<close>
lemma requests_routed:
  assumes "list_all path_safe host" and "host \<noteq> []" and "list_all path_safe i"
    and "i \<notin> {[], ''.'', ''..''}" and "action \<in> {''restart'', ''drain''}"
  shows "map_option (admin_route \<circ> fst) (parse_url (list_url (base_url host n))) = Some KernelsPage \<and>
    map_option (admin_route \<circ> fst) (parse_url (health_url (base_url host n))) = Some HealthPage \<and>
    (\<exists>path. action_request (base_url host n) i action = Posted path [] \<and> admin_route path = ControlPage \<and>
      rs_code (fst (control_handler ''POST'' path now t1 t2 t3 r)) = 202 \<and>
      (\<exists>rec. go_get (snd (control_handler ''POST'' path now t1 t2 t3 r)) i = Some rec \<and>
         h_Status (k_Health rec) = (if action = ''drain'' then HealthDraining else HealthReady)))"
proof (intro conjI)
  note page = parse_page[OF assms(1,2), of _ n]
  show "map_option (admin_route \<circ> fst) (parse_url (list_url (base_url host n))) = Some KernelsPage"
    using page[OF page_chars(1)] page_routes by (simp add: list_url_def)
  show "map_option (admin_route \<circ> fst) (parse_url (health_url (base_url host n))) = Some HealthPage"
    using page[OF page_chars(2)] page_routes by (simp add: health_url_def)
  have "action_request (base_url host n) i action = Posted (control_path i action) []"
    using action_path[OF assms(1,2,3) _ assms(5)] assms(4) by simp
  moreover have "admin_route (control_path i action) = ControlPage"
    using control_path_route[OF no_slash[OF assms(3)] assms(5)] assms(4) by auto
  ultimately show "\<exists>path. action_request (base_url host n) i action = Posted path [] \<and> admin_route path = ControlPage \<and>
      rs_code (fst (control_handler ''POST'' path now t1 t2 t3 r)) = 202 \<and>
      (\<exists>rec. go_get (snd (control_handler ''POST'' path now t1 t2 t3 r)) i = Some rec \<and>
         h_Status (k_Health rec) = (if action = ''drain'' then HealthDraining else HealthReady))"
    using control_accepts[OF no_slash[OF assms(3)] assms(5), of now t1 t2 t3 r] by blast
qed

text \<open>
  The filter flags of rkctl reach the server as they were typed: for values without an ampersand, a
  semicolon, a plus sign, a percent sign or a control character, the request of the logs
  command goes to the log stream, whose handler builds the filter of exactly these values,
  blanks and hashes included.
\<close>
lemma logs_routed:
  assumes "list_all path_safe host" and "host \<noteq> []"
    and "list_all value_safe lv" and "list_all value_safe krn" and "list_all value_safe scope"
    and "list_all value_safe cmp"
  shows "\<exists>path query. parse_url (logs_url (base_url host n) lv krn scope cmp) = Some (path, query) \<and>
    admin_route path = LogStream \<and> query_filter query = stream_filter lv krn scope cmp"
proof -
  let ?q = "logs_query lv krn scope cmp" and ?p = "''admin/logs/stream''"
  have url: "logs_url (base_url host n) lv krn scope cmp = ''http://'' @ host @ CHR ''/'' # ?p @ CHR ''?'' # ?q"
    by (simp add: logs_url_def logs_query_def trim_right_base[OF assms(1,2)])
  have p: "CHR ''#'' \<notin> set ?p" "CHR ''?'' \<notin> set ?p" "CHR ''%'' \<notin> set ?p" "\<forall>c \<in> set ?p. \<not> is_ctl c"
    by (simp_all add: is_ctl_def)
  have q: "CHR ''#'' \<notin> set ?q" "\<forall>c \<in> set ?q. \<not> is_ctl c"
    using logs_query_plain[OF assms(3-6)] by blast+
  have "parse_url (''http://'' @ host @ CHR ''/'' # ?p @ CHR ''?'' # ?q) =
      map_option (\<lambda>d. (CHR ''/'' # d, ?q)) (pct_decode ?p)"
    by (rule parse_url_query[OF assms(1)]) (use p q in \<open>simp_all add: ball_Un\<close>)
  then show ?thesis
    unfolding url pct_decode_plain[OF p(3)]
    using page_routes(3) logs_query_filter[OF assms(3-6)] by simp
qed

text \<open>
  Ids that rkctl does not escape: with a percent sign at its end the URL does not parse and the
  client panics on the nil request; with a question mark the rest of the id and the action
  become the query, and the server answers 400 and changes nothing; a dot or two dots are
  redirected away by the server's router.
\<close>
theorem rkctl_unescaped_ids:
  assumes "list_all path_safe host" and "host \<noteq> []" and "list_all path_safe u"
    and "list_all (\<lambda>c. path_safe c) v" and "action \<in> {''restart'', ''drain''}"
  shows "action_request (base_url host n) (u @ ''%'') action = ClientPanics \<and>
    action_request (base_url host n) (u @ CHR ''?'' # v) action =
      Posted (control_prefix @ u) (v @ CHR ''/'' # action) \<and>
    (\<exists>err. control_handler ''POST'' (control_prefix @ u) now t1 t2 t3 r = (http_error err 400, r)) \<and>
    (i \<in> {''.'', ''..''} \<longrightarrow>
      (\<exists>path. action_request (base_url host n) i action = Posted path [] \<and> admin_route path = Redirected))"
proof (intro conjI impI)
  note tb = trim_right_base[OF assms(1,2), of n]
  have a: "list_all path_safe action" using assms(5) page_chars(4,5) by auto
  have ok: "c \<in> set u \<union> set v \<union> set action \<Longrightarrow>
      c \<noteq> CHR ''#'' \<and> c \<noteq> CHR ''?'' \<and> c \<noteq> CHR ''%'' \<and> \<not> is_ctl c" for c
    using assms(3,4) a page_char unfolding list_all_iff by blast
  have k: "CHR ''#'' \<notin> set ''admin/kernels/''" "CHR ''?'' \<notin> set ''admin/kernels/''"
      "CHR ''%'' \<notin> set ''admin/kernels/''" "\<forall>c \<in> set ''admin/kernels/''. \<not> is_ctl c"
      "\<not> is_ctl (CHR ''%'')" "\<not> is_ctl (CHR ''/'')"
    by (simp_all add: is_ctl_def)
  have bad: "pct_decode (CHR ''%'' # CHR ''/'' # action) = None" by (cases action) (simp_all add: hex_digit_def)
  let ?p = "''admin/kernels/'' @ u @ CHR ''%'' # CHR ''/'' # action"
  have "CHR ''%'' \<notin> set (''admin/kernels/'' @ u)" using k(3) ok by auto
  then have "pct_decode ((''admin/kernels/'' @ u) @ CHR ''%'' # CHR ''/'' # action) = None"
    using bad pct_decode_append by (metis option.simps(8))
  then have dec: "pct_decode ?p = None" by simp
  have "parse_url (''http://'' @ host @ CHR ''/'' # ?p) = map_option (\<lambda>d. (CHR ''/'' # d, [])) (pct_decode ?p)"
    by (rule parse_url_plain[OF assms(1)]) (use k ok in auto)
  then show "action_request (base_url host n) (u @ ''%'') action = ClientPanics"
    using tb dec by (simp add: action_request_def action_url_def)
  have "CHR ''%'' \<notin> set (''admin/kernels/'' @ u)" using k(3) ok by auto
  note plain = pct_decode_plain[OF this]
  have "parse_url (''http://'' @ host @ CHR ''/'' # (''admin/kernels/'' @ u) @ CHR ''?'' # (v @ CHR ''/'' # action)) =
      map_option (\<lambda>d. (CHR ''/'' # d, v @ CHR ''/'' # action)) (pct_decode (''admin/kernels/'' @ u))"
    by (rule parse_url_query[OF assms(1)]) (use k ok in auto)
  then show "action_request (base_url host n) (u @ CHR ''?'' # v) action =
      Posted (control_prefix @ u) (v @ CHR ''/'' # action)"
    using tb plain by (simp add: action_request_def action_url_def control_prefix_def)
  have "split_on (CHR ''/'') (trim_prefix (control_prefix @ u) control_prefix) = [u]"
    using split_on_no_sep[OF no_slash[OF assms(3)]] by simp
  then show "\<exists>err. control_handler ''POST'' (control_prefix @ u) now t1 t2 t3 r = (http_error err 400, r)"
    by (auto simp: control_handler_def)
  assume i: "i \<in> {''.'', ''..''}"
  then have "list_all path_safe i" "i \<noteq> []" by (auto simp: path_safe_def is_ctl_def)
  then show "\<exists>path. action_request (base_url host n) i action = Posted path [] \<and> admin_route path = Redirected"
    using action_path[OF assms(1,2) _ _ assms(5)] control_path_route[OF no_slash assms(5), of i] i by auto
qed

lemma sample_chars:
  "list_all path_safe ''localhost:8090''" "list_all path_safe ''site''" "list_all value_safe ''a #1''"
  "list_all value_safe []" "list_all value_safe ''WARN''"
  by (simp_all add: path_safe_def value_safe_def is_ctl_def)

theorem rkctl_unescaped_ids_witness:
  "action_request (base_url ''localhost:8090'' 0) (''site'' @ ''%'') ''drain'' = ClientPanics"
  using rkctl_unescaped_ids[OF sample_chars(1) _ sample_chars(2), of "[]" "''drain''" 0] by simp

end
