(* ===== verification/Rkctl_Main.thy ===== *)
theory Rkctl_Main
  imports Http_Routes
begin

text \<open>
  The command line of \<open>rkctl\<close> from its words to the answer it shows (\<open>cmd/rkctl/main_run_gen.go\<close>): the
  dispatch of \<open>main\<close>, the flags of each command as the \<open>flag\<close> package parses them, the request, and what
  is written for the response. Together with the admin server this gives what a command does to the
  node.
\<close>

section \<open>Flags\<close>

datatype flag_kind = StringFlag | BoolFlag

type_synonym flag_set = "(string \<times> flag_kind) list"
type_synonym flag_values = "string \<Rightarrow> string"

datatype flag_error = FlagHelp | FlagError

text \<open>One word of the command line, as \<open>FlagSet.parseOne\<close> sees it.\<close>

datatype flag_word = NotAFlag | Terminator | BadFlag | Flag string "string option"

definition flag_word :: "string \<Rightarrow> flag_word" where
  "flag_word s = (case s of
       [] \<Rightarrow> NotAFlag
     | c # r \<Rightarrow>
         if c \<noteq> CHR ''-'' \<or> r = [] then NotAFlag
         else if r = ''-'' then Terminator
         else (let name = (if hd r = CHR ''-'' then tl r else r)
               in if hd name = CHR ''-'' \<or> hd name = CHR ''='' then BadFlag
                  else if CHR ''='' \<in> set name
                  then (case str_cut (CHR ''='') name of (n, v) \<Rightarrow> Flag n (Some v))
                  else Flag name None))"

definition parse_bool :: "string \<Rightarrow> bool option" where
  "parse_bool s =
     (if s \<in> set [''1'', ''t'', ''T'', ''TRUE'', ''true'', ''True''] then Some True
      else if s \<in> set [''0'', ''f'', ''F'', ''FALSE'', ''false'', ''False''] then Some False
      else None)"

definition bool_text :: "bool \<Rightarrow> string" where
  "bool_text b = (if b then ''true'' else ''false'')"

text \<open>\<open>FlagSet.Parse\<close>: the words after the first that is no flag are left alone.\<close>

fun parse_flags :: "flag_set \<Rightarrow> string list \<Rightarrow> flag_values \<Rightarrow> flag_error + flag_values" where
  "parse_flags fs [] vs = Inr vs"
| "parse_flags fs (s # args) vs =
     (case flag_word s of
        NotAFlag \<Rightarrow> Inr vs
      | Terminator \<Rightarrow> Inr vs
      | BadFlag \<Rightarrow> Inl FlagError
      | Flag n v \<Rightarrow>
          (case map_of fs n of
             None \<Rightarrow> Inl (if n = ''help'' \<or> n = ''h'' then FlagHelp else FlagError)
           | Some BoolFlag \<Rightarrow>
               (case v of
                  None \<Rightarrow> parse_flags fs args (vs(n := ''true''))
                | Some x \<Rightarrow> (case parse_bool x of
                      None \<Rightarrow> Inl FlagError
                    | Some b \<Rightarrow> parse_flags fs args (vs(n := bool_text b))))
           | Some StringFlag \<Rightarrow>
               (case v of
                  Some x \<Rightarrow> parse_flags fs args (vs(n := x))
                | None \<Rightarrow> (case args of
                      [] \<Rightarrow> Inl FlagError
                    | x # rest \<Rightarrow> parse_flags fs rest (vs(n := x))))))"

text \<open>\<open>flag.ExitOnError\<close>.\<close>

definition flag_exit :: "flag_error \<Rightarrow> client_result" where
  "flag_exit e = FlagExit (case e of FlagHelp \<Rightarrow> 0 | FlagError \<Rightarrow> 2)"

section \<open>The commands\<close>

definition http_flags :: flag_set where "http_flags = [(''http'', StringFlag)]"

definition http_defaults :: flag_values where "http_defaults = (\<lambda>_. [])(''http'' := default_http)"

definition action_flags :: flag_set where "action_flags = [(''http'', StringFlag), (''id'', StringFlag)]"

definition logs_flags :: flag_set where
  "logs_flags = [(''http'', StringFlag), (''level'', StringFlag), (''kernel'', StringFlag), (''scope'', StringFlag),
     (''component'', StringFlag), (''pretty'', BoolFlag), (''compact'', BoolFlag)]"

definition logs_defaults :: flag_values where
  "logs_defaults = http_defaults(''level'' := ''INFO'', ''pretty'' := bool_text False, ''compact'' := bool_text False)"

definition http_get :: "string \<Rightarrow> client_result" where
  "http_get url = (case parse_url url of None \<Rightarrow> HttpError | Some (path, query) \<Rightarrow> Got path query)"

definition cmd_kernels_list :: "string list \<Rightarrow> client_result" where
  "cmd_kernels_list args = (case parse_flags http_flags args http_defaults of
       Inl e \<Rightarrow> flag_exit e
     | Inr vs \<Rightarrow> http_get (list_url (vs ''http'')))"

definition cmd_kernels_health :: "string list \<Rightarrow> client_result" where
  "cmd_kernels_health args = (case parse_flags http_flags args http_defaults of
       Inl e \<Rightarrow> flag_exit e
     | Inr vs \<Rightarrow> http_get (health_url (vs ''http'')))"

definition cmd_kernels_action :: "string list \<Rightarrow> string \<Rightarrow> client_result" where
  "cmd_kernels_action args action = (case parse_flags action_flags args http_defaults of
       Inl e \<Rightarrow> flag_exit e
     | Inr vs \<Rightarrow> action_request (vs ''http'') (vs ''id'') action)"

definition cmd_logs :: "string list \<Rightarrow> client_result" where
  "cmd_logs args = (case parse_flags logs_flags args logs_defaults of
       Inl e \<Rightarrow> flag_exit e
     | Inr vs \<Rightarrow> (case parse_url (logs_url (vs ''http'') (vs ''level'') (vs ''kernel'') (vs ''scope'') (vs ''component'')) of
           None \<Rightarrow> HttpError
         | Some (path, query) \<Rightarrow> Followed path query (vs ''pretty'' = ''true'') (vs ''compact'' = ''true'')))"

definition rkctl_main :: "string list \<Rightarrow> client_result" where
  "rkctl_main args =
     (if length args < 2 then Usage
      else if args ! 1 = ''logs'' then cmd_logs (drop 2 args)
      else if args ! 1 = ''kernels''
      then (if length args < 3 then Usage
            else if args ! 2 = ''list'' then cmd_kernels_list (drop 3 args)
            else if args ! 2 = ''health'' then cmd_kernels_health (drop 3 args)
            else if args ! 2 = ''restart'' then cmd_kernels_action (drop 3 args) ''restart''
            else if args ! 2 = ''drain'' then cmd_kernels_action (drop 3 args) ''drain''
            else Usage)
      else Usage)"

text \<open>
  What is written to standard output and standard error: the transport fails with an error or yields
  the chunks of the body. \<open>flds pretty rec\<close> is the JSON of the fields, \<open>ts rec\<close> the time.
\<close>

definition show_answer :: "go_error + (string \<times> bool) list \<Rightarrow> string \<times> string" where
  "show_answer res = (case res of
       Inl err \<Rightarrow> ([], ''http error: '' @ err @ newline)
     | Inr chunks \<Rightarrow> (io_copy chunks, []))"

definition show_logs ::
  "(string \<Rightarrow> log_record_v2 option) \<Rightarrow> (log_record_v2 \<Rightarrow> string) \<Rightarrow> (bool \<Rightarrow> log_record_v2 \<Rightarrow> string)
    \<Rightarrow> bool \<Rightarrow> bool \<Rightarrow> go_error + (string \<times> bool) list \<Rightarrow> string \<times> string" where
  "show_logs dec ts flds pretty compact res = (case res of
       Inl err \<Rightarrow> ([], ''http error: '' @ err @ newline)
     | Inr chunks \<Rightarrow>
         (concat (map (\<lambda>rec. print_log rec (ts rec) (flds pretty rec) compact)
            (client_records dec (io_copy chunks))), []))"

section \<open>Flags read back\<close>

text \<open>The ways to write a flag: with one dash or two, its value as the next word or after an equals sign.\<close>

datatype setting = Spaced bool string string | Joined bool string string | Switch bool string

definition dashes :: "bool \<Rightarrow> string" where "dashes two = (if two then ''--'' else ''-'')"

fun setting_words :: "setting \<Rightarrow> string list" where
  "setting_words (Spaced two n v) = [dashes two @ n, v]"
| "setting_words (Joined two n v) = [dashes two @ n @ CHR ''='' # v]"
| "setting_words (Switch two n) = [dashes two @ n]"

fun apply_setting :: "flag_values \<Rightarrow> setting \<Rightarrow> flag_values" where
  "apply_setting vs (Spaced two n v) = vs(n := v)"
| "apply_setting vs (Joined two n v) = vs(n := v)"
| "apply_setting vs (Switch two n) = vs(n := ''true'')"

fun setting_ok :: "flag_set \<Rightarrow> setting \<Rightarrow> bool" where
  "setting_ok fs (Spaced two n v) \<longleftrightarrow> map_of fs n = Some StringFlag"
| "setting_ok fs (Joined two n v) \<longleftrightarrow> map_of fs n = Some StringFlag"
| "setting_ok fs (Switch two n) \<longleftrightarrow> map_of fs n = Some BoolFlag"

definition plain_names :: "flag_set \<Rightarrow> bool" where
  "plain_names fs \<longleftrightarrow> (\<forall>(n, k) \<in> set fs. n \<noteq> [] \<and> CHR ''='' \<notin> set n \<and> hd n \<noteq> CHR ''-'')"

lemma flag_word_dashes:
  assumes "n \<noteq> []" and "CHR ''='' \<notin> set n" and "hd n \<noteq> CHR ''-''"
  shows "flag_word (dashes two @ n) = Flag n None"
    and "flag_word (dashes two @ n @ CHR ''='' # v) = Flag n (Some v)"
proof -
  obtain c m where n: "n = c # m" using assms(1) by (cases n) auto
  have c: "c \<noteq> CHR ''-''" "c \<noteq> CHR ''=''" using assms(2,3) by (auto simp: n)
  have cut: "str_cut (CHR ''='') (n @ CHR ''='' # v) = (n, v)" by (rule str_cut_at[OF assms(2)])
  show "flag_word (dashes two @ n) = Flag n None"
    using assms(2) c by (simp add: flag_word_def dashes_def n)
  show "flag_word (dashes two @ n @ CHR ''='' # v) = Flag n (Some v)"
    using c cut by (simp add: flag_word_def dashes_def n)
qed

lemma parse_settings:
  assumes "plain_names fs" and "list_all (setting_ok fs) ss"
  shows "parse_flags fs (concat (map setting_words ss) @ rest) vs =
    parse_flags fs rest (foldl apply_setting vs ss)"
  using assms(2)
proof (induction ss arbitrary: vs)
  case (Cons s ss)
  have name: "n \<noteq> [] \<and> CHR ''='' \<notin> set n \<and> hd n \<noteq> CHR ''-''" if "map_of fs n = Some k" for n k
    using assms(1) map_of_SomeD[OF that] by (auto simp: plain_names_def)
  show ?case
  proof (cases s)
    case (Spaced two n v)
    then show ?thesis using Cons name[of n] flag_word_dashes(1)[of n two] by simp
  next
    case (Joined two n v)
    then show ?thesis using Cons name[of n] flag_word_dashes(2)[of n two v] by simp
  next
    case (Switch two n)
    then show ?thesis using Cons name[of n] flag_word_dashes(1)[of n two] by simp
  qed
qed simp

lemma flag_names [simp]: "plain_names http_flags" "plain_names action_flags" "plain_names logs_flags"
  by (simp_all add: plain_names_def http_flags_def action_flags_def logs_flags_def)

section \<open>Commands served by the node\<close>

text \<open>The request as the server sees it; \<open>rkctl\<close> sends no body.\<close>

definition client_request :: "string \<Rightarrow> string \<Rightarrow> string \<Rightarrow> request" where
  "client_request meth path query =
     \<lparr>rq_method = meth, rq_path = path, rq_filter = query_filter query, rq_level = None\<rparr>"

definition settings_words :: "setting list \<Rightarrow> string list" where
  "settings_words ss = concat (map setting_words ss)"

lemma parse_settings_all:
  "plain_names fs \<Longrightarrow> list_all (setting_ok fs) ss \<Longrightarrow>
     parse_flags fs (settings_words ss) vs = Inr (foldl apply_setting vs ss)"
  using parse_settings[of fs ss "[]" vs] by (simp add: settings_words_def)

lemma serve_control:
  assumes "admin_route path = ControlPage"
  shows "admin_serve ord1 ord2 clk (client_request ''POST'' path q) s =
    (Responds (fst (control_handler ''POST'' path (clk 0) (clk 1) (clk 2) (clk 3) (as_reg s))),
     s\<lparr>as_reg := snd (control_handler ''POST'' path (clk 0) (clk 1) (clk 2) (clk 3) (as_reg s))\<rparr>)"
  using assms by (simp add: admin_serve_def client_request_def split: prod.splits)

lemma control_path_others:
  assumes "CHR ''/'' \<notin> set i" and "action \<in> {''restart'', ''drain''}" and "j \<noteq> i"
  shows "go_get (snd (control_handler ''POST'' (control_path i action) now t1 t2 t3 r)) j = go_get r j"
proof -
  have "CHR ''/'' \<notin> set action" using assms(2) by auto
  then have parts: "split_on (CHR ''/'') (trim_prefix (control_path i action) control_prefix) = [i, action]"
    using control_parse[OF assms(1)] by (simp add: control_path_def)
  show ?thesis using assms(2,3) unfolding control_handler_def parts by (auto simp: Let_def)
qed

lemma action_posted:
  assumes "action \<in> {''restart'', ''drain''}" and "list_all (setting_ok action_flags) ss"
    and "foldl apply_setting http_defaults ss ''http'' = base_url host n"
    and "foldl apply_setting http_defaults ss ''id'' = i"
    and "list_all path_safe host" and "host \<noteq> []" and "list_all path_safe i" and "i \<noteq> []"
  shows "rkctl_main ([''rkctl'', ''kernels'', action] @ settings_words ss) = Posted (control_path i action) []"
proof -
  have "rkctl_main ([''rkctl'', ''kernels'', action] @ settings_words ss) =
      cmd_kernels_action (settings_words ss) action"
    using assms(1) by (auto simp: rkctl_main_def)
  also have "\<dots> = Posted (control_path i action) []"
    using action_path[OF assms(5,6,7) _ assms(1), of n] assms(3,4,8)
    by (simp add: cmd_kernels_action_def parse_settings_all[OF flag_names(2) assms(2)])
  finally show ?thesis .
qed

lemma list_got:
  assumes "list_all (setting_ok http_flags) hs" and "foldl apply_setting http_defaults hs ''http'' = base_url host n"
    and "list_all path_safe host" and "host \<noteq> []"
  shows "rkctl_main ([''rkctl'', ''kernels'', ''list''] @ settings_words hs) = Got ''/admin/kernels'' []"
  using parse_page[OF assms(3,4) page_chars(1), of n] assms(2)
  by (simp add: rkctl_main_def cmd_kernels_list_def parse_settings_all[OF flag_names(1) assms(1)] http_get_def
      list_url_def)

lemma list_served:
  "admin_serve ord1 ord2 clk (client_request ''GET'' ''/admin/kernels'' []) s = (KernelsAnswer (kernels ord1), s)"
  using page_routes by (simp add: admin_serve_def client_request_def)

text \<open>
  From the words of the command line to the registry of the node: for flags written in any of the ways
  the flag package accepts, in any order and repeated, that end up with a base URL (with any
  number of trailing slashes) and an id of plain characters, \<open>rkctl kernels restart\<close> and
  \<open>rkctl kernels drain\<close> post one request, the server routes it to the control handler and answers 202, the record of
  exactly this id is set to ready or draining, and no other record changes.
\<close>
theorem rkctl_action_served:
  assumes "action \<in> {''restart'', ''drain''}" and "list_all (setting_ok action_flags) ss"
    and "foldl apply_setting http_defaults ss ''http'' = base_url host n"
    and "foldl apply_setting http_defaults ss ''id'' = i"
    and "list_all path_safe host" and "host \<noteq> []" and "list_all path_safe i" and "i \<notin> {[], ''.'', ''..''}"
  shows "\<exists>path resp s'. rkctl_main ([''rkctl'', ''kernels'', action] @ settings_words ss) = Posted path [] \<and>
    admin_serve ord1 ord2 clk (client_request ''POST'' path []) s = (Responds resp, s') \<and> rs_code resp = 202 \<and>
    (\<exists>rec. go_get (as_reg s') i = Some rec \<and>
       h_Status (k_Health rec) = (if action = ''drain'' then HealthDraining else HealthReady)) \<and>
    (\<forall>j. j \<noteq> i \<longrightarrow> go_get (as_reg s') j = go_get (as_reg s) j)"
proof -
  note slash = no_slash[OF assms(7)]
  have main: "rkctl_main ([''rkctl'', ''kernels'', action] @ settings_words ss) = Posted (control_path i action) []"
    using assms(8) by (intro action_posted[OF assms(1-7)]) auto
  have route: "admin_route (control_path i action) = ControlPage"
    using control_path_route[OF slash assms(1)] assms(8) by auto
  show ?thesis
    using main serve_control[OF route, of ord1 ord2 clk "[]" s]
      control_accepts[OF slash assms(1)] control_path_others[OF slash assms(1)] by simp
qed

text \<open>
  What the reading commands show: \<open>rkctl kernels list\<close> and \<open>rkctl kernels health\<close> get the kernels and the
  health of the node, and \<open>rkctl logs\<close> follows the stream with the filter of exactly the values of its flags (those
  not given being INFO for the level and empty otherwise), blanks and hashes included, for
  values without an ampersand, a semicolon, a plus sign, a percent sign or a control character.
\<close>
theorem rkctl_views_served:
  assumes "list_all (setting_ok http_flags) hs" and "list_all (setting_ok logs_flags) ls"
    and "foldl apply_setting http_defaults hs ''http'' = base_url host n"
    and "vs = foldl apply_setting logs_defaults ls" and "vs ''http'' = base_url host n"
    and "list_all path_safe host" and "host \<noteq> []"
    and "list_all value_safe (vs ''level'')" and "list_all value_safe (vs ''kernel'')"
    and "list_all value_safe (vs ''scope'')" and "list_all value_safe (vs ''component'')"
  shows "(\<exists>path. rkctl_main ([''rkctl'', ''kernels'', ''list''] @ settings_words hs) = Got path [] \<and>
      admin_serve ord1 ord2 clk (client_request ''GET'' path []) s = (KernelsAnswer (kernels ord1), s)) \<and>
    (\<exists>path. rkctl_main ([''rkctl'', ''kernels'', ''health''] @ settings_words hs) = Got path [] \<and>
      admin_serve ord1 ord2 clk (client_request ''GET'' path []) s =
        (HealthAnswer (admin_health (as_health s) ord1 ord2 (clk 0) (clk 1) (clk 2)), s)) \<and>
    (\<exists>path query. rkctl_main ([''rkctl'', ''logs''] @ settings_words ls) =
        Followed path query (vs ''pretty'' = ''true'') (vs ''compact'' = ''true'') \<and>
      admin_serve ord1 ord2 clk (client_request ''GET'' path query) s =
        (Streams (stream_filter (vs ''level'') (vs ''kernel'') (vs ''scope'') (vs ''component'')), s))"
proof (intro conjI)
  note page = parse_page[OF assms(6,7), of _ n]
  show "\<exists>path. rkctl_main ([''rkctl'', ''kernels'', ''list''] @ settings_words hs) = Got path [] \<and>
      admin_serve ord1 ord2 clk (client_request ''GET'' path []) s = (KernelsAnswer (kernels ord1), s)"
    using list_got[OF assms(1,3,6,7)] list_served by blast
  show "\<exists>path. rkctl_main ([''rkctl'', ''kernels'', ''health''] @ settings_words hs) = Got path [] \<and>
      admin_serve ord1 ord2 clk (client_request ''GET'' path []) s =
        (HealthAnswer (admin_health (as_health s) ord1 ord2 (clk 0) (clk 1) (clk 2)), s)"
    using page[OF page_chars(2)] page_routes assms(3)
    by (simp add: rkctl_main_def cmd_kernels_health_def parse_settings_all[OF flag_names(1) assms(1)] http_get_def
        health_url_def admin_serve_def client_request_def)
  obtain path query where logs: "parse_url (logs_url (base_url host n) (vs ''level'') (vs ''kernel'') (vs ''scope'')
        (vs ''component'')) = Some (path, query)" "admin_route path = LogStream"
      "query_filter query = stream_filter (vs ''level'') (vs ''kernel'') (vs ''scope'') (vs ''component'')"
    using logs_routed[OF assms(6-11), of n] by blast
  show "\<exists>path query. rkctl_main ([''rkctl'', ''logs''] @ settings_words ls) =
        Followed path query (vs ''pretty'' = ''true'') (vs ''compact'' = ''true'') \<and>
      admin_serve ord1 ord2 clk (client_request ''GET'' path query) s =
        (Streams (stream_filter (vs ''level'') (vs ''kernel'') (vs ''scope'') (vs ''component'')), s)"
    using logs parse_settings_all[OF flag_names(3) assms(2), of logs_defaults] assms(4,5)
    by (simp add: rkctl_main_def cmd_logs_def admin_serve_def client_request_def)
qed

lemma default_base: "http_defaults ''http'' = base_url ''localhost:8090'' 0"
  "n \<noteq> ''http'' \<Longrightarrow> http_defaults n = []"
  by (simp_all add: http_defaults_def default_http_def base_url_def)

theorem rkctl_action_served_witness:
  "\<exists>path resp s'. rkctl_main [''rkctl'', ''kernels'', ''drain'', ''-http=http://localhost:8090/'', ''--id'', ''site''] =
       Posted path [] \<and>
     admin_serve [] [] (\<lambda>_. 1) (client_request ''POST'' path []) (new_admin_server []) = (Responds resp, s') \<and>
     rs_code resp = 202"
  using rkctl_action_served[of "''drain''" "[Joined False ''http'' ''http://localhost:8090/'', Spaced True ''id'' ''site'']"
      "''localhost:8090''" 1 "''site''" "[]" "[]" "\<lambda>_. 1" "new_admin_server []", OF _ _ _ _ sample_chars(1) _ sample_chars(2)]
  by (auto simp: settings_words_def dashes_def base_url_def action_flags_def)

theorem rkctl_views_served_witness:
  "\<exists>path query. rkctl_main [''rkctl'', ''logs'', ''--level'', ''WARN'', ''--component=a #1'', ''--compact''] =
       Followed path query False True \<and>
     admin_serve [] [] (\<lambda>_. 1) (client_request ''GET'' path query) (new_admin_server []) =
       (Streams (stream_filter ''WARN'' [] [] ''a #1''), new_admin_server [])"
  using rkctl_views_served[of "[]" "[Spaced True ''level'' ''WARN'', Joined True ''component'' ''a #1'', Switch True ''compact'']"
      "''localhost:8090''" 0 _ "[]" "[]" "\<lambda>_. 1" "new_admin_server []", OF _ _ _ refl _ sample_chars(1)]
  by (simp add: settings_words_def dashes_def logs_flags_def logs_defaults_def default_base bool_text_def value_safe_def is_ctl_def)

end
