(* ===== verification/Admin_Json.thy ===== *)
theory Admin_Json
  imports Json_Codec Rkctl_Main
begin

text \<open>
  The bodies of the admin endpoints: the JSON of kernels, health reports and exports with the tags of
  \<open>platform/contracts\<close> and \<open>cmd/rk/discovery_registry_gen.go\<close>, what the handlers of
  \<open>http_admin_server_gen.go\<close>, \<open>http_admin_control_gen.go\<close> and \<open>http_admin_telemetry_gen.go\<close> write, and how the
  telemetry handler reads its request. With \<open>Rkctl_Main\<close> this goes from a command line to the text on the
  terminal. The text of a time is the argument \<open>ft\<close>, as in \<open>Json_Codec\<close>.
\<close>

section \<open>Exports, health and kernels\<close>

definition omit_empty_list :: "string \<Rightarrow> ('a \<Rightarrow> json) \<Rightarrow> 'a slice \<Rightarrow> (string \<times> json) list" where
  "omit_empty_list name f xs = (case xs of
       None \<Rightarrow> [] | Some ys \<Rightarrow> if ys = [] then [] else [(name, JArr (map f ys))])"

definition endpoint_json :: "network_endpoint \<Rightarrow> json" where
  "endpoint_json e = JObj
     ([(''name'', JStr (ne_Name e)), (''protocol'', JStr (ne_Protocol e)), (''address'', JStr (ne_Address e))] @
      omit_empty ''version'' (ne_Version e) @ omit_empty_list ''endpoints'' JStr (ne_Endpoints e))"

definition event_spec_json :: "event_spec \<Rightarrow> json" where
  "event_spec_json e = JObj ([(''topic'', JStr (es_Topic e))] @ omit_empty ''description'' (es_Description e))"

definition stream_spec_json :: "stream_spec \<Rightarrow> json" where
  "stream_spec_json e = JObj ([(''topic'', JStr (ss_Topic e))] @ omit_empty ''group'' (ss_Group e) @
     omit_empty ''dlq'' (ss_DLQ e) @ omit_empty ''delivery'' (ss_Delivery e))"

definition cli_command_json :: "cli_command \<Rightarrow> json" where
  "cli_command_json e = JObj ([(''name'', JStr (cc_Name e))] @ omit_empty ''description'' (cc_Description e))"

definition local_service_json :: "local_service \<Rightarrow> json" where
  "local_service_json e = JObj ([(''name'', JStr (ls_Name e)), (''interface'', JStr (ls_Interface e))] @
     omit_empty ''version'' (ls_Version e))"

definition exports_json :: "kernel_exports \<Rightarrow> json" where
  "exports_json x = JObj
     (omit_empty_list ''network'' endpoint_json (x_Network x) @ omit_empty_list ''events'' event_spec_json (x_Events x) @
      omit_empty_list ''streams'' stream_spec_json (x_Streams x) @ omit_empty_list ''cli'' cli_command_json (x_CLI x) @
      omit_empty_list ''local'' local_service_json (x_Local x))"

definition health_json :: "(gotime \<Rightarrow> string option) \<Rightarrow> health \<Rightarrow> json option" where
  "health_json ft h = map_option (\<lambda>ts. JObj ([(''status'', JStr (h_Status h))] @
     omit_empty ''reason'' (h_Reason h) @ [(''since'', JStr ts)])) (ft (h_Since h))"

text \<open>The pointer to the exports is left out when it is nil, not when it points to empty exports.\<close>

definition kernel_record_json :: "(gotime \<Rightarrow> string option) \<Rightarrow> kernel_record \<Rightarrow> json option" where
  "kernel_record_json ft r =
     (case (health_json ft (k_Health r), ft (k_RegisteredAt r), ft (k_UpdatedAt r)) of
        (Some h, Some t1, Some t2) \<Rightarrow> Some (JObj
          ([(''id'', JStr (k_ID r)), (''scope'', JStr (k_Scope r)), (''manifest'', manifest_json (k_Manifest r)),
            (''health'', h)] @
           (case k_Exports r of None \<Rightarrow> [] | Some x \<Rightarrow> [(''exports'', exports_json x)]) @
           [(''registered_at'', JStr t1), (''updated_at'', JStr t2)]))
      | _ \<Rightarrow> None)"

section \<open>The bodies\<close>

text \<open>\<open>Encoder.Encode\<close> ends with a newline; its error is ignored, and nothing is written then.\<close>

definition encode_line :: "json option \<Rightarrow> string" where
  "encode_line j = (case j of None \<Rightarrow> [] | Some v \<Rightarrow> print_json v None @ newline)"

definition kernels_json :: "(gotime \<Rightarrow> string option) \<Rightarrow> kernel_record list \<Rightarrow> json option" where
  "kernels_json ft recs = map_option JArr (those (map (kernel_record_json ft) recs))"

definition health_map_json :: "(gotime \<Rightarrow> string option) \<Rightarrow> (string, health) gomap \<Rightarrow> json option" where
  "health_map_json ft m =
     map_option JObj (those_snd (map (map_prod id (health_json ft)) (sorted_entries m)))"

definition health_answer_json ::
  "(gotime \<Rightarrow> string option) \<Rightarrow> gotime \<Rightarrow> health \<times> (string, health) gomap \<Rightarrow> json option" where
  "health_answer_json ft now hk = map_option JObj (those_snd (sorted_entries
     [(''summary'', health_json ft (fst hk)), (''kernels'', health_map_json ft (snd hk)),
      (''generated_at'', map_option JStr (ft now))]))"

text \<open>\<open>http.Error\<close> writes its text and a newline.\<close>

definition body_text :: "body \<Rightarrow> string" where
  "body_text b = (case b of
       TextBody s \<Rightarrow> s @ newline
     | JsonBody kvs \<Rightarrow> encode_line (Some (JObj (sorted_entries (map (map_prod id JStr) kvs))))
     | NoBody \<Rightarrow> [])"

definition answer_text :: "(gotime \<Rightarrow> string option) \<Rightarrow> gotime \<Rightarrow> answer \<Rightarrow> string option" where
  "answer_text ft now a = (case a of
       Responds r \<Rightarrow> Some (body_text (rs_body r))
     | HealthAnswer hk \<Rightarrow> Some (encode_line (health_answer_json ft now hk))
     | KernelsAnswer recs \<Rightarrow> Some (encode_line (kernels_json ft recs))
     | _ \<Rightarrow> None)"

section \<open>The body of a telemetry request\<close>

text \<open>
  \<open>json.NewDecoder(r.Body).Decode\<close> reads one value and leaves the rest of the body; a member of another name
  is skipped, the name is compared without regard to case, a later one wins, \<open>null\<close> changes nothing.
\<close>

fun level_members :: "(string \<times> json) list \<Rightarrow> string \<Rightarrow> string option" where
  "level_members [] lv = Some lv"
| "level_members ((name, v) # kvs) lv =
     (if json_fold name = ''LEVEL''
      then (case v of JStr s \<Rightarrow> level_members kvs s | JNull \<Rightarrow> level_members kvs lv | _ \<Rightarrow> None)
      else level_members kvs lv)"

definition decode_level :: "string \<Rightarrow> string option" where
  "decode_level body = (case read_value max_nesting body of
       Some (JObj kvs, _) \<Rightarrow> level_members kvs []
     | Some (JNull, _) \<Rightarrow> Some []
     | _ \<Rightarrow> None)"

definition telemetry_request :: "string \<Rightarrow> string \<Rightarrow> request" where
  "telemetry_request meth body =
     \<lparr>rq_method = meth, rq_path = ''/admin/telemetry'', rq_filter = stream_filter [] [] [] [],
      rq_level = decode_level body\<rparr>"

section \<open>Reading the answers back\<close>

definition obj_get :: "json \<Rightarrow> string \<Rightarrow> json option" where
  "obj_get v k = (case v of JObj kvs \<Rightarrow> map_of kvs k | _ \<Rightarrow> None)"

lemma json_ok_omit [simp]:
  "(\<forall>(k, v) \<in> set (omit_empty name s). json_ok v) \<longleftrightarrow> True"
  "(\<And>x. json_ok (f x)) \<Longrightarrow> (\<forall>(k, v) \<in> set (omit_empty_list name f xs). json_ok v) \<longleftrightarrow> True"
  by (auto simp: omit_empty_def omit_empty_list_def list_all_iff split: option.splits)

lemma json_ok_obj: "json_ok (JObj kvs) \<longleftrightarrow> (\<forall>(k, v) \<in> set kvs. json_ok v)"
  by (auto simp: list_all_iff)

lemmas json_records = endpoint_json_def event_spec_json_def stream_spec_json_def cli_command_json_def
  local_service_json_def

lemma json_ok_parts [simp]:
  "json_ok (endpoint_json e)" "json_ok (event_spec_json ev)" "json_ok (stream_spec_json st)"
  "json_ok (cli_command_json c)" "json_ok (local_service_json l)"
  by (simp_all add: json_records json_ok_obj ball_Un del: json_ok.simps(6))

lemma json_ok_exports [simp]: "json_ok (exports_json x)"
  by (simp add: exports_json_def json_ok_obj ball_Un del: json_ok.simps(6))

lemma json_ok_manifest [simp]: "json_ok (manifest_json m)"
  by (auto simp: manifest_json_def omit_empty_map_def json_ok_any list_all_iff simp del: any_json.simps
      split: option.splits)

lemma json_ok_health: "health_json ft h = Some v \<Longrightarrow> json_ok v"
  by (auto simp: health_json_def json_ok_obj ball_Un omit_empty_def simp del: json_ok.simps(6))

lemma kernel_record_json_Some:
  assumes "kernel_record_json ft r = Some v"
  obtains h t1 t2 where "health_json ft (k_Health r) = Some h"
    "v = JObj ([(''id'', JStr (k_ID r)), (''scope'', JStr (k_Scope r)), (''manifest'', manifest_json (k_Manifest r)),
       (''health'', h)] @ (case k_Exports r of None \<Rightarrow> [] | Some x \<Rightarrow> [(''exports'', exports_json x)]) @
       [(''registered_at'', JStr t1), (''updated_at'', JStr t2)])"
  using assms by (auto simp: kernel_record_json_def split: option.splits)

lemma json_ok_kernel: "kernel_record_json ft r = Some v \<Longrightarrow> json_ok v"
  by (erule kernel_record_json_Some)
    (auto simp: json_ok_obj json_ok_health simp del: json_ok.simps(6) split: option.splits)

lemma those_list_all2: "those (map f xs) = Some ys \<longleftrightarrow> list_all2 (\<lambda>x y. f x = Some y) xs ys"
  by (induction xs arbitrary: ys) (auto simp: list_all2_Cons1 split: option.splits)

lemma kernels_json_Some:
  "kernels_json ft recs = Some v \<longleftrightarrow>
    (\<exists>vs. v = JArr vs \<and> list_all2 (\<lambda>r v. kernel_record_json ft r = Some v) recs vs)"
  by (auto simp: kernels_json_def those_list_all2)

text \<open>What a line of the encoder reads as.\<close>

lemma encode_line_parses:
  assumes "json_ok v" and "nesting v \<le> max_nesting"
  shows "parse_json (encode_line (Some v)) = Some (cleaned v)"
  using parse_print_json[OF assms, of "[]" newline None]
  by (simp add: encode_line_def newline_def json_space_def del: print_json.simps)

text \<open>
  The view a reader has of one kernel: its id, the status in its health, and whether it offers exports.
\<close>

definition kernel_view :: "json \<Rightarrow> (json option \<times> json option \<times> bool)" where
  "kernel_view v = (obj_get v ''id'',
     Option.bind (obj_get v ''health'') (\<lambda>h. obj_get h ''status''), obj_get v ''exports'' \<noteq> None)"

lemma to_valid_names: "to_valid s = s" if "list_all (\<lambda>c. byte_of c < 128) s"
  using that by (simp add: to_valid_ascii ascii_def)

lemma obj_get_cleaned:
  assumes "list_all (\<lambda>(k, v). to_valid k = k) kvs"
  shows "obj_get (cleaned (JObj kvs)) k = map_option cleaned (map_of kvs k)"
  using assms by (induction kvs) (auto simp: obj_get_def)

lemma kernel_view_json:
  assumes "kernel_record_json ft r = Some v"
  shows "kernel_view (cleaned v) = (Some (JStr (to_valid (k_ID r))),
    Some (JStr (to_valid (h_Status (k_Health r)))), k_Exports r \<noteq> None)"
proof -
  obtain h t1 t2 where h: "health_json ft (k_Health r) = Some h" and v:
    "v = JObj ([(''id'', JStr (k_ID r)), (''scope'', JStr (k_Scope r)), (''manifest'', manifest_json (k_Manifest r)),
       (''health'', h)] @ (case k_Exports r of None \<Rightarrow> [] | Some x \<Rightarrow> [(''exports'', exports_json x)]) @
       [(''registered_at'', JStr t1), (''updated_at'', JStr t2)])"
    by (rule kernel_record_json_Some[OF assms])
  have names: "to_valid s = s" if "s \<in> {''id'', ''scope'', ''manifest'', ''health'', ''exports'', ''registered_at'',
      ''updated_at'', ''status'', ''reason'', ''since''}" for s
    using that by (intro to_valid_names) (auto simp: byte_of_def)
  obtain ts where hv: "h = JObj ([(''status'', JStr (h_Status (k_Health r)))] @
      omit_empty ''reason'' (h_Reason (k_Health r)) @ [(''since'', JStr ts)])"
    using h by (auto simp: health_json_def)
  have "obj_get (cleaned h) ''status'' = Some (JStr (to_valid (h_Status (k_Health r))))"
    unfolding hv by (subst obj_get_cleaned) (auto simp: names omit_empty_def)
  moreover have "obj_get (cleaned v) k = map_option cleaned (map_of ([(''id'', JStr (k_ID r)),
       (''scope'', JStr (k_Scope r)), (''manifest'', manifest_json (k_Manifest r)),
       (''health'', h)] @ (case k_Exports r of None \<Rightarrow> [] | Some x \<Rightarrow> [(''exports'', exports_json x)]) @
       [(''registered_at'', JStr t1), (''updated_at'', JStr t2)]) k)" for k
    unfolding v by (rule obj_get_cleaned) (auto simp: names split: option.split)
  ultimately show ?thesis by (cases "k_Exports r") (simp_all add: kernel_view_def)
qed

text \<open>The same view of a record.\<close>

definition record_view :: "kernel_record \<Rightarrow> (json option \<times> json option \<times> bool)" where
  "record_view r = (Some (JStr (to_valid (k_ID r))), Some (JStr (to_valid (h_Status (k_Health r)))),
     k_Exports r \<noteq> None)"

lemma views_of_kernels:
  assumes "list_all2 (\<lambda>r v. kernel_record_json ft r = Some v) recs vs"
  shows "map kernel_view (map cleaned vs) = map record_view recs"
  using assms by (induction rule: list_all2_induct) (simp_all add: kernel_view_json record_view_def)

lemma kernels_text:
  assumes "kernels_json ft recs = Some v" and "nesting v \<le> max_nesting"
  obtains vs where "parse_json (encode_line (Some v)) = Some (JArr vs)"
    and "map kernel_view vs = map record_view recs"
proof -
  obtain vs where v: "v = JArr vs" and all: "list_all2 (\<lambda>r v. kernel_record_json ft r = Some v) recs vs"
    using assms(1) by (auto simp: kernels_json_Some)
  have "json_ok v"
    using all json_ok_kernel unfolding v by (fastforce simp: list_all_iff list_all2_conv_all_nth in_set_conv_nth)
  then have "parse_json (encode_line (Some v)) = Some (cleaned v)" using assms(2) by (rule encode_line_parses)
  then show thesis using views_of_kernels[OF all] that[of "map cleaned vs"] unfolding v by simp
qed

lemma status_valid: "to_valid HealthDraining = HealthDraining" "to_valid HealthReady = HealthReady"
  by (simp_all add: to_valid_names byte_of_def HealthDraining_def HealthReady_def)

lemma io_copy_all: "io_copy (map (\<lambda>c. (c, False)) cs @ [(z, True)]) = concat cs @ z"
  by (induction cs) auto

lemma registry_ok_control:
  assumes "registry_ok r" and "t2 \<noteq> zero_time"
  shows "registry_ok (snd (control_handler meth path now t1 t2 t3 r))"
  using assms by (auto simp: control_handler_def Let_def intro: inv_intros)

lemma listed:
  assumes "go_range r ord" and "go_get r i = Some rec"
  shows "rec \<in> set (kernels ord)"
proof -
  have "(i, rec) \<in> set ord" using go_get_in[OF assms(2)] go_range_set[OF assms(1)] by simp
  then show ?thesis by (force simp: kernels_def)
qed

section \<open>From an action to what the list shows\<close>


text \<open>The list of a node with nothing registered, after \<open>drain\<close> of an id that no kernel has.\<close>

lemma sample_ascii: "ascii ''site''"
  by (simp add: ascii_def byte_of_def)

lemma sample_action:
  obtains resp s' v where "admin_serve [] [] (\<lambda>_. 1) (client_request ''POST'' (control_path ''site'' ''drain'') [])
      (new_admin_server []) = (Responds resp, s')"
    and "kernels_json (\<lambda>_. Some ''t'') (kernels (as_reg s')) = Some v" and "nesting v \<le> max_nesting"
proof -
  have route: "admin_route (control_path ''site'' ''drain'') = ControlPage" by code_simp
  obtain resp s' where s': "admin_serve [] [] (\<lambda>_. 1) (client_request ''POST'' (control_path ''site'' ''drain'') [])
      (new_admin_server []) = (Responds resp, s')"
    using serve_control[OF route] by metis
  have parts: "split_on (CHR ''/'') (trim_prefix (control_path ''site'' ''drain'') control_prefix) = [''site'', ''drain'']"
    by code_simp
  obtain hl where reg: "as_reg s' = update_health ''site'' hl 1 1 1 []"
    using s' serve_control[OF route, of "[]" "[]" "\<lambda>_. 1" "[]" "new_admin_server []"]
    by (auto simp: new_admin_server_def control_handler_def parts Let_def)
  define rec where "rec = (case as_reg s' of (i, r) # _ \<Rightarrow> r)"
  have "kernels (as_reg s') = [rec]" "k_Exports rec = None" "k_Manifest rec = zero_manifest\<lparr>m_KernelID := ''site''\<rparr>"
    unfolding rec_def reg
    by (simp_all add: update_health_def Let_def kernels_def go_put_def zero_kernel_record_def zero_manifest_def)
  then show thesis
    by (intro that[OF s'], simp add: kernels_json_def kernel_record_json_def health_json_def manifest_json_def
        omit_empty_map_def omit_empty_def zero_manifest_def) (simp add: max_nesting_def)
qed

lemma sample_settings:
  "''drain'' \<in> {''restart'', ''drain''}" "list_all (setting_ok action_flags) [Spaced True ''id'' ''site'']"
  "foldl apply_setting http_defaults [Spaced True ''id'' ''site''] ''http'' = base_url ''localhost:8090'' 0"
  "foldl apply_setting http_defaults [Spaced True ''id'' ''site''] ''id'' = ''site''"
  "''localhost:8090'' \<noteq> []" "''site'' \<notin> {[], ''.'', ''..''}" "list_all (setting_ok http_flags) []"
  "foldl apply_setting http_defaults [] ''http'' = base_url ''localhost:8090'' 0" "(1::gotime) \<noteq> zero_time"
  by (simp_all add: action_flags_def default_base zero_time_def)


section \<open>Setting the level\<close>

lemma decode_level_print:
  assumes "json_fold name = ''LEVEL''" and "ascii name" and "value_end rest"
  shows "decode_level (print_json (JObj [(name, JStr lv)]) ind @ rest) = Some (to_valid lv)"
proof -
  have "read_value max_nesting (print_json (JObj [(name, JStr lv)]) ind @ rest) =
      Some (JObj [(name, JStr (to_valid lv))], rest)"
    using read_print[of "JObj [(name, JStr lv)]" max_nesting ind] assms(2,3)
    by (simp add: reads_as_def max_nesting_def to_valid_ascii del: print_json.simps)
  then show ?thesis using assms(1) by (simp add: decode_level_def)
qed

text \<open>
  What a POST to the telemetry page does with its body: an object with one string member that is called
  level, in any case, and followed by anything a value may be followed by, sets the level to the string
  in upper case when that names one of the four levels, and answers with it; with another name, the level
  stays and the answer is \<open>bad level\<close>; a body that is no JSON object leaves the level as it is.
\<close>
theorem level_posted:
  assumes "json_fold name = ''LEVEL''" and "ascii name" and "value_end rest" and "decode_level bad = None"
    and "up = go_to_upper (to_valid lv)" and "known = (up \<in> {''DEBUG'', ''INFO'', ''WARN'', ''ERROR''})"
    and "admin_serve ord1 ord2 clk (telemetry_request ''POST'' (print_json (JObj [(name, JStr lv)]) ind @ rest)) s = (ans, s')"
    and "admin_serve ord1 ord2 clk (telemetry_request ''POST'' bad) s = (ans2, s'')"
  shows "s' = (if known then s\<lparr>as_level := up\<rparr> else s) \<and>
    answer_text ft now ans = Some (if known
      then print_json (JObj [(''level'', JStr up), (''ok'', JStr ''true'')]) None @ newline
      else ''bad level'' @ newline) \<and>
    s'' = s \<and> answer_text ft now ans2 = Some (''bad json'' @ newline)"
proof -
  have route: "admin_route ''/admin/telemetry'' = TelemetryPage" by code_simp
  have line: "sorted_entries (map (map_prod id JStr) [(''level'', up), (''ok'', ''true'')]) =
      [(''level'', JStr up), (''ok'', JStr ''true'')]"
    by (simp add: sorted_entries_def)
  have "decode_level (print_json (JObj [(name, JStr lv)]) ind @ rest) = Some (to_valid lv)"
    by (rule decode_level_print[OF assms(1-3)])
  then show ?thesis
    using assms(4-8) route line
    by (auto simp: admin_serve_def telemetry_request_def telemetry_handler_def Let_def answer_text_def body_text_def
        encode_line_def http_error_def simp del: print_json.simps sorted_entries_map)
qed

end
