(* ===== verification/Entry_Points.thy ===== *)
theory Entry_Points
  imports Admin_Json Std_Logger Config
begin

text \<open>
  The programs from the start to the end of the process: the lines that \<open>init\<close> prints
  (\<open>cmd/rk/main_gen.go\<close>, \<open>cmd/rkctl/main_gen.go\<close>), the skeletons that are built without tags (\<open>cmd/rk/main.go\<close>,
  \<open>cmd/rkctl/main.go\<close>), and what the real \<open>rkctl\<close> leaves on its two outputs and as its exit code
  (\<open>cmd/rkctl/main_run_gen.go\<close>). Texts that are not ASCII are given as the bytes of their UTF-8.
\<close>

section \<open>Texts\<close>

definition bytes :: "nat list \<Rightarrow> string" where
  "bytes = map char_of"

definition text_lines :: "string list \<Rightarrow> string" where
  "text_lines ls = concat (map (\<lambda>l. l @ newline) ls)"

definition usage_text :: string where
  "usage_text = text_lines
     [''rkctl '' @ bytes [226, 128, 148] @ '' CLI'',
      [],
      bytes [208, 154, 208, 190, 208, 188, 208, 176, 208, 189, 208, 180, 209, 139, 58],
      ''  rkctl logs [--http URL] [--level L] [--kernel ID] [--scope S] [--component C] [--pretty] [--compact]'',
      ''  rkctl kernels list   [--http URL]'',
      ''  rkctl kernels health [--http URL]'',
      ''  rkctl kernels restart --id ID [--http URL]'',
      ''  rkctl kernels drain   --id ID [--http URL]'',
      [],
      bytes [208, 159, 208, 190, 32, 209, 131, 208, 188, 208, 190, 208, 187, 209, 135, 208, 176, 208, 189, 208, 184,
      209, 142] @ '' --http=http://localhost:8090'']"

definition init_text :: string where
  "init_text = '': '' @ bytes [208, 178, 209, 129, 208, 191, 208, 190, 208, 188, 208, 190, 208, 179, 208, 176, 209, 130, 208,
     181, 208, 187, 209, 140, 208, 189, 208, 176, 209, 143, 32, 208, 184, 208, 189, 208, 184, 209, 134, 208, 184,
     208, 176, 208, 187, 208, 184, 208, 183, 208, 176, 209, 134, 208, 184, 209, 143, 32, 208, 184, 208, 183] @
     '' main_gen.go ('' @ bytes [208, 177, 208, 181, 208, 183, 32, 208, 191, 208, 181, 209, 128, 208, 181, 208, 183,
     208, 176, 208, 191, 208, 184, 209, 129, 208, 184, 32, 208, 186, 208, 190, 208, 188, 208, 188, 208, 181, 208,
     189, 209, 130, 208, 176, 209, 128, 208, 184, 208, 181, 208, 178, 41]"

definition rk_init_line :: string where "rk_init_line = ''rk'' @ init_text @ newline"

definition rkctl_init_line :: string where "rkctl_init_line = ''rkctl'' @ init_text @ newline"

section \<open>The skeletons\<close>

definition skeleton_manifest :: manifest where
  "skeleton_manifest = zero_manifest\<lparr>m_KernelID := ''rk'', m_Version := ''0.0.1'', m_Scope := RootScope,
     m_Features := Some [''admin'', ''discovery'']\<rparr>"

definition skeleton_record :: "gotime \<Rightarrow> string \<Rightarrow> log_record" where
  "skeleton_record now ver = \<lparr>v1_Time = now, v1_Level = Info, v1_KernelID = ''rk'', v1_Scope = RootScope, v1_Component = [],
     v1_Message = ''Root-Kernel: '' @ bytes [209, 129, 208, 186, 208, 181, 208, 187, 208, 181, 209, 130, 32, 208, 183, 208, 176,
       208, 191, 209, 131, 209, 137, 208, 181, 208, 189],
     v1_Fields = Some [(''go'', AnyString ver)]\<rparr>"

text \<open>
  What the skeleton of \<open>rk\<close> writes to standard output: \<open>ts\<close> is the formatted time, \<open>ver\<close> the version of the Go
  runtime; \<open>%v\<close> prints a map of one string as \<open>map[k:v]\<close>.
\<close>

definition rk_skeleton :: "gotime \<Rightarrow> string \<Rightarrow> string \<Rightarrow> string" where
  "rk_skeleton now ts ver = rk_init_line @ manifest_text skeleton_manifest @ newline @
     log_record_string ts (''map[go:'' @ ver @ '']'') (skeleton_record now ver) @ newline"

definition rkctl_version :: string where "rkctl_version = ''0.0.1''"

text \<open>Standard output and the exit code; what the \<open>flag\<close> package prints goes to standard error.\<close>

definition rkctl_skeleton :: "string list \<Rightarrow> string \<times> nat" where
  "rkctl_skeleton args =
     (case parse_flags [(''version'', BoolFlag)] (drop 1 args) (\<lambda>_. bool_text False) of
        Inl e \<Rightarrow> (rkctl_init_line, case e of FlagHelp \<Rightarrow> 0 | FlagError \<Rightarrow> 2)
      | Inr vs \<Rightarrow> (rkctl_init_line @
          (if vs ''version'' = ''true'' then ''rkctl '' @ rkctl_version
           else ''rkctl: '' @ bytes [209, 129, 208, 186, 208, 181, 208, 187, 208, 181, 209, 130] @ '' CLI. '' @ bytes [208,
             154, 208, 190, 208, 188, 208, 176, 208, 189, 208, 180, 209, 139, 32, 208, 191, 208, 190, 209, 143, 208, 178,
             209, 143, 209, 130, 209, 129, 209, 143, 32, 208, 191, 208, 190, 208, 183, 208, 182, 208, 181, 46]) @ newline, 0))"

section \<open>The process of the real rkctl\<close>

text \<open>
  \<open>net\<close> is what the transport returns for a request, or the error of a request that can not be made;
  \<open>library\<close> is what the \<open>flag\<close> package or a panic prints.
\<close>

record process_end =
  pe_stdout :: string
  pe_stderr :: string
  pe_code :: nat

definition rkctl_process ::
  "(client_result \<Rightarrow> go_error + (string \<times> bool) list) \<Rightarrow> (client_result \<Rightarrow> string)
    \<Rightarrow> (string \<Rightarrow> log_record_v2 option) \<Rightarrow> (log_record_v2 \<Rightarrow> string) \<Rightarrow> (bool \<Rightarrow> log_record_v2 \<Rightarrow> string)
    \<Rightarrow> string list \<Rightarrow> process_end" where
  "rkctl_process net library dec ts flds args =
     (let r = rkctl_main args;
          (out, err, code) =
            (case r of
               Usage \<Rightarrow> ([], usage_text, 0)
             | FlagExit n \<Rightarrow> ([], library r, n)
             | IdRequired \<Rightarrow> ([], ''--id is required'' @ newline, 0)
             | ClientPanics \<Rightarrow> ([], library r, 2)
             | Followed path query pretty compact \<Rightarrow>
                 (case show_logs dec ts flds pretty compact (net r) of (o1, e1) \<Rightarrow> (o1, e1, 0))
             | _ \<Rightarrow> (case show_answer (net r) of (o1, e1) \<Rightarrow> (o1, e1, 0)))
      in \<lparr>pe_stdout = rkctl_init_line @ out, pe_stderr = err, pe_code = code\<rparr>)"

section \<open>The process of the real rk\<close>

text \<open>
  \<open>main\<close> of \<open>cmd/rk/main_run_gen.go\<close>: \<open>run\<close> is \<open>RunRootKernel\<close>, what it leaves on standard output and its
  result; the path is also kept for the reload.
\<close>

definition rk_flags :: flag_set where "rk_flags = [(''config'', StringFlag)]"

definition rk_process ::
  "(string \<Rightarrow> go_error + string) \<Rightarrow> (string \<Rightarrow> root_config \<Rightarrow> string \<times> go_error option) \<Rightarrow> string
    \<Rightarrow> string list \<Rightarrow> process_end" where
  "rk_process readFile run library args =
     (case parse_flags rk_flags (drop 1 args) (\<lambda>_. []) of
        Inl e \<Rightarrow> \<lparr>pe_stdout = rk_init_line, pe_stderr = library, pe_code = (case e of FlagHelp \<Rightarrow> 0 | FlagError \<Rightarrow> 2)\<rparr>
      | Inr vs \<Rightarrow>
        (case load_config readFile (vs ''config'') of
           (cfg, Some err) \<Rightarrow>
             \<lparr>pe_stdout = rk_init_line, pe_stderr = ''config error: '' @ err @ newline, pe_code = rk_exit (Some err) None\<rparr>
         | (cfg, None) \<Rightarrow>
             (case run (vs ''config'') cfg of (out, res) \<Rightarrow>
                \<lparr>pe_stdout = rk_init_line @ out,
                 pe_stderr = (case res of None \<Rightarrow> [] | Some err \<Rightarrow>
                   if err \<noteq> ''context canceled'' then ''kernel error: '' @ err @ newline else []),
                 pe_code = rk_exit None res\<rparr>)))"

lemma sample_file_lines: "''domains:'' \<in> set (split_on (CHR 0x0A) sample_file)"
  using split_on_append[of "CHR 0x0A" "''domains:''" "''  - id: site'' @ [CHR 0x0A]"] by (simp add: sample_file_def)

text \<open>
  C6: The way the Makefile and the end-to-end test start the node does not start it: with any file that has a line
  \<open>domains:\<close> (the sample file has one), however the flag is written, \<open>rk\<close> ends with a configuration error and
  exit code 1 before \<open>RunRootKernel\<close>; started without a file it runs the built-in configuration, and ends
  with 0 when the kernel returns without an error or cancelled, with 1 otherwise.
\<close>
theorem rk_refuses_domains:
  assumes "readFile path = Inr data" and "''domains:'' \<in> set (split_on (CHR 0x0A) data)" and "path \<noteq> []"
    and "list_all (setting_ok rk_flags) ss" and "foldl apply_setting (\<lambda>_. []) ss ''config'' = path"
  shows "(\<exists>err. rk_process readFile run library (''rk'' # settings_words ss) =
      \<lparr>pe_stdout = rk_init_line, pe_stderr = ''config error: '' @ err @ newline, pe_code = 1\<rparr>) \<and>
    pe_code (rk_process readFile run library [''rk'']) =
      (if snd (run [] default_config) \<in> {None, Some ''context canceled''} then 0 else 1) \<and>
    pe_stdout (rk_process readFile run library [''rk'']) = rk_init_line @ fst (run [] default_config)"
proof -
  have "plain_names rk_flags" by (simp add: plain_names_def rk_flags_def)
  then have flags: "parse_flags rk_flags (settings_words ss) (\<lambda>_. []) = Inr (foldl apply_setting (\<lambda>_. []) ss)"
    using assms(4) by (rule parse_settings_all)
  obtain cfg err where "load_config readFile path = (cfg, Some err)"
    using assms(1,3) unmarshal_domains[OF yaml_sections_domains[OF assms(2)], of default_config]
    by (cases "load_config readFile path") (auto simp: load_config_def)
  then have "rk_process readFile run library (''rk'' # settings_words ss) =
      \<lparr>pe_stdout = rk_init_line, pe_stderr = ''config error: '' @ err @ newline, pe_code = 1\<rparr>"
    using assms(5) by (simp add: rk_process_def flags rk_exit_def)
  moreover have "pe_code (rk_process readFile run library [''rk'']) = rk_exit None (snd (run [] default_config))"
    and "pe_stdout (rk_process readFile run library [''rk'']) = rk_init_line @ fst (run [] default_config)"
    by (simp_all add: rk_process_def load_config_def split: prod.split)
  moreover have "rk_exit None res = (if res \<in> {None, Some ''context canceled''} then 0 else 1)" for res
    by (auto simp: rk_exit_def split: option.split)
  ultimately show ?thesis by metis
qed

theorem rk_refuses_domains_witness:
  "pe_code (rk_process (\<lambda>_. Inr sample_file) (\<lambda>_ _. ([], Some ''context canceled'')) [] [''rk'', ''-config=rk.yaml'']) = 1 \<and>
   pe_code (rk_process (\<lambda>_. Inr sample_file) (\<lambda>_ _. ([], Some ''context canceled'')) [] [''rk'']) = 0"
  using rk_refuses_domains[of "\<lambda>_. Inr sample_file" "''rk.yaml''" sample_file "[Joined False ''config'' ''rk.yaml'']"
      "\<lambda>_ _. ([], Some ''context canceled'')" "[]"] sample_file_lines
  by (auto simp: rk_flags_def settings_words_def dashes_def)

section \<open>What a script sees\<close>

lemma init_line_first: "parse_json (rkctl_init_line @ s) = None"
proof -
  have "read_number (CHR ''r'' # r) = None" for r
    by (simp add: read_number_def read_integer_def read_digits_def is_digit_def code_in_def byte_of_def)
  then have "read_one inner (CHR ''r'' # r) = None" for inner r
    by (simp add: read_one_def json_space_def dquote_def)
  then have "read_value d (CHR ''r'' # r) = None" for d r by (cases d) simp_all
  then show ?thesis by (simp add: parse_json_def rkctl_init_line_def)
qed

lemma flag_exit_code: "flag_exit e = FlagExit n \<Longrightarrow> n = 0 \<or> n = 2"
  by (cases e) (simp_all add: flag_exit_def)

lemma rkctl_main_exit: "rkctl_main args = FlagExit n \<Longrightarrow> n = 0 \<or> n = 2"
  by (auto simp: rkctl_main_def cmd_logs_def cmd_kernels_list_def cmd_kernels_health_def cmd_kernels_action_def
      action_request_def http_get_def dest: flag_exit_code split: if_splits sum.splits option.splits)

text \<open>
  A script can not rely on \<open>rkctl\<close>: the line printed by \<open>init\<close> makes the output no JSON, for the list and the
  health as well; and the exit code tells only a bad flag or a panic: it is 0 when no command or no id is given,
  when the node can not be reached, and whatever the node answers, in which case nothing is written to
  standard error either.
\<close>
theorem rkctl_tells_nothing:
  shows "parse_json (pe_stdout (rkctl_process net library dec ts flds args)) = None"
    and "pe_code (rkctl_process net library dec ts flds args) \<in> {0, 2}"
    and "pe_code (rkctl_process net library dec ts flds args) = 2 \<longleftrightarrow>
      rkctl_main args = FlagExit 2 \<or> rkctl_main args = ClientPanics"
    and "net (Posted path []) = Inr chunks \<Longrightarrow> rkctl_main args = Posted path [] \<Longrightarrow>
      rkctl_process net library dec ts flds args =
        \<lparr>pe_stdout = rkctl_init_line @ io_copy chunks, pe_stderr = [], pe_code = 0\<rparr>"
proof -
  show "parse_json (pe_stdout (rkctl_process net library dec ts flds args)) = None"
    by (simp add: rkctl_process_def Let_def init_line_first split: prod.split)
  show "pe_code (rkctl_process net library dec ts flds args) \<in> {0, 2}"
    "pe_code (rkctl_process net library dec ts flds args) = 2 \<longleftrightarrow>
      rkctl_main args = FlagExit 2 \<or> rkctl_main args = ClientPanics"
    using rkctl_main_exit[of args]
    by (auto simp: rkctl_process_def Let_def split: prod.split client_result.split)
  show "rkctl_process net library dec ts flds args =
        \<lparr>pe_stdout = rkctl_init_line @ io_copy chunks, pe_stderr = [], pe_code = 0\<rparr>"
    if "net (Posted path []) = Inr chunks" "rkctl_main args = Posted path []"
    using that by (simp add: rkctl_process_def show_answer_def)
qed

text \<open>The skeleton of \<open>rk\<close> prints its manifest as JSON that reads back, between the first line and the record.\<close>

theorem skeleton_prints_manifest:
  "\<exists>rest. rk_skeleton now ts ver = rk_init_line @ manifest_text skeleton_manifest @ newline @ rest \<and>
     parse_json (manifest_text skeleton_manifest @ newline) = Some (cleaned (manifest_json skeleton_manifest))"
proof -
  have "nesting (manifest_json skeleton_manifest) \<le> max_nesting"
    by (simp add: skeleton_manifest_def zero_manifest_def manifest_json_def omit_empty_map_def max_nesting_def)
  then have "parse_json (manifest_text skeleton_manifest @ newline) = Some (cleaned (manifest_json skeleton_manifest))"
    using parse_print_json[OF json_ok_manifest, of skeleton_manifest "[]" newline "Some 0"]
    by (simp add: manifest_text_def newline_def json_space_def)
  then show ?thesis by (simp add: rk_skeleton_def)
qed

end
