(* ===== verification/Grpc_Glue.thy ===== *)
theory Grpc_Glue
  imports Gateway Json_Values
begin

text \<open>
  Between the gRPC server and \<open>PushLogs\<close>: the code in the style of the generator
  (\<open>platform/telemetry/proto/log_gateway.pb.go\<close>), the interceptor of \<open>StartLogGatewayServer\<close>, and the codes, status and
  peer packages of the stand-in (\<open>third_party/google.golang.org/grpc\<close>). The server that calls the handler is not in
  the repository (the stand-in throws the service away): what follows is what happens when one does.
\<close>

section \<open>Codes, status, peer\<close>

datatype grpc_code = OK | Canceled | Unknown | InvalidArgument | DeadlineExceeded | NotFoundCode | AlreadyExists
  | PermissionDenied | ResourceExhausted | FailedPrecondition | Aborted | OutOfRange | Unimplemented

text \<open>The constants count up from zero.\<close>

fun code_number :: "grpc_code \<Rightarrow> nat" where
  "code_number OK = 0" | "code_number Canceled = 1" | "code_number Unknown = 2" | "code_number InvalidArgument = 3"
| "code_number DeadlineExceeded = 4" | "code_number NotFoundCode = 5" | "code_number AlreadyExists = 6"
| "code_number PermissionDenied = 7" | "code_number ResourceExhausted = 8" | "code_number FailedPrecondition = 9"
| "code_number Aborted = 10" | "code_number OutOfRange = 11" | "code_number Unimplemented = 12"

text \<open>\<open>status.Errorf\<close>: a code has no name of its own and is printed as a number; \<open>msg\<close> is the formatted rest.\<close>

definition status_errorf :: "grpc_code \<Rightarrow> string \<Rightarrow> go_error" where
  "status_errorf c msg = show_int (int (code_number c)) @ '': '' @ msg"

text \<open>\<open>peer.FromContext\<close> never finds a peer.\<close>

definition peer_from_context :: "'c \<Rightarrow> string option \<times> bool" where
  "peer_from_context ctx = (None, False)"

section \<open>The stream of the generated code\<close>

definition io_EOF :: go_error where "io_EOF = ''EOF''"

text \<open>
  A turn of the transport: what \<open>RecvMsg\<close> leaves in the request, or its error. \<open>Recv\<close> hands on one of the two; the
  loop of \<open>PushLogs\<close> then asks for \<open>io.EOF\<close>.
\<close>

record wire_turn =
  wt_msg :: "go_error + push_request"
  wt_cancelled :: ctx_done
  wt_now :: gotime
  wt_elapsed :: gotime
  wt_last :: gotime

definition stream_recv :: "go_error + push_request \<Rightarrow> push_request option \<times> go_error option" where
  "stream_recv m = (case m of Inl err \<Rightarrow> (None, Some err) | Inr req \<Rightarrow> (Some req, None))"

definition loop_turn :: "wire_turn \<Rightarrow> recv_turn" where
  "loop_turn t =
     \<lparr>rt_result = (case stream_recv (wt_msg t) of
         (msg, Some err) \<Rightarrow> if err = io_EOF then RecvEOF else RecvError err
       | (msg, None) \<Rightarrow> RecvRecord (the msg)),
      rt_cancelled = wt_cancelled t, rt_now = wt_now t, rt_elapsed = wt_elapsed t, rt_last = wt_last t\<rparr>"

section \<open>The service\<close>

text \<open>
  What can stand behind the interface: the gateway, the embedded stub that has no method of its own, a value of
  another type, on which the assertion in the handler panics (\<open>None\<close>).
\<close>

datatype 'w grpc_service = LogGateway "'w log_hub option" duration | UnimplementedService | OtherService

definition push_logs_handler :: "'w grpc_service \<Rightarrow> wire_turn list \<Rightarrow> 'w push_state
    \<Rightarrow> ('w push_state \<times> go_error option option) option" where
  "push_logs_handler srv ts s = (case srv of
       LogGateway hub interval \<Rightarrow> Some (push_logs hub interval (map loop_turn ts) s)
     | UnimplementedService \<Rightarrow> Some (s, Some (Some ''method PushLogs not implemented''))
     | OtherService \<Rightarrow> None)"

record 'h stream_desc =
  sd_StreamName :: string
  sd_Handler :: 'h
  sd_ServerStreams :: bool
  sd_ClientStreams :: bool

record 'h service_desc =
  sv_ServiceName :: string
  sv_Streams :: "'h stream_desc list"

definition log_gateway_desc :: "('w grpc_service \<Rightarrow> wire_turn list \<Rightarrow> 'w push_state
    \<Rightarrow> ('w push_state \<times> go_error option option) option) service_desc" where
  "log_gateway_desc = \<lparr>sv_ServiceName = ''telemetry.LogGateway'',
     sv_Streams = [\<lparr>sd_StreamName = ''PushLogs'', sd_Handler = push_logs_handler,
       sd_ServerStreams = True, sd_ClientStreams = True\<rparr>]\<rparr>"

text \<open>The interceptor of the gateway asks for the peer, uses its address for nothing, and calls the handler.\<close>

definition gateway_interceptor :: "'srv \<Rightarrow> 'ss \<Rightarrow> ('srv \<Rightarrow> 'ss \<Rightarrow> 'r) \<Rightarrow> 'r" where
  "gateway_interceptor srv ss handler =
     (let _ = (case peer_from_context ss of (Some addr, True) \<Rightarrow> Some addr | _ \<Rightarrow> None) in handler srv ss)"

text \<open>The service that \<open>StartLogGatewayServer\<close> registers.\<close>

definition gateway_service :: "'w log_hub option \<Rightarrow> 'w grpc_service" where
  "gateway_service hub = LogGateway hub second"

section \<open>A call of the method\<close>

lemma loop_turn_record:
  "wt_msg t = Inr req \<Longrightarrow> is_record (loop_turn t)"
  "wt_msg t = Inr req \<Longrightarrow> turn_record (loop_turn t) = from_proto (Some req) (wt_now t)"
  "wt_msg t = Inl io_EOF \<Longrightarrow> rt_result (loop_turn t) = RecvEOF"
  "wt_msg t = Inl err \<Longrightarrow> err \<noteq> io_EOF \<Longrightarrow> rt_result (loop_turn t) = RecvError err"
  by (simp_all add: loop_turn_def stream_recv_def is_record_def turn_record_def)

text \<open>
  A server that finds the method by its name in the description, and calls it through the interceptor on the service
  that was registered, runs \<open>PushLogs\<close> on the messages: after requests and then an error of the transport, the hub
  has published one record per request, in order, and the error is the answer, nil for the end of the stream.
\<close>
theorem gateway_call:
  assumes "list_all (\<lambda>t. \<exists>req. wt_msg t = Inr req) ts" and "wt_msg e = Inl err"
    and "find (\<lambda>d. sd_StreamName d = ''PushLogs'') (sv_Streams log_gateway_desc) = Some d"
  shows "\<exists>s'. gateway_interceptor (gateway_service hub) (ts @ e # us) (\<lambda>srv ss. sd_Handler d srv ss (push_start now w)) =
      Some (s', Some (if err = io_EOF then None else Some err)) \<and>
    ps_count s' = of_nat (length ts) \<and> ps_world s' = publish_turns hub (map loop_turn ts) w"
proof -
  have d: "sd_Handler d = push_logs_handler" using assms(3) by (auto simp: log_gateway_desc_def)
  have "list_all is_record (map loop_turn ts)"
    using assms(1) loop_turn_record(1) by (auto simp: list_all_iff)
  then obtain s' where "push_logs hub second (map loop_turn ts @ map loop_turn (e # us)) (push_start now w) =
      push_logs hub second (map loop_turn (e # us)) s'" "ps_count s' = of_nat (length ts)"
      "ps_world s' = publish_turns hub (map loop_turn ts) w"
    using push_logs_records[of "map loop_turn ts" hub second "map loop_turn (e # us)" "push_start now w"]
    by (auto simp: push_start_def)
  then show ?thesis
    using loop_turn_record(3,4)[of e] assms(2)
    by (cases "err = io_EOF") (auto simp: gateway_interceptor_def d push_logs_handler_def gateway_service_def)
qed

end
