(* ===== verification/Degradation_Run.thy ===== *)
theory Degradation_Run
  imports Degradation
begin

text \<open>
  The run of the degradation policy among the other users of the registry. \<open>Run\<close> takes the list of a
  tick under the registry's lock and then changes the registry kernel by kernel; between
  these changes the admin handlers, the domain manager and the launches may change it too. The
  model interleaves the policy's steps with arbitrary registry operations and keeps, as a
  history, which exports were registered for which id.
\<close>

section \<open>The interleaved system\<close>

record policy_sys =
  dg_snap :: snapshot
  dg_reg :: registry
  dg_todo :: "discovery_record list" \<comment> \<open>what is left of the list of the current tick\<close>
  dg_given :: "(string \<times> kernel_exports) list"

definition policy_interval :: "duration \<Rightarrow> duration" where
  "policy_interval interval = (if interval \<le> 0 then second else interval)"

text \<open>The exports an operation brings in; the admin server and the manager only register them.\<close>

definition op_exports :: "registry_op \<Rightarrow> (string \<times> kernel_exports) list" where
  "op_exports op = (case op of
       OpRegister rec \<Rightarrow> (case k_Exports rec of
           None \<Rightarrow> []
         | Some ex \<Rightarrow> [(if k_ID rec = [] then m_KernelID (k_Manifest rec) else k_ID rec, ex)])
     | _ \<Rightarrow> [])"

fun others_op :: "registry_op \<Rightarrow> bool" where
  "others_op (OpSetExports i ex) = False"
| "others_op _ = True"

inductive policy_step :: "policy_sys \<Rightarrow> policy_sys \<Rightarrow> bool" where
  tick: "dg_todo s = [] \<Longrightarrow> go_range (dg_reg s) ord \<Longrightarrow>
    policy_step s (s\<lparr>dg_todo := discovery_list ord\<rparr>)"
| visit: "dg_todo s = d # ds \<Longrightarrow> policy_record set_exports d (dg_snap s, dg_reg s) = (snap, r) \<Longrightarrow>
    policy_step s (s\<lparr>dg_snap := snap, dg_reg := r, dg_todo := ds\<rparr>)"
| other: "others_op op \<Longrightarrow> t \<noteq> zero_time \<Longrightarrow>
    policy_step s (s\<lparr>dg_reg := registry_exec (op, t) (dg_reg s), dg_given := dg_given s @ op_exports op\<rparr>)"

inductive_cases policy_stepE: "policy_step s t"

definition policy_start :: policy_sys where
  "policy_start = \<lparr>dg_snap = [], dg_reg = new_registry, dg_todo = [], dg_given = []\<rparr>"

section \<open>Where exports come from\<close>

text \<open>Exports given for the id, as they were or copied.\<close>

definition genuine :: "policy_sys \<Rightarrow> string \<Rightarrow> kernel_exports option \<Rightarrow> bool" where
  "genuine s i eo \<longleftrightarrow> eo = None \<or>
     (\<exists>ex. (i, ex) \<in> set (dg_given s) \<and> (eo = Some ex \<or> eo = copy_exports (Some ex)))"

lemma genuine_copy: "genuine s i eo \<Longrightarrow> genuine s i (copy_exports eo)"
  by (auto simp: genuine_def)

lemma genuine_None [simp]: "genuine s i None"
  by (simp add: genuine_def)

lemma genuine_mono: "genuine s i eo \<Longrightarrow> set (dg_given s) \<subseteq> set (dg_given t) \<Longrightarrow> genuine t i eo"
  by (auto simp: genuine_def)

definition policy_ok :: "policy_sys \<Rightarrow> bool" where
  "policy_ok s \<longleftrightarrow> registry_ok (dg_reg s) \<and>
     (\<forall>i rec. go_get (dg_reg s) i = Some rec \<longrightarrow> genuine s i (k_Exports rec)) \<and>
     (\<forall>i eo. go_get (dg_snap s) i = Some eo \<longrightarrow> genuine s i eo) \<and>
     (\<forall>d \<in> set (dg_todo s). genuine s (d_ID d) (d_Exports d))"

lemma policy_okD:
  assumes "policy_ok s"
  shows "registry_ok (dg_reg s)"
    and "go_get (dg_reg s) i = Some rec \<Longrightarrow> genuine s i (k_Exports rec)"
    and "go_get (dg_snap s) i = Some eo \<Longrightarrow> genuine s i eo"
    and "d \<in> set (dg_todo s) \<Longrightarrow> genuine s (d_ID d) (d_Exports d)"
  using assms by (simp_all add: policy_ok_def)

text \<open>What another user leaves of the exports of a kernel.\<close>

lemma other_exports:
  assumes "others_op op" and "go_get (registry_exec (op, t) r) i = Some rec"
  shows "k_Exports rec = None \<or> (\<exists>old. go_get r i = Some old \<and> k_Exports rec = k_Exports old) \<or>
    (\<exists>ex. k_Exports rec = Some ex \<and> (i, ex) \<in> set (op_exports op))"
proof (cases op)
  case (OpRegisterKernel m)
  then show ?thesis
    using assms(2) by (auto simp: register_kernel_def Let_def zero_kernel_record_def split: if_splits option.splits)
next
  case (OpRegister new)
  obtain R where R: "register new t t r = go_put (k_ID R) R r" "k_Exports R = k_Exports new"
      "k_ID R = (if k_ID new = [] then m_KernelID (k_Manifest new) else k_ID new)"
    using register_put[of new t t r] by metis
  then show ?thesis
    using assms(2) by (auto simp: OpRegister op_exports_def split: if_splits option.splits)
next
  case (OpUnregister j)
  then show ?thesis using assms(2) by (auto simp: unregister_def split: if_splits)
next
  case (OpUpdateHealth j hl)
  show ?thesis
  proof (cases "i = j")
    case True
    then show ?thesis
      using assms(2) go_get_update_health_same[of j hl t t t r] OpUpdateHealth
      by (auto split: option.splits)
  next
    case False
    then show ?thesis using assms(2) OpUpdateHealth by auto
  qed
qed (use assms(1) in simp)

text \<open>
  A change of the registry after which a kernel has no exports, those it had, or newly given ones.
\<close>

definition exports_kept :: "(string \<times> kernel_exports) list \<Rightarrow> registry \<Rightarrow> registry \<Rightarrow> bool" where
  "exports_kept new r r' \<longleftrightarrow> (\<forall>i rec. go_get r' i = Some rec \<longrightarrow>
     k_Exports rec = None \<or> (\<exists>old. go_get r i = Some old \<and> k_Exports rec = k_Exports old) \<or>
     (\<exists>ex. k_Exports rec = Some ex \<and> (i, ex) \<in> set new))"

lemma exports_kept_exec: "others_op op \<Longrightarrow> exports_kept (op_exports op) r (registry_exec (op, t) r)"
  unfolding exports_kept_def using other_exports by blast

lemma policy_ok_change:
  assumes "policy_ok s" and "registry_ok r" and "exports_kept new (dg_reg s) r"
  shows "policy_ok (s\<lparr>dg_reg := r, dg_given := dg_given s @ new\<rparr>)" (is "policy_ok ?s")
proof -
  have mono: "genuine s i eo \<Longrightarrow> genuine ?s i eo" for i eo by (rule genuine_mono) auto
  have "genuine ?s i (k_Exports rec)" if "go_get (dg_reg ?s) i = Some rec" for i rec
  proof -
    from that have "go_get r i = Some rec" by simp
    with assms(3) have "k_Exports rec = None \<or> (\<exists>old. go_get (dg_reg s) i = Some old \<and> k_Exports rec = k_Exports old) \<or>
        (\<exists>ex. k_Exports rec = Some ex \<and> (i, ex) \<in> set new)" unfolding exports_kept_def by blast
    then show ?thesis
    proof (elim disjE exE conjE)
      fix old assume "go_get (dg_reg s) i = Some old" "k_Exports rec = k_Exports old"
      then show ?thesis using policy_okD(2)[OF assms(1)] mono by metis
    next
      fix ex assume "k_Exports rec = Some ex" "(i, ex) \<in> set new"
      then show ?thesis by (auto simp: genuine_def)
    qed simp
  qed
  then show ?thesis using policy_okD(3,4)[OF assms(1)] mono assms(2) by (simp add: policy_ok_def)
qed

lemma policy_ok_other:
  assumes "policy_ok s" and "others_op op" and "t \<noteq> zero_time"
  shows "policy_ok (s\<lparr>dg_reg := registry_exec (op, t) (dg_reg s), dg_given := dg_given s @ op_exports op\<rparr>)"
  by (rule policy_ok_change[OF assms(1) registry_ok_exec[OF policy_okD(1)[OF assms(1)] assms(3)]
      exports_kept_exec[OF assms(2)]])

lemma policy_ok_visit:
  assumes "policy_ok s" and "dg_todo s = d # ds"
    and "policy_record set_exports d (dg_snap s, dg_reg s) = (snap, r)"
  shows "policy_ok (s\<lparr>dg_snap := snap, dg_reg := r, dg_todo := ds\<rparr>)" (is "policy_ok ?s")
proof -
  have g: "genuine ?s = genuine s" by (simp add: genuine_def fun_eq_iff)
  have d: "genuine s (d_ID d) (d_Exports d)" using policy_okD(4)[OF assms(1)] assms(2) by simp
  note eff = registry_store.policy_record_effect[of d "dg_snap s" "dg_reg s", unfolded assms(3), simplified]
  have "genuine s i eo" if "go_get snap i = Some eo" for i eo
    using that eff(1)[of i] policy_okD(3)[OF assms(1)] genuine_copy[OF d] d
    by (auto simp: next_snap_def split: if_splits option.splits)
  moreover have "genuine s i (k_Exports rec)" if rec: "go_get r i = Some rec" for i rec
  proof (cases "i = d_ID d")
    case True
    then obtain cur where cur: "go_get (dg_reg s) i = Some cur"
        "k_Exports rec = next_exports d (go_get (dg_snap s) i) (k_Exports cur)"
      using eff(2)[of i] rec by (cases "go_get (dg_reg s) i") (auto simp: registry_exports_def)
    then show ?thesis
      using policy_okD(2,3)[OF assms(1)] by (auto simp: next_exports_def split: if_splits option.splits)
  next
    case False
    then show ?thesis using eff(2)[of i] rec policy_okD(2)[OF assms(1)]
      by (cases "go_get (dg_reg s) i") (auto simp: registry_exports_def)
  qed
  moreover have "registry_ok r"
    using registry_ok_record[OF policy_okD(1)[OF assms(1)], of d "dg_snap s"] assms(3) by simp
  ultimately show ?thesis
    using policy_okD(4)[OF assms(1)] assms(2) by (simp add: policy_ok_def g)
qed

lemma policy_ok_step: "policy_step s t \<Longrightarrow> policy_ok s \<Longrightarrow> policy_ok t"
proof (induction rule: policy_step.induct)
  case (tick s ord)
  have "genuine s (d_ID d) (d_Exports d)" if "d \<in> set (discovery_list ord)" for d
  proof -
    from that obtain i rec where "(i, rec) \<in> set ord" "d = \<lparr>d_ID = i, d_Health = k_Health rec, d_Exports = k_Exports rec\<rparr>"
      by (auto simp: discovery_list_def)
    moreover from this have "go_get (dg_reg s) i = Some rec"
      using go_range_get[of "dg_reg s" ord i rec] tick.hyps(2) policy_okD(1)[OF tick.prems]
      by (simp add: registry_ok_def)
    ultimately show ?thesis using policy_okD(2)[OF tick.prems] by simp
  qed
  then show ?case using tick.prems by (simp add: policy_ok_def genuine_def)
next
  case (visit s d ds snap r)
  then show ?case by (intro policy_ok_visit)
next
  case (other op t s)
  then show ?case by (intro policy_ok_other)
qed

lemma policy_ok_reachable: "policy_step\<^sup>*\<^sup>* policy_start s \<Longrightarrow> policy_ok s"
proof (induction rule: rtranclp_induct)
  case base
  then show ?case by (simp add: policy_ok_def policy_start_def new_registry_def registry_ok_def)
qed (rule policy_ok_step)

section \<open>Properties of the run\<close>

text \<open>
  C35: The policy never mixes kernels up: however its steps interleave with registrations, removals and
  health reports, whatever exports the registry offers for an id, and whatever the policy keeps
  for it, were registered under that very id (possibly copied); and the registry stays well
  formed.
\<close>
theorem policy_no_foreign_exports:
  assumes "policy_step\<^sup>*\<^sup>* policy_start s"
  shows "registry_ok (dg_reg s) \<and>
    (registry_exports (dg_reg s) i = Some (Some ex) \<or> go_get (dg_snap s) i = Some (Some ex) \<longrightarrow>
      (\<exists>orig. (i, orig) \<in> set (dg_given s) \<and> (ex = orig \<or> Some ex = copy_exports (Some orig))))"
proof -
  note ok = policy_ok_reachable[OF assms]
  have "genuine s i (Some ex) \<Longrightarrow>
      \<exists>orig. (i, orig) \<in> set (dg_given s) \<and> (ex = orig \<or> Some ex = copy_exports (Some orig))"
    by (auto simp: genuine_def)
  then show ?thesis
    using policy_okD(1,3)[OF ok] policy_okD(2)[OF ok, of i] by (fastforce simp: registry_exports_def)
qed

definition exporting :: "string \<Rightarrow> health_status \<Rightarrow> kernel_exports \<Rightarrow> kernel_record" where
  "exporting i st ex = zero_kernel_record\<lparr>k_ID := i, k_Exports := Some ex,
     k_Health := \<lparr>h_Status = st, h_Reason = [], h_Since = 5\<rparr>\<rparr>"

lemma policy_run_register:
  fixes rec :: kernel_record
  assumes "k_ID rec = i" and "i \<noteq> []" and "k_Exports rec = Some ex" and "dg_reg s = []"
  obtains R where "policy_step s (s\<lparr>dg_reg := [(i, R)], dg_given := dg_given s @ [(i, ex)]\<rparr>)"
    and "k_Exports R = Some ex" and "k_Health R = k_Health rec"
proof -
  obtain R where R: "register rec 1 1 [] = go_put (k_ID R) R []" "k_ID R = i" "k_Exports R = Some ex"
      "k_Health R = k_Health rec"
    using register_put[of rec 1 1 "[]"] assms by metis
  have "policy_step s (s\<lparr>dg_reg := registry_exec (OpRegister rec, 1) (dg_reg s),
      dg_given := dg_given s @ op_exports (OpRegister rec)\<rparr>)"
    by (rule policy_step.other) (simp_all add: zero_time_def)
  then show thesis
    using that[of R] R assms by (simp add: op_exports_def go_put_def)
qed

theorem policy_no_foreign_exports_witness:
  "\<exists>s. policy_step\<^sup>*\<^sup>* policy_start s \<and> registry_exports (dg_reg s) ''a'' = Some (Some (some_exports '':1'')) \<and>
     (''a'', some_exports '':1'') \<in> set (dg_given s)"
proof -
  obtain R where R: "policy_step policy_start (policy_start\<lparr>dg_reg := [(''a'', R)],
      dg_given := dg_given policy_start @ [(''a'', some_exports '':1'')]\<rparr>)" "k_Exports R = Some (some_exports '':1'')"
    by (rule policy_run_register[of "exporting ''a'' HealthReady (some_exports '':1'')" "''a''" "some_exports '':1''" policy_start])
      (auto simp: exporting_def policy_start_def new_registry_def)
  let ?s = "policy_start\<lparr>dg_reg := [(''a'', R)], dg_given := dg_given policy_start @ [(''a'', some_exports '':1'')]\<rparr>"
  have e: "registry_exports (dg_reg ?s) ''a'' = Some (Some (some_exports '':1''))"
    by (simp add: registry_exports_def R(2))
  have "policy_step\<^sup>*\<^sup>* policy_start ?s" using R(1) by blast
  from policy_no_foreign_exports[OF this, of "''a''" "some_exports '':1''"] this e show ?thesis
    by (intro exI[of _ ?s]) (auto simp: policy_start_def)
qed



end
