(* ===== verification/Node.thy ===== *)
theory Node
  imports Domains Degradation_Run Admin_Server
begin

text \<open>
  The root kernel as a whole (\<open>cmd/rk/root_kernel_gen.go\<close>): the launch loop, the degradation policy, the health
  aggregator, the requests to the admin server and the reload on SIGHUP, interleaved. They share the
  registry, whose operations are atomic under its lock; the manager's list of runs is
  changed only under the manager's. A reload is not atomic for the others: its steps are single
  removals, stops and launches, one registry operation each.
\<close>

section \<open>The state and the steps\<close>

text \<open>
  The phases of \<open>Reload\<close>: the first loop over the runs, the second loop over the index, and inside it a
  relaunch between its stop and its launch.
\<close>

datatype reload_phase = Idle
  | Removing "string list"
  | Applying "(string \<times> domain_spec) list"
  | Relaunching domain_spec "(string \<times> domain_spec) list"

text \<open>
  The registry is that of the manager. \<open>nd_target\<close> is the list of the last reload that was begun, and \<open>nd_tried\<close>
  the specifications launched so far: both are histories, as is \<open>nd_published\<close>, what the aggregator published.
\<close>

record ('h, 'k) node =
  nd_mgr :: "('h, 'k) manager"
  nd_pending :: "domain_spec list" \<comment> \<open>what the launch loop has not reached yet\<close>
  nd_snap :: snapshot
  nd_todo :: "discovery_record list"
  nd_agg :: health_aggregator
  nd_level :: string
  nd_reload :: reload_phase
  nd_target :: "domain_spec list option"
  nd_tried :: "domain_spec list"
  nd_published :: "(string \<times> bus_msg) list"

definition domains_of :: "root_config \<Rightarrow> domain_spec list" where
  "domains_of cfg = (case rc_Domains cfg of None \<Rightarrow> [] | Some ds \<Rightarrow> ds)"

definition set_registry :: "registry \<Rightarrow> ('h, 'k) manager \<Rightarrow> ('h, 'k) manager" where
  "set_registry r m = m\<lparr>mg_reg := r\<rparr>"

text \<open>The publisher of the aggregator, as seen by the history.\<close>

definition note_publish :: "(bus_msg, (string \<times> bus_msg) list) publisher" where
  "note_publish ctx topic m w = (if ctx then (w, Some ''context canceled'') else (w @ [(topic, m)], None))"

definition node_start :: "root_config \<Rightarrow> (string \<Rightarrow> nat \<Rightarrow> gotime) \<Rightarrow> gotime \<Rightarrow> go_error + ('h, 'k) node" where
  "node_start cfg clk now =
     (case validate cfg of
        Some err \<Rightarrow> Inl err
      | None \<Rightarrow> Inr \<lparr>nd_mgr = new_domain_manager
            (register_kernel root_manifest (clk ''rk'' 0) (clk ''rk'' 1) (clk ''rk'' 2) new_registry),
          nd_pending = domains_of cfg, nd_snap = [], nd_todo = [],
          nd_agg = new_health_aggregator now, nd_level = initial_log_level, nd_reload = Idle,
          nd_target = None, nd_tried = [], nd_published = []\<rparr>)"

text \<open>One visit of the second loop; a changed domain is stopped now and launched in the next step.\<close>

definition apply_visit ::
  "('w, 'r, 's, 'k) factories \<Rightarrow> ('w, 'r) domain_env \<Rightarrow> ctx_done \<Rightarrow> (string \<Rightarrow> nat \<Rightarrow> gotime)
    \<Rightarrow> string \<times> domain_spec \<Rightarrow> (string \<times> domain_spec) list \<Rightarrow> (('w, 'r, 's) domain_host, 'k) node
    \<Rightarrow> (('w, 'r, 's) domain_host, 'k) node" where
  "apply_visit fs env ctx clk is rest s = (case is of (i, sp) \<Rightarrow>
     (case go_get (mg_runs (nd_mgr s)) i of
        None \<Rightarrow> (case launch_inproc fs env ctx clk sp (nd_mgr s) of
            (e, m) \<Rightarrow> s\<lparr>nd_mgr := log_error ''domain reload launch failed'' (ds_ID sp) e m,
              nd_tried := nd_tried s @ [sp], nd_reload := Applying rest\<rparr>)
      | Some r \<Rightarrow>
          if spec_changed (dr_spec r) sp
          then s\<lparr>nd_mgr := stop_domain i (nd_mgr s), nd_reload := Relaunching sp rest\<rparr>
          else s\<lparr>nd_mgr := (nd_mgr s)\<lparr>mg_runs := go_put i (r\<lparr>dr_spec := sp\<rparr>) (mg_runs (nd_mgr s))\<rparr>,
            nd_reload := Applying rest\<rparr>))"

inductive node_step ::
  "('w, 'r, 's, 'k) factories \<Rightarrow> ('w, 'r) domain_env
    \<Rightarrow> (('w, 'r, 's) domain_host, 'k) node \<Rightarrow> (('w, 'r, 's) domain_host, 'k) node \<Rightarrow> bool" for fs env where
  launch: "nd_pending s = d # ds \<Longrightarrow> \<forall>i n. clk i n \<noteq> zero_time \<Longrightarrow>
    node_step fs env s (s\<lparr>nd_mgr := root_launch fs env ctx clk d (nd_mgr s), nd_pending := ds,
      nd_tried := nd_tried s @ [d]\<rparr>)"
| tick: "nd_todo s = [] \<Longrightarrow> go_range (mg_reg (nd_mgr s)) ord \<Longrightarrow>
    node_step fs env s (s\<lparr>nd_todo := discovery_list ord\<rparr>)"
| visit: "nd_todo s = d # ds \<Longrightarrow> policy_record set_exports d (nd_snap s, mg_reg (nd_mgr s)) = (snap, r) \<Longrightarrow>
    node_step fs env s (s\<lparr>nd_snap := snap, nd_mgr := set_registry r (nd_mgr s), nd_todo := ds\<rparr>)"
| aggregate: "go_range (mg_reg (nd_mgr s)) ord \<Longrightarrow>
    ha_tick note_publish ctx ord now1 now2 (nd_agg s, nd_published s) = (h, w) \<Longrightarrow>
    node_step fs env s (s\<lparr>nd_agg := h, nd_published := w\<rparr>)"
| request: "nd_pending s = [] \<Longrightarrow> \<forall>n. clk n \<noteq> zero_time \<Longrightarrow>
    go_range (mg_reg (nd_mgr s)) ord1 \<Longrightarrow> go_range (mg_reg (nd_mgr s)) ord2 \<Longrightarrow>
    admin_serve ord1 ord2 clk rq
      \<lparr>as_reg = mg_reg (nd_mgr s), as_health = Some (nd_agg s), as_level = nd_level s\<rparr> = (answer, a) \<Longrightarrow>
    node_step fs env s (s\<lparr>nd_mgr := set_registry (as_reg a) (nd_mgr s), nd_level := as_level a\<rparr>)"
| hup: "nd_pending s = [] \<Longrightarrow> nd_reload s = Idle \<Longrightarrow> load_config readFile path = (cfg, None) \<Longrightarrow>
    distinct ord \<Longrightarrow> set ord = go_keys (mg_runs (nd_mgr s)) \<Longrightarrow>
    node_step fs env s (s\<lparr>nd_reload := Removing ord,
      nd_target := Some (domains_of cfg)\<rparr>)"
| remove: "nd_reload s = Removing (i # is) \<Longrightarrow> nd_target s = Some specs \<Longrightarrow>
    node_step fs env s (s\<lparr>nd_mgr := reload_remove (index_specs specs) i (nd_mgr s),
      nd_reload := Removing is\<rparr>)"
| second_loop: "nd_reload s = Removing [] \<Longrightarrow> nd_target s = Some specs \<Longrightarrow> go_range (index_specs specs) ord \<Longrightarrow>
    node_step fs env s (s\<lparr>nd_reload := Applying ord\<rparr>)"
| apply_one: "nd_reload s = Applying (is # rest) \<Longrightarrow> \<forall>i n. clk i n \<noteq> zero_time \<Longrightarrow>
    node_step fs env s (apply_visit fs env ctx clk is rest s)"
| relaunch: "nd_reload s = Relaunching sp rest \<Longrightarrow> \<forall>i n. clk i n \<noteq> zero_time \<Longrightarrow>
    launch_inproc fs env ctx clk sp (nd_mgr s) = (e, m) \<Longrightarrow>
    node_step fs env s (s\<lparr>nd_mgr := log_error ''domain reload relaunch failed'' (ds_ID sp) e m,
      nd_tried := nd_tried s @ [sp], nd_reload := Applying rest\<rparr>)"
| reloaded: "nd_reload s = Applying [] \<Longrightarrow> node_step fs env s (s\<lparr>nd_reload := Idle\<rparr>)"

inductive node_reachable ::
  "('w, 'r, 's, 'k) factories \<Rightarrow> ('w, 'r) domain_env \<Rightarrow> root_config
    \<Rightarrow> (('w, 'r, 's) domain_host, 'k) node \<Rightarrow> bool" for fs env cfg where
  start: "node_start cfg clk now = Inr s \<Longrightarrow> \<forall>i n. clk i n \<noteq> zero_time \<Longrightarrow> node_reachable fs env cfg s"
| step: "node_reachable fs env cfg s \<Longrightarrow> node_step fs env s t \<Longrightarrow> node_reachable fs env cfg t"

section \<open>What a step does to the registry\<close>

lemma exports_kept_refl: "exports_kept new r r"
  by (auto simp: exports_kept_def)

lemma exports_kept_unregister: "exports_kept new r (unregister i r)"
  by (auto simp: exports_kept_def unregister_def split: if_splits)

lemma exports_kept_update_health: "exports_kept new r (update_health i hl t1 t2 t3 r)"
  unfolding exports_kept_def
proof (intro allI impI)
  fix j rec assume "go_get (update_health i hl t1 t2 t3 r) j = Some rec"
  then show "k_Exports rec = None \<or> (\<exists>old. go_get r j = Some old \<and> k_Exports rec = k_Exports old) \<or>
      (\<exists>ex. k_Exports rec = Some ex \<and> (j, ex) \<in> set new)"
    using go_get_update_health_same[of i hl t1 t2 t3 r] go_get_update_health_other[of i j hl t1 t2 t3 r]
    by (cases "i = j") (auto split: option.splits)
qed

lemma exports_kept_register:
  assumes "ds_ID d \<noteq> []"
  shows "exports_kept [(ds_ID d, domain_exports d)] r (register (domain_kernel_record d m k now) t1 t2 r)"
proof -
  obtain R where "register (domain_kernel_record d m k now) t1 t2 r = go_put (k_ID R) R r"
      "k_ID R = ds_ID d" "k_Exports R = Some (domain_exports d)"
    by (rule register_put[of "domain_kernel_record d m k now" t1 t2 r])
      (use assms in \<open>auto simp: domain_kernel_record_def\<close>)
  then show ?thesis by (auto simp: exports_kept_def split: if_splits)
qed

lemma launch_inproc_registry:
  assumes "ds_ID d \<noteq> []"
  shows "exports_kept [(ds_ID d, domain_exports d)] (mg_reg s) (mg_reg (snd (launch_inproc fs env ctx clk d s)))"
    and "go_get (mg_reg s) i \<noteq> None \<Longrightarrow> go_get (mg_reg (snd (launch_inproc fs env ctx clk d s))) i \<noteq> None"
    and "go_get (mg_runs (snd (launch_inproc fs env ctx clk d s))) i \<noteq> None \<Longrightarrow>
      i = ds_ID d \<or> go_get (mg_runs s) i \<noteq> None"
proof -
  have l: "exports_kept [(ds_ID d, domain_exports d)] (mg_reg s) (mg_reg t) \<and>
      (go_get (mg_reg s) i \<noteq> None \<longrightarrow> go_get (mg_reg t) i \<noteq> None) \<and>
      (go_get (mg_runs t) i \<noteq> None \<longrightarrow> i = ds_ID d \<or> go_get (mg_runs s) i \<noteq> None)"
    if t: "t = snd (launch_inproc fs env ctx clk d s)" for t
  proof (cases rule: launch_inproc_cases[of fs env ctx clk d s])
    case (failed err)
    then show ?thesis by (simp add: t exports_kept_refl)
  next
    case (launched m k fsm)
    have i: "k_ID (domain_kernel_record d m (fsm_kernel fsm) (clk (ds_ID d))) \<noteq> []" using assms by simp
    show ?thesis
      using launched(1) exports_kept_register[OF assms] register_get_other[OF i] by (auto simp: t)
  qed
  from l[OF refl] show
    "exports_kept [(ds_ID d, domain_exports d)] (mg_reg s) (mg_reg (snd (launch_inproc fs env ctx clk d s)))"
    "go_get (mg_reg s) i \<noteq> None \<Longrightarrow> go_get (mg_reg (snd (launch_inproc fs env ctx clk d s))) i \<noteq> None"
    "go_get (mg_runs (snd (launch_inproc fs env ctx clk d s))) i \<noteq> None \<Longrightarrow>
      i = ds_ID d \<or> go_get (mg_runs s) i \<noteq> None"
    by simp_all
qed

lemma root_launch_effect:
  assumes "ds_ID d \<noteq> []" and "\<forall>i n. clk i n \<noteq> zero_time" and "manager_ok s"
  shows "manager_ok (root_launch fs env ctx clk d s)"
    and "exports_kept [(ds_ID d, domain_exports d)] (mg_reg s) (mg_reg (root_launch fs env ctx clk d s))"
    and "go_get (mg_reg s) i \<noteq> None \<Longrightarrow> go_get (mg_reg (root_launch fs env ctx clk d s)) i \<noteq> None"
    and "go_get (mg_runs (root_launch fs env ctx clk d s)) i \<noteq> None \<Longrightarrow>
      i = ds_ID d \<or> go_get (mg_runs s) i \<noteq> None"
proof -
  have "manager_ok t \<and> exports_kept [(ds_ID d, domain_exports d)] (mg_reg s) (mg_reg t) \<and>
      (go_get (mg_reg s) i \<noteq> None \<longrightarrow> go_get (mg_reg t) i \<noteq> None) \<and>
      (go_get (mg_runs t) i \<noteq> None \<longrightarrow> i = ds_ID d \<or> go_get (mg_runs s) i \<noteq> None)"
    if t: "t = root_launch fs env ctx clk d s" for t
  proof (cases "ds_Mode d = ''inproc'' \<and> go_get fs (ds_Kind d) \<noteq> None")
    case True
    then show ?thesis
      using manager_ok_launch[OF assms(3,1), of clk fs env ctx] assms(2)
        launch_inproc_registry[OF assms(1), where s = s and fs = fs and env = env and ctx = ctx and clk = clk]
      by (auto simp: t root_launch_def split: prod.splits)
  next
    case False
    obtain b e reg where l: "launch_with_factory fs env ctx clk d (mg_reg s) = (b, e, reg)"
      by (metis prod_cases3)
    have ok: "registry_ok (mg_reg s)" using assms(3) by (simp add: manager_ok_def)
    have clk: "clk (ds_ID d) 2 \<noteq> zero_time" using assms(2) by simp
    note reg = launch_with_factory_registry[OF ok assms(1) clk l]
    have "exports_kept [(ds_ID d, domain_exports d)] (mg_reg s) reg"
      using l exports_kept_register[OF assms(1)] exports_kept_refl
      by (auto simp: launch_with_factory_def split: option.splits prod.splits)
    moreover have "manager_ok (s\<lparr>mg_reg := reg\<rparr>)" using assms(3) reg by (auto simp: manager_ok_def)
    ultimately show ?thesis
      using False l assms(3) reg(2) exports_kept_refl by (auto simp: t root_launch_def split: bool.splits)
  qed
  from this[OF refl] show "manager_ok (root_launch fs env ctx clk d s)"
    "exports_kept [(ds_ID d, domain_exports d)] (mg_reg s) (mg_reg (root_launch fs env ctx clk d s))"
    "go_get (mg_reg s) i \<noteq> None \<Longrightarrow> go_get (mg_reg (root_launch fs env ctx clk d s)) i \<noteq> None"
    "go_get (mg_runs (root_launch fs env ctx clk d s)) i \<noteq> None \<Longrightarrow>
      i = ds_ID d \<or> go_get (mg_runs s) i \<noteq> None"
    by simp_all
qed

lemma stop_domain_effect:
  "exports_kept new (mg_reg s) (mg_reg (stop_domain i s))"
  "go_get (mg_runs s) j = None \<Longrightarrow> go_get (mg_reg s) j \<noteq> None \<Longrightarrow> go_get (mg_reg (stop_domain i s)) j \<noteq> None"
  using exports_kept_unregister[of new "mg_reg s" i] stop_domain_reg[of i s j]
  by (auto simp: stop_domain_def Let_def exports_kept_refl split: option.splits)

lemma control_registry:
  "control_handler meth path now t1 t2 t3 r = (resp, r') \<Longrightarrow>
     r' = r \<or> (\<exists>j hl. r' = update_health j hl t1 t2 t3 r)"
  unfolding control_handler_def Let_def by (simp split: if_splits) blast+

lemma admin_registry:
  assumes "admin_serve ord1 ord2 clk rq a = (answer, a')" and "\<forall>n. clk n \<noteq> zero_time" and "registry_ok (as_reg a)"
  shows "registry_ok (as_reg a')" and "exports_kept new (as_reg a) (as_reg a')"
    and "go_get (as_reg a) i \<noteq> None \<Longrightarrow> go_get (as_reg a') i \<noteq> None"
proof -
  have "as_reg a' = as_reg a \<or> (\<exists>j hl. as_reg a' = update_health j hl (clk 1) (clk 2) (clk 3) (as_reg a))"
  proof (cases "admin_route (rq_path rq) = ControlPage")
    case True
    then have "as_reg a' = snd (control_handler (rq_method rq) (rq_path rq) (clk 0) (clk 1) (clk 2) (clk 3) (as_reg a))"
      using assms(1) by (auto simp: admin_serve_def split: prod.splits)
    then show ?thesis using control_registry prod.collapse by metis
  next
    case False
    then show ?thesis using assms(1) by (auto simp: admin_serve_def split: route.splits prod.splits)
  qed
  moreover have "go_get (update_health j hl t1 t2 t3 r) i \<noteq> None" if "go_get r i \<noteq> None" for j hl t1 t2 t3 r
    using go_get_update_health_same[of j hl t1 t2 t3 r] go_get_update_health_other[of j i hl t1 t2 t3 r] that
    by (cases "i = j") auto
  ultimately show "registry_ok (as_reg a')" "exports_kept new (as_reg a) (as_reg a')"
    "go_get (as_reg a) i \<noteq> None \<Longrightarrow> go_get (as_reg a') i \<noteq> None"
    using assms(3) registry_ok_update_health[OF assms(3) assms(2)[THEN spec]]
    by (auto intro: exports_kept_update_health exports_kept_refl)
qed

lemma policy_record_keys:
  assumes "policy_record set_exports d (snap, r) = (snap', r')" and "registry_ok r"
  shows "registry_ok r'" and "go_get r' i \<noteq> None \<longleftrightarrow> go_get r i \<noteq> None"
proof -
  show "registry_ok r'" using registry_ok_record[OF assms(2), of d snap] assms(1) by simp
  have "r' = r \<or> (\<exists>j ex. r' = set_exports j ex r)"
    using assms(1) by (auto simp: policy_record_def split: if_splits option.splits)
  then show "go_get r' i \<noteq> None \<longleftrightarrow> go_get r i \<noteq> None" by (auto split: if_splits)
qed

section \<open>The invariant\<close>

text \<open>The part of the node that the degradation policy sees, with the exports of what was launched.\<close>

definition node_view :: "('h, 'k) node \<Rightarrow> policy_sys" where
  "node_view s = \<lparr>dg_snap = nd_snap s, dg_reg = mg_reg (nd_mgr s), dg_todo = nd_todo s,
     dg_given = map (\<lambda>d. (ds_ID d, domain_exports d)) (nd_tried s)\<rparr>"

definition configured :: "root_config \<Rightarrow> domain_spec set" where
  "configured cfg = set (domains_of cfg) \<union> set (domains_of default_config)"

text \<open>
  The manager's invariant and the policy's; the specifications that occur are configured or
  built in; and the root kernel stays registered unless a domain of its id is launched.
\<close>

definition node_ok :: "root_config \<Rightarrow> ('h, 'k) node \<Rightarrow> bool" where
  "node_ok cfg s \<longleftrightarrow> manager_ok (nd_mgr s) \<and> policy_ok (node_view s) \<and>
     set (nd_pending s) \<union> set (nd_tried s) \<subseteq> configured cfg \<and>
     (\<forall>specs. nd_target s = Some specs \<longrightarrow> set specs \<subseteq> configured cfg) \<and>
     (\<forall>i. go_get (mg_runs (nd_mgr s)) i \<noteq> None \<longrightarrow> i \<in> ds_ID ` set (nd_tried s)) \<and>
     (go_get (mg_reg (nd_mgr s)) ''rk'' \<noteq> None \<or> ''rk'' \<in> ds_ID ` set (nd_tried s)) \<and>
     (case nd_reload s of
        Applying rest \<Rightarrow> \<forall>(i, sp) \<in> set rest. ds_ID sp = i \<and> sp \<in> configured cfg
      | Relaunching sp rest \<Rightarrow> sp \<in> configured cfg \<and> (\<forall>(i, sp) \<in> set rest. ds_ID sp = i \<and> sp \<in> configured cfg)
      | _ \<Rightarrow> True)"

lemma node_okD:
  assumes "node_ok cfg s"
  shows "manager_ok (nd_mgr s)" and "policy_ok (node_view s)" and "set (nd_tried s) \<subseteq> configured cfg"
    and "registry_ok (mg_reg (nd_mgr s))"
    and "go_get (mg_runs (nd_mgr s)) i \<noteq> None \<Longrightarrow> i \<in> ds_ID ` set (nd_tried s)"
    and "go_get (mg_reg (nd_mgr s)) ''rk'' \<noteq> None \<or> ''rk'' \<in> ds_ID ` set (nd_tried s)"
  using assms by (auto simp: node_ok_def manager_ok_def)

lemma load_domains: "load_config readFile path = (cfg', e) \<Longrightarrow> domains_of cfg' = domains_of default_config"
  using load_config_fixed_part[of readFile path] by (simp add: fixed_part_def domains_of_def)

text \<open>A step of the manager: what it has to respect for the invariant, for the specifications it launches.\<close>

definition manager_move :: "domain_spec list \<Rightarrow> ('h, 'k) manager \<Rightarrow> ('h, 'k) manager \<Rightarrow> bool" where
  "manager_move ds m m' \<longleftrightarrow> manager_ok m' \<and>
     exports_kept (map (\<lambda>d. (ds_ID d, domain_exports d)) ds) (mg_reg m) (mg_reg m') \<and>
     (\<forall>i. go_get (mg_runs m') i \<noteq> None \<longrightarrow> i \<in> ds_ID ` set ds \<or> go_get (mg_runs m) i \<noteq> None) \<and>
     (\<forall>i. go_get (mg_reg m) i \<noteq> None \<and> go_get (mg_runs m) i = None \<longrightarrow> go_get (mg_reg m') i \<noteq> None)"

lemma policy_ok_move:
  assumes "node_ok cfg s" and "manager_move ds (nd_mgr s) m"
  shows "policy_ok ((node_view s)\<lparr>dg_reg := mg_reg m,
    dg_given := dg_given (node_view s) @ map (\<lambda>d. (ds_ID d, domain_exports d)) ds\<rparr>)"
  by (rule policy_ok_change[OF node_okD(2)[OF assms(1)]])
    (use assms(2) in \<open>auto simp: manager_move_def manager_ok_def node_view_def\<close>)

lemma node_ok_move:
  assumes "node_ok cfg s" and "manager_move ds (nd_mgr s) m" and "set ds \<subseteq> configured cfg"
  shows "node_ok cfg (s\<lparr>nd_mgr := m, nd_tried := nd_tried s @ ds\<rparr>)"
proof -
  have "node_view (s\<lparr>nd_mgr := m, nd_tried := nd_tried s @ ds\<rparr>) = (node_view s)\<lparr>dg_reg := mg_reg m,
      dg_given := dg_given (node_view s) @ map (\<lambda>d. (ds_ID d, domain_exports d)) ds\<rparr>"
    by (simp add: node_view_def)
  then have "policy_ok (node_view (s\<lparr>nd_mgr := m, nd_tried := nd_tried s @ ds\<rparr>))"
    using policy_ok_move[OF assms(1,2)] by simp
  moreover have "go_get (mg_reg m) ''rk'' \<noteq> None \<or> ''rk'' \<in> ds_ID ` set (nd_tried s @ ds)"
    using node_okD(5)[OF assms(1), of "''rk''"] node_okD(6)[OF assms(1)] assms(2)
    by (cases "go_get (mg_runs (nd_mgr s)) ''rk'' = None") (auto simp: manager_move_def)
  ultimately show ?thesis
    using assms by (auto simp: node_ok_def manager_move_def image_Un)
qed

text \<open>The same when nothing is launched.\<close>

lemma node_ok_quiet: "node_ok cfg s \<Longrightarrow> manager_move [] (nd_mgr s) m \<Longrightarrow> node_ok cfg (s\<lparr>nd_mgr := m\<rparr>)"
  using node_ok_move[of cfg s "[]" m] by (cases s) simp

lemma move_launch:
  assumes "manager_ok m" and "ds_ID d \<noteq> []" and "\<forall>i n. clk i n \<noteq> zero_time"
  shows "manager_move [d] m (log_error msg i e (snd (launch_inproc fs env ctx clk d m)))"
  using manager_ok_launch[OF assms(1,2)] assms(3)
    launch_inproc_registry[OF assms(2), where s = m and fs = fs and env = env and ctx = ctx and clk = clk]
  by (auto simp: manager_move_def)

lemma move_root_launch:
  assumes "manager_ok m" and "ds_ID d \<noteq> []" and "\<forall>i n. clk i n \<noteq> zero_time"
  shows "manager_move [d] m (root_launch fs env ctx clk d m)"
  using root_launch_effect[OF assms(2,3,1), where fs = fs and env = env and ctx = ctx]
  by (auto simp: manager_move_def)

lemma move_stop: "manager_ok m \<Longrightarrow> manager_move ds m (stop_domain i m)"
  using stop_domain_effect[where s = m and i = i]
  by (auto simp: manager_move_def manager_ok_stop)

lemma move_refl: "manager_ok m \<Longrightarrow> manager_move ds m m"
  by (auto simp: manager_move_def exports_kept_refl)

lemma move_remove: "manager_ok m \<Longrightarrow> manager_move ds m (reload_remove index i m)"
  by (auto simp: reload_remove_def move_stop move_refl split: option.splits)

lemma move_registry:
  assumes "manager_ok m" and "registry_ok r" and "exports_kept [] (mg_reg m) r"
    and "\<And>i. go_get (mg_reg m) i \<noteq> None \<Longrightarrow> go_get r i \<noteq> None"
  shows "manager_move [] m (set_registry r m)"
  using assms by (auto simp: manager_move_def set_registry_def manager_ok_def)

section \<open>Every step keeps the invariant\<close>

lemma node_ok_start:
  assumes "node_start cfg clk now = Inr s" and "\<forall>i n. clk i n \<noteq> zero_time"
  shows "node_ok cfg s"
proof -
  let ?reg = "register_kernel root_manifest (clk ''rk'' 0) (clk ''rk'' 1) (clk ''rk'' 2) new_registry"
  have s: "s = \<lparr>nd_mgr = new_domain_manager ?reg, nd_pending = domains_of cfg, nd_snap = [], nd_todo = [],
      nd_agg = new_health_aggregator now, nd_level = initial_log_level, nd_reload = Idle,
      nd_target = None, nd_tried = [], nd_published = []\<rparr>"
    using assms(1) by (simp add: node_start_def split: option.splits)
  have ok: "registry_ok ?reg" using registry_ok_register_kernel[OF registry_ok_new] assms(2) by simp
  have k: "m_KernelID root_manifest = ''rk''" by (simp add: root_manifest_def)
  have get: "go_get ?reg i = Some rec \<Longrightarrow> k_Exports rec = None" for i rec
    by (auto simp: register_kernel_def Let_def new_registry_def zero_kernel_record_def split: if_splits)
  have "go_get ?reg ''rk'' \<noteq> None" by (simp add: register_kernel_def Let_def k)
  moreover have "policy_ok (node_view s)"
    using ok get by (auto simp: policy_ok_def node_view_def s new_domain_manager_def)
  moreover have "manager_ok (nd_mgr s)" using ok by (simp add: s manager_ok_def new_domain_manager_def)
  ultimately show ?thesis by (simp add: node_ok_def s configured_def new_domain_manager_def)
qed

lemma apply_visit_cases:
  obtains (fresh) e where "go_get (mg_runs (nd_mgr s)) i = None"
      "apply_visit fs env ctx clk (i, sp) rest s = s\<lparr>nd_mgr := log_error ''domain reload launch failed'' (ds_ID sp) e
        (snd (launch_inproc fs env ctx clk sp (nd_mgr s))), nd_tried := nd_tried s @ [sp], nd_reload := Applying rest\<rparr>"
      "e = fst (launch_inproc fs env ctx clk sp (nd_mgr s))"
  | (changed) r where "go_get (mg_runs (nd_mgr s)) i = Some r" "spec_changed (dr_spec r) sp"
      "apply_visit fs env ctx clk (i, sp) rest s =
        s\<lparr>nd_mgr := stop_domain i (nd_mgr s), nd_reload := Relaunching sp rest\<rparr>"
  | (same) r where "go_get (mg_runs (nd_mgr s)) i = Some r" "\<not> spec_changed (dr_spec r) sp"
      "apply_visit fs env ctx clk (i, sp) rest s =
        s\<lparr>nd_mgr := (nd_mgr s)\<lparr>mg_runs := go_put i (r\<lparr>dr_spec := sp\<rparr>) (mg_runs (nd_mgr s))\<rparr>, nd_reload := Applying rest\<rparr>"
proof (cases "go_get (mg_runs (nd_mgr s)) i")
  case None
  then show thesis
    by (intro fresh[of "fst (launch_inproc fs env ctx clk sp (nd_mgr s))"]) (auto simp: apply_visit_def split: prod.splits)
next
  case (Some r)
  then show thesis
    by (cases "spec_changed (dr_spec r) sp") (auto simp: apply_visit_def intro: changed same)
qed

lemma node_ok_step:
  assumes "node_step fs env s t" and "node_ok cfg s" and "\<forall>d \<in> configured cfg. ds_ID d \<noteq> []"
  shows "node_ok cfg t"
  using assms(1)
proof cases
  case (launch d ds clk ctx)
  then have d: "d \<in> configured cfg" using assms(2) by (auto simp: node_ok_def)
  have "node_ok cfg (s\<lparr>nd_mgr := root_launch fs env ctx clk d (nd_mgr s), nd_tried := nd_tried s @ [d]\<rparr>)"
    using node_ok_move[OF assms(2) move_root_launch] node_okD(1)[OF assms(2)] d launch(3) assms(3) by simp
  then show ?thesis using launch(1,2) by (simp add: node_ok_def node_view_def)
next
  case (tick ord)
  have "policy_step (node_view s) ((node_view s)\<lparr>dg_todo := discovery_list ord\<rparr>)"
    by (rule policy_step.tick) (use tick in \<open>simp_all add: node_view_def\<close>)
  then have "policy_ok ((node_view s)\<lparr>dg_todo := discovery_list ord\<rparr>)"
    by (rule policy_ok_step) (rule node_okD(2)[OF assms(2)])
  then show ?thesis using assms(2) tick(1) by (simp add: node_ok_def node_view_def)
next
  case (visit d ds snap r)
  have "policy_step (node_view s) ((node_view s)\<lparr>dg_snap := snap, dg_reg := r, dg_todo := ds\<rparr>)"
    by (rule policy_step.visit) (use visit in \<open>simp_all add: node_view_def\<close>)
  then have "policy_ok ((node_view s)\<lparr>dg_snap := snap, dg_reg := r, dg_todo := ds\<rparr>)"
    by (rule policy_ok_step) (rule node_okD(2)[OF assms(2)])
  then show ?thesis
    using assms(2) visit(1) policy_record_keys[OF visit(3) node_okD(4)[OF assms(2)]]
    by (simp add: node_ok_def node_view_def manager_ok_def set_registry_def)
next
  case (aggregate ord ctx now1 now2 h w)
  then show ?thesis using assms(2) by (simp add: node_ok_def node_view_def)
next
  case (request clk ord1 ord2 rq answer a)
  let ?a = "\<lparr>as_reg = mg_reg (nd_mgr s), as_health = Some (nd_agg s), as_level = nd_level s\<rparr>"
  have ok: "registry_ok (as_reg ?a)" using node_okD(4)[OF assms(2)] by simp
  note reg = admin_registry[OF request(6,3) ok]
  have "manager_move [] (nd_mgr s) (set_registry (as_reg a) (nd_mgr s))"
    by (rule move_registry[OF node_okD(1)[OF assms(2)]]) (use reg in auto)
  then show ?thesis using node_ok_quiet[OF assms(2)] request(1) by (simp add: node_ok_def node_view_def)
next
  case (hup readFile path cfg' ord)
  then show ?thesis using assms(2) load_domains[OF hup(4)] by (auto simp: node_ok_def node_view_def configured_def)
next
  case (remove i "is" specs)
  then show ?thesis
    using node_ok_quiet[OF assms(2) move_remove] node_okD(1)[OF assms(2)] by (simp add: node_ok_def node_view_def)
next
  case (second_loop specs ord)
  have "ds_ID sp = i \<and> sp \<in> configured cfg" if "(i, sp) \<in> set ord" for i sp
  proof -
    have "go_get (index_specs specs) i = Some sp"
      using that index_specs_ok[of specs] go_range_get[OF _ second_loop(4)] by blast
    then have "ds_ID sp = i" "sp \<in> set specs" using index_specs_ok[of specs] by blast+
    moreover have "set specs \<subseteq> configured cfg" using assms(2) second_loop(3) by (simp add: node_ok_def)
    ultimately show ?thesis by blast
  qed
  then show ?thesis using assms(2) second_loop(1) by (auto simp: node_ok_def node_view_def)
next
  case (apply_one "is" rest clk ctx)
  obtain i sp where x: "is = (i, sp)" by force
  have sp: "ds_ID sp = i" "sp \<in> configured cfg" "\<forall>(i, sp) \<in> set rest. ds_ID sp = i \<and> sp \<in> configured cfg"
    using assms(2) apply_one(2) by (auto simp: node_ok_def x)
  note mgr = node_okD(1)[OF assms(2)]
  show ?thesis
  proof (cases rule: apply_visit_cases[of s i fs env ctx clk sp rest])
    case (fresh e)
    have "manager_move [sp] (nd_mgr s) (log_error ''domain reload launch failed'' (ds_ID sp) e
        (snd (launch_inproc fs env ctx clk sp (nd_mgr s))))"
      by (rule move_launch[OF mgr]) (use sp assms(3) apply_one(3) in auto)
    from node_ok_move[OF assms(2) this] show ?thesis
      using sp fresh(2) apply_one(1) unfolding x by (auto simp: node_ok_def node_view_def)
  next
    case (changed r)
    then show ?thesis
      using node_ok_quiet[OF assms(2) move_stop[OF mgr]] sp apply_one(1) unfolding x
      by (auto simp: node_ok_def node_view_def)
  next
    case (same r)
    have "manager_move [] (nd_mgr s) ((nd_mgr s)\<lparr>mg_runs := go_put i (r\<lparr>dr_spec := sp\<rparr>) (mg_runs (nd_mgr s))\<rparr>)"
      using mgr same(1) sp(1) by (auto simp: manager_move_def manager_ok_def exports_kept_refl)
    from node_ok_quiet[OF assms(2) this] show ?thesis
      using sp same(3) apply_one(1) unfolding x by (auto simp: node_ok_def node_view_def)
  qed
next
  case (relaunch sp rest clk ctx e m)
  have sp: "sp \<in> configured cfg" "\<forall>(i, sp) \<in> set rest. ds_ID sp = i \<and> sp \<in> configured cfg"
    using assms(2) relaunch(2) by (auto simp: node_ok_def)
  have "manager_move [sp] (nd_mgr s) (log_error ''domain reload relaunch failed'' (ds_ID sp) e m)"
    using move_launch[OF node_okD(1)[OF assms(2)], of sp clk _ _ e fs env ctx] sp(1) assms(3) relaunch(3,4) by simp
  from node_ok_move[OF assms(2) this] show ?thesis
    using sp relaunch(1) by (auto simp: node_ok_def node_view_def)
next
  case reloaded
  then show ?thesis using assms(2) by (simp add: node_ok_def node_view_def)
qed

lemma node_ok_reachable:
  assumes "node_reachable fs env cfg s" and "\<forall>d \<in> configured cfg. ds_ID d \<noteq> []"
  shows "node_ok cfg s"
  using assms(1)
proof induction
  case (start clk now s)
  then show ?case by (rule node_ok_start)
next
  case (step s t)
  show ?case by (rule node_ok_step[OF step.hyps(2) step.IH assms(2)])
qed

section \<open>A reload among the other steps\<close>

text \<open>
  What the second loop has reached: of the index, the entries \<open>rest\<close> are still to be visited, all others are
  settled, and nothing runs that is not listed.
\<close>

definition applied :: "(string, domain_spec) gomap \<Rightarrow> (string \<times> domain_spec) list \<Rightarrow> ('h, 'k) manager \<Rightarrow> bool" where
  "applied ix rest m \<longleftrightarrow> visits rest \<and> (\<forall>(i, sp) \<in> set rest. go_get ix i = Some sp) \<and>
     (\<forall>i. go_get (mg_runs m) i \<noteq> None \<longrightarrow> go_get ix i \<noteq> None) \<and>
     (\<forall>i sp. go_get ix i = Some sp \<longrightarrow> (i, sp) \<in> set rest \<or> settled i sp m)"

definition reload_inv :: "(string, domain_spec) gomap \<Rightarrow> reload_phase \<Rightarrow> ('h, 'k) manager \<Rightarrow> bool" where
  "reload_inv ix ph m = (case ph of
       Idle \<Rightarrow> applied ix [] m
     | Removing ord \<Rightarrow> \<forall>i. go_get (mg_runs m) i \<noteq> None \<and> go_get ix i = None \<longrightarrow> i \<in> set ord
     | Applying rest \<Rightarrow> applied ix rest m
     | Relaunching sp rest \<Rightarrow> go_get (mg_runs m) (ds_ID sp) = None \<and> applied ix ((ds_ID sp, sp) # rest) m)"

lemma applied_cong:
  assumes "mg_runs m' = mg_runs m" and "mg_errors m' = mg_errors m"
  shows "applied ix rest m' = applied ix rest m"
proof -
  have "settled i sp m' = settled i sp m" for i sp using assms by (simp add: settled_def split: option.splits)
  then show ?thesis using assms(1) by (simp add: applied_def)
qed

lemma reload_inv_cong:
  "mg_runs m' = mg_runs m \<Longrightarrow> mg_errors m' = mg_errors m \<Longrightarrow> reload_inv ix ph m' = reload_inv ix ph m"
  by (simp add: reload_inv_def applied_cong[of m' m] split: reload_phase.splits)

text \<open>One entry is settled and the others stay as they are.\<close>

lemma applied_settle:
  assumes "applied ix ((i, sp) # rest) m" and "settled i sp m'"
    and "\<And>j. j \<noteq> i \<Longrightarrow> go_get (mg_runs m') j = go_get (mg_runs m) j"
    and "set (mg_errors m) \<subseteq> set (mg_errors m')"
  shows "applied ix rest m'"
proof -
  have ix: "go_get ix i = Some sp" and v: "visits rest" "i \<notin> fst ` set rest"
    and rest: "\<And>j sq. (j, sq) \<in> set rest \<Longrightarrow> go_get ix j = Some sq"
    using assms(1) by (auto simp: applied_def visits_Cons)
  have runs: "go_get ix j \<noteq> None" if "go_get (mg_runs m') j \<noteq> None" for j
    using that assms(1,3) ix by (cases "j = i") (auto simp: applied_def)
  have fin: "(j, sq) \<in> set rest \<or> settled j sq m'" if "go_get ix j = Some sq" for j sq
  proof (cases "j = i")
    case True
    then show ?thesis using that ix assms(2) by simp
  next
    case False
    then have "(j, sq) \<in> set rest \<or> settled j sq m" using assms(1) that by (auto simp: applied_def)
    then show ?thesis using settled_mono[OF _ assms(3)[OF False] assms(4)] by blast
  qed
  show ?thesis unfolding applied_def using v(1) rest runs fin by blast
qed

lemma applied_launch:
  assumes "applied ix ((i, sp) # rest) m" and "go_get (mg_runs m) i = None"
    and "launch_inproc fs env ctx clk sp m = (e, m1)"
  shows "applied ix rest (log_error msg i e m1)"
proof -
  have i: "ds_ID sp = i" using assms(1) by (simp add: applied_def visits_Cons)
  note eff = launch_inproc_effect[OF i assms(2,3)]
  show ?thesis
    by (rule applied_settle[OF assms(1)]) (use eff in \<open>auto intro: log_error_mem\<close>)
qed

lemma applied_stop: "applied ix ((i, sp) # rest) m \<Longrightarrow> applied ix ((i, sp) # rest) (stop_domain i m)"
  unfolding applied_def
proof (elim conjE, intro conjI allI impI)
  fix j sq
  assume *: "\<forall>i' sp'. go_get ix i' = Some sp' \<longrightarrow> (i', sp') \<in> set ((i, sp) # rest) \<or> settled i' sp' m"
    and "\<forall>(i', sp') \<in> set ((i, sp) # rest). go_get ix i' = Some sp'" and j: "go_get ix j = Some sq"
  then have "go_get ix i = Some sp" by simp
  then show "(j, sq) \<in> set ((i, sp) # rest) \<or> settled j sq (stop_domain i m)"
    using * j settled_mono[of j sq m "stop_domain i m"] by (cases "j = i") auto
qed (auto split: if_splits)

definition reloading_ok :: "('h, 'k) node \<Rightarrow> bool" where
  "reloading_ok s \<longleftrightarrow> (case nd_target s of
       None \<Rightarrow> nd_reload s = Idle
     | Some specs \<Rightarrow> nd_pending s = [] \<and> reload_inv (index_specs specs) (nd_reload s) (nd_mgr s))"

lemma reloading_ok_registry:
  "reloading_ok s \<Longrightarrow> mg_runs m = mg_runs (nd_mgr s) \<Longrightarrow> mg_errors m = mg_errors (nd_mgr s) \<Longrightarrow>
     nd_target t = nd_target s \<Longrightarrow> nd_reload t = nd_reload s \<Longrightarrow> nd_pending t = nd_pending s \<Longrightarrow>
     nd_mgr t = m \<Longrightarrow> reloading_ok t"
  by (simp add: reloading_ok_def reload_inv_cong[of m "nd_mgr s"] split: option.splits)

lemma reloading_ok_step: "node_step fs env s t \<Longrightarrow> reloading_ok s \<Longrightarrow> reloading_ok t"
proof (induction rule: node_step.induct)
  case (launch s d ds clk ctx)
  then show ?case by (auto simp: reloading_ok_def split: option.splits)
next
  case (tick s ord)
  from tick(3) show ?case by (rule reloading_ok_registry) simp_all
next
  case (visit s d ds snap r)
  from visit(3) show ?case by (rule reloading_ok_registry) (simp_all add: set_registry_def)
next
  case (aggregate s ord ctx now1 now2 h w)
  from aggregate(3) show ?case by (rule reloading_ok_registry) simp_all
next
  case (request s clk ord1 ord2 rq answer a)
  from request(6) show ?case by (rule reloading_ok_registry) (simp_all add: set_registry_def)
next
  case (hup s readFile path cfg ord)
  then show ?case by (auto simp: reloading_ok_def reload_inv_def go_keys_get)
next
  case (remove s i "is" specs)
  then show ?case
    by (auto simp: reloading_ok_def reload_inv_def reload_remove_get split: if_splits)
next
  case (second_loop s specs ord)
  have v: "visits ord" by (rule visits_index[OF second_loop(3)])
  have ix: "(i, sp) \<in> set ord \<longleftrightarrow> go_get (index_specs specs) i = Some sp" for i sp
    using go_range_get[OF _ second_loop(3)] index_specs_ok[of specs] by blast
  have "reload_inv (index_specs specs) (Removing []) (nd_mgr s)"
    using second_loop(1,2,4) by (simp add: reloading_ok_def)
  then have listed: "go_get (index_specs specs) i \<noteq> None" if "go_get (mg_runs (nd_mgr s)) i \<noteq> None" for i
    using that unfolding reload_inv_def reload_phase.case by (metis empty_iff list.set(1))
  then have "applied (index_specs specs) ord (nd_mgr s)" using v ix unfolding applied_def by blast
  then show ?case using second_loop(1,2,4) by (simp add: reloading_ok_def reload_inv_def)
next
  case (apply_one s x rest clk ctx)
  obtain i sp where x: "x = (i, sp)" by force
  obtain specs where sp: "nd_target s = Some specs" "nd_pending s = []"
      "applied (index_specs specs) ((i, sp) # rest) (nd_mgr s)"
    using apply_one(1,3) by (auto simp: reloading_ok_def reload_inv_def x split: option.splits)
  have i: "ds_ID sp = i" using sp(3) by (simp add: applied_def visits_Cons)
  show ?case
  proof (cases rule: apply_visit_cases[of s i fs env ctx clk sp rest])
    case (fresh e)
    have "launch_inproc fs env ctx clk sp (nd_mgr s) = (e, snd (launch_inproc fs env ctx clk sp (nd_mgr s)))"
      using fresh(3) by simp
    from applied_launch[OF sp(3) fresh(1) this] show ?thesis
      using sp(1,2) by (simp add: x fresh(2) reloading_ok_def reload_inv_def i)
  next
    case (changed r)
    then show ?thesis
      using applied_stop[OF sp(3)] sp(1,2) by (simp add: x reloading_ok_def reload_inv_def i)
  next
    case (same r)
    have "applied (index_specs specs) rest
        ((nd_mgr s)\<lparr>mg_runs := go_put i (r\<lparr>dr_spec := sp\<rparr>) (mg_runs (nd_mgr s))\<rparr>)"
      by (rule applied_settle[OF sp(3)]) (auto simp: settled_def)
    then show ?thesis using sp(1,2) by (simp add: x same(3) reloading_ok_def reload_inv_def)
  qed
next
  case (relaunch s sp rest clk ctx e m)
  obtain specs where sp: "nd_target s = Some specs" "nd_pending s = []" "go_get (mg_runs (nd_mgr s)) (ds_ID sp) = None"
      "applied (index_specs specs) ((ds_ID sp, sp) # rest) (nd_mgr s)"
    using relaunch(1,4) by (auto simp: reloading_ok_def reload_inv_def split: option.splits)
  from applied_launch[OF sp(4,3) relaunch(3)] show ?case
    using sp(1,2) by (simp add: reloading_ok_def reload_inv_def)
next
  case (reloaded s)
  then show ?case by (auto simp: reloading_ok_def reload_inv_def split: option.splits)
qed

lemma reloading_ok_reachable: "node_reachable fs env cfg s \<Longrightarrow> reloading_ok s"
proof (induction rule: node_reachable.induct)
  case (start clk now s)
  then show ?case by (auto simp: node_start_def reloading_ok_def split: option.splits)
next
  case (step s t)
  show ?case by (rule reloading_ok_step[OF step.hyps(2) step.IH])
qed

section \<open>A reload always gets on\<close>

text \<open>Its own steps are always possible and bring it nearer to its end.\<close>

definition reload_rank :: "('h, 'k) node \<Rightarrow> nat" where
  "reload_rank s = (case nd_reload s of
       Idle \<Rightarrow> 0
     | Removing ord \<Rightarrow> 3 + length ord + 2 * length (index_specs (case nd_target s of Some ds \<Rightarrow> ds | None \<Rightarrow> []))
     | Applying rest \<Rightarrow> 1 + 2 * length rest
     | Relaunching sp rest \<Rightarrow> 2 + 2 * length rest)"

lemma reload_progress:
  assumes "nd_target s = Some specs" and "nd_reload s \<noteq> Idle"
  shows "\<exists>t. node_step fs env s t \<and> nd_target t = Some specs \<and> reload_rank t < reload_rank s"
proof (cases "nd_reload s")
  case (Removing ord)
  show ?thesis
  proof (cases ord)
    case Nil
    let ?t = "s\<lparr>nd_reload := Applying (index_specs specs)\<rparr>"
    have "node_step fs env s ?t"
      by (rule node_step.second_loop[OF _ assms(1) go_range_refl]) (simp add: Removing Nil)
    then show ?thesis using assms(1) Removing by (intro exI[of _ ?t]) (simp add: reload_rank_def)
  next
    case (Cons i js)
    let ?t = "s\<lparr>nd_mgr := reload_remove (index_specs specs) i (nd_mgr s), nd_reload := Removing js\<rparr>"
    have "node_step fs env s ?t"
      by (rule node_step.remove[OF _ assms(1)]) (simp add: Removing Cons)
    then show ?thesis using assms(1) Removing Cons by (intro exI[of _ ?t]) (simp add: reload_rank_def)
  qed
next
  case (Applying rest)
  show ?thesis
  proof (cases rest)
    case Nil
    then have "node_step fs env s (s\<lparr>nd_reload := Idle\<rparr>)" using Applying by (intro node_step.reloaded) simp
    then show ?thesis using assms(1) Applying by (intro exI[of _ "s\<lparr>nd_reload := Idle\<rparr>"]) (simp add: reload_rank_def)
  next
    case (Cons x q)
    obtain i sp where x: "x = (i, sp)" by force
    let ?t = "apply_visit fs env False (\<lambda>_ _. 1) x q s"
    have "node_step fs env s ?t"
      using Applying Cons by (intro node_step.apply_one) (simp_all add: zero_time_def)
    moreover have "nd_target ?t = nd_target s" "reload_rank ?t < reload_rank s"
      unfolding x
      by (cases rule: apply_visit_cases[of s i fs env False "\<lambda>_ _. 1" sp q];
          simp add: reload_rank_def Applying Cons)+
    ultimately show ?thesis using assms(1) by auto
  qed
next
  case (Relaunching sp rest)
  obtain e m where "launch_inproc fs env False (\<lambda>_ _. 1) sp (nd_mgr s) = (e, m)" by fastforce
  then have "node_step fs env s (s\<lparr>nd_mgr := log_error ''domain reload relaunch failed'' (ds_ID sp) e m,
      nd_tried := nd_tried s @ [sp], nd_reload := Applying rest\<rparr>)"
    using Relaunching by (intro node_step.relaunch) (auto simp: zero_time_def)
  then show ?thesis using assms(1) Relaunching
    by (intro exI[of _ "s\<lparr>nd_mgr := log_error ''domain reload relaunch failed'' (ds_ID sp) e m,
      nd_tried := nd_tried s @ [sp], nd_reload := Applying rest\<rparr>"]) (simp add: reload_rank_def)
qed (use assms(2) in simp)

lemma reload_finishes:
  "nd_target s = Some specs \<Longrightarrow>
     \<exists>t. (node_step fs env)\<^sup>*\<^sup>* s t \<and> nd_target t = Some specs \<and> nd_reload t = Idle"
proof (induction "reload_rank s" arbitrary: s rule: less_induct)
  case less
  show ?case
  proof (cases "nd_reload s = Idle")
    case False
    obtain t where t: "node_step fs env s t" "nd_target t = Some specs" "reload_rank t < reload_rank s"
      using reload_progress[OF less.prems False] by blast
    obtain u where "(node_step fs env)\<^sup>*\<^sup>* t u" "nd_target u = Some specs" "nd_reload u = Idle"
      using less.hyps[OF t(3,2)] by blast
    then show ?thesis using converse_rtranclp_into_rtranclp[of "node_step fs env", OF t(1)] by blast
  qed (use less.prems in blast)
qed

text \<open>A reload that nothing comes between is the function \<open>reload\<close> of the domain manager.\<close>

lemma undisturbed_removals:
  "nd_reload s = Removing ord \<Longrightarrow> nd_target s = Some specs \<Longrightarrow>
     (node_step fs env)\<^sup>*\<^sup>* s (s\<lparr>nd_mgr := remove_all (index_specs specs) ord (nd_mgr s), nd_reload := Removing []\<rparr>)"
proof (induction ord arbitrary: s)
  case Nil
  then show ?case by (cases s) (simp add: remove_all_def)
next
  case (Cons i ord)
  let ?t = "s\<lparr>nd_mgr := reload_remove (index_specs specs) i (nd_mgr s), nd_reload := Removing ord\<rparr>"
  have "node_step fs env s ?t" using Cons.prems by (intro node_step.remove) simp_all
  moreover have "(node_step fs env)\<^sup>*\<^sup>* ?t
      (?t\<lparr>nd_mgr := remove_all (index_specs specs) ord (nd_mgr ?t), nd_reload := Removing []\<rparr>)"
    by (rule Cons.IH) (simp_all add: Cons.prems)
  ultimately show ?case
    using converse_rtranclp_into_rtranclp[of "node_step fs env" s ?t] by (simp add: remove_all_def)
qed

lemma undisturbed_visit:
  assumes "nd_reload s = Applying ((i, sp) # rest)" and "ds_ID sp = i" and "\<forall>i n. clk i n \<noteq> zero_time"
  shows "\<exists>tried. (node_step fs env)\<^sup>*\<^sup>* s (s\<lparr>nd_mgr := reload_apply fs env ctx clk (i, sp) (nd_mgr s),
    nd_tried := tried, nd_reload := Applying rest\<rparr>)"
proof -
  have step: "node_step fs env s (apply_visit fs env ctx clk (i, sp) rest s)"
    using assms by (intro node_step.apply_one) simp_all
  show ?thesis
  proof (cases rule: apply_visit_cases[of s i fs env ctx clk sp rest])
    case (fresh e)
    have "reload_apply fs env ctx clk (i, sp) (nd_mgr s) = log_error ''domain reload launch failed'' (ds_ID sp) e
        (snd (launch_inproc fs env ctx clk sp (nd_mgr s)))"
      using fresh by (simp add: reload_apply_def split: prod.splits)
    then show ?thesis using r_into_rtranclp[of "node_step fs env", OF step] fresh(2) by auto
  next
    case (changed r)
    let ?t = "s\<lparr>nd_mgr := stop_domain i (nd_mgr s), nd_reload := Relaunching sp rest\<rparr>"
    obtain e m where l: "launch_inproc fs env ctx clk sp (stop_domain i (nd_mgr s)) = (e, m)" by fastforce
    have "node_step fs env ?t (?t\<lparr>nd_mgr := log_error ''domain reload relaunch failed'' (ds_ID sp) e m,
        nd_tried := nd_tried ?t @ [sp], nd_reload := Applying rest\<rparr>)"
      using l assms(3) by (intro node_step.relaunch) simp_all
    moreover have "reload_apply fs env ctx clk (i, sp) (nd_mgr s) =
        log_error ''domain reload relaunch failed'' (ds_ID sp) e m"
      using changed l by (simp add: reload_apply_def)
    ultimately show ?thesis using step run2[of "node_step fs env" s ?t] changed(3) by auto
  next
    case (same r)
    have "reload_apply fs env ctx clk (i, sp) (nd_mgr s) =
        (nd_mgr s)\<lparr>mg_runs := go_put i (r\<lparr>dr_spec := sp\<rparr>) (mg_runs (nd_mgr s))\<rparr>"
      using same by (simp add: reload_apply_def)
    then have "apply_visit fs env ctx clk (i, sp) rest s = s\<lparr>nd_mgr := reload_apply fs env ctx clk (i, sp) (nd_mgr s),
        nd_tried := nd_tried s, nd_reload := Applying rest\<rparr>"
      using same(3) by (cases s) simp
    then show ?thesis using step by (metis r_into_rtranclp)
  qed
qed

lemma undisturbed_visits:
  "nd_reload s = Applying ord \<Longrightarrow> visits ord \<Longrightarrow> \<forall>i n. clk i n \<noteq> zero_time \<Longrightarrow>
     \<exists>tried. (node_step fs env)\<^sup>*\<^sup>* s (s\<lparr>nd_mgr := apply_all fs env ctx clk ord (nd_mgr s), nd_tried := tried,
       nd_reload := Applying []\<rparr>)"
proof (induction ord arbitrary: s)
  case Nil
  then show ?case by (intro exI[of _ "nd_tried s"]) (cases s; simp)
next
  case (Cons x ord)
  obtain i sp where x: "x = (i, sp)" by force
  have sp: "ds_ID sp = i" "visits ord" using Cons.prems(2) by (simp_all add: x visits_Cons)
  obtain tried where t: "(node_step fs env)\<^sup>*\<^sup>* s (s\<lparr>nd_mgr := reload_apply fs env ctx clk (i, sp) (nd_mgr s),
      nd_tried := tried, nd_reload := Applying ord\<rparr>)"
    using undisturbed_visit[OF _ sp(1) Cons.prems(3)] Cons.prems(1) unfolding x by blast
  let ?t = "s\<lparr>nd_mgr := reload_apply fs env ctx clk (i, sp) (nd_mgr s), nd_tried := tried, nd_reload := Applying ord\<rparr>"
  obtain tried' where "(node_step fs env)\<^sup>*\<^sup>* ?t (?t\<lparr>nd_mgr := apply_all fs env ctx clk ord (nd_mgr ?t),
      nd_tried := tried', nd_reload := Applying []\<rparr>)"
    using Cons.IH[of ?t] sp(2) Cons.prems(3) by auto
  with t have "(node_step fs env)\<^sup>*\<^sup>* s (?t\<lparr>nd_mgr := apply_all fs env ctx clk ord (nd_mgr ?t),
      nd_tried := tried', nd_reload := Applying []\<rparr>)" by (rule rtranclp_trans)
  then show ?case by (auto simp: x)
qed

section \<open>Properties of the node\<close>

lemma domain_exports_copy: "copy_exports (Some (domain_exports d)) = Some (domain_exports d)"
  by (simp add: copy_exports_def copy_slice_def domain_exports_def)

text \<open>
  C4: In every state the root kernel can reach, however launches, the degradation policy, the health
  aggregator, admin requests and the steps of reloads interleave: the registry is well formed
  and holds the root kernel; every managed domain is filed under its id, is registered, and
  has reached ready; and whatever exports are offered for an id are those of a configured
  (or built-in) domain of that very id.
\<close>
theorem node_invariant:
  assumes "node_reachable fs env cfg s" and "\<forall>d \<in> configured cfg. ds_ID d \<noteq> [] \<and> ds_ID d \<noteq> ''rk''"
  shows "registry_ok (mg_reg (nd_mgr s)) \<and> go_get (mg_reg (nd_mgr s)) ''rk'' \<noteq> None \<and>
    (\<forall>i r. go_get (mg_runs (nd_mgr s)) i = Some r \<longrightarrow> ds_ID (dr_spec r) = i \<and>
       go_get (mg_reg (nd_mgr s)) i \<noteq> None \<and> fsm_state (dr_fsm r) = StateReady) \<and>
    (\<forall>i ex. registry_exports (mg_reg (nd_mgr s)) i = Some (Some ex) \<longrightarrow>
       (\<exists>d \<in> configured cfg. ds_ID d = i \<and> ex = domain_exports d))"
proof (intro conjI allI impI)
  have ok: "node_ok cfg s" using node_ok_reachable[OF assms(1)] assms(2) by blast
  show "registry_ok (mg_reg (nd_mgr s))" by (rule node_okD(4)[OF ok])
  have "''rk'' \<notin> ds_ID ` set (nd_tried s)" using node_okD(3)[OF ok] assms(2) by auto
  then show "go_get (mg_reg (nd_mgr s)) ''rk'' \<noteq> None" using node_okD(6)[OF ok] by simp
  show "ds_ID (dr_spec r) = i" "go_get (mg_reg (nd_mgr s)) i \<noteq> None" "fsm_state (dr_fsm r) = StateReady"
    if "go_get (mg_runs (nd_mgr s)) i = Some r" for i r
    using node_okD(1)[OF ok] that by (auto simp: manager_ok_def)
  show "\<exists>d \<in> configured cfg. ds_ID d = i \<and> ex = domain_exports d"
    if "registry_exports (mg_reg (nd_mgr s)) i = Some (Some ex)" for i ex
  proof -
    from that obtain rec where "go_get (dg_reg (node_view s)) i = Some rec" "k_Exports rec = Some ex"
      by (auto simp: registry_exports_def node_view_def)
    then have "genuine (node_view s) i (Some ex)" using policy_okD(2)[OF node_okD(2)[OF ok]] by metis
    then have "\<exists>d \<in> set (nd_tried s). ds_ID d = i \<and> ex = domain_exports d"
      by (auto simp: genuine_def node_view_def domain_exports_copy)
    then show ?thesis using node_okD(3)[OF ok] by blast
  qed
qed

text \<open>
  C17: A reload converges to the new list even though policy, aggregator and admin requests work on the
  registry between its steps: whenever no reload is under way after one was begun, a domain
  that was not listed does not run, and a listed one runs its last specification in the list or
  its launch error has been logged; and from every state a reload under way can finish.
\<close>
theorem node_reload_converges:
  assumes "node_reachable fs env cfg s" and "nd_target s = Some specs"
  shows "(nd_reload s = Idle \<longrightarrow> (case go_get (index_specs specs) i of
        None \<Rightarrow> go_get (mg_runs (nd_mgr s)) i = None
      | Some sp \<Rightarrow> settled i sp (nd_mgr s))) \<and>
    (\<exists>t. (node_step fs env)\<^sup>*\<^sup>* s t \<and> nd_target t = Some specs \<and> nd_reload t = Idle)"
proof (intro conjI impI)
  assume "nd_reload s = Idle"
  then have "applied (index_specs specs) [] (nd_mgr s)"
    using reloading_ok_reachable[OF assms(1)] assms(2) by (simp add: reloading_ok_def reload_inv_def)
  then show "case go_get (index_specs specs) i of
      None \<Rightarrow> go_get (mg_runs (nd_mgr s)) i = None | Some sp \<Rightarrow> settled i sp (nd_mgr s)"
    by (auto simp: applied_def split: option.splits)
qed (rule reload_finishes[OF assms(2)])


section \<open>A run\<close>

text \<open>The node on the built-in configuration: the site is launched, and then a SIGHUP arrives.\<close>

lemma default_domains: "\<exists>d. domains_of default_config = [d] \<and> ds_ID d = ''site''"
  by (simp add: domains_of_def default_config_def)

lemma configured_default: "\<forall>d \<in> configured default_config. ds_ID d \<noteq> [] \<and> ds_ID d \<noteq> ''rk''"
  using default_domains by (auto simp: configured_def)

lemma sample_run:
  obtains s t where "node_reachable (steady_factories :: (unit, unit, unit, unit) factories) no_ports default_config s"
    and "nd_pending s = []" and "nd_reload s = Idle"
    and "node_reachable (steady_factories :: (unit, unit, unit, unit) factories) no_ports default_config t"
    and "nd_target t = Some (domains_of default_config)"
proof -
  let ?fs = "steady_factories :: (unit, unit, unit, unit) factories"
  obtain d where d: "domains_of default_config = [d]" using default_domains by blast
  obtain s0 :: "((unit, unit, unit) domain_host, unit) node" where s0: "node_start default_config (\<lambda>_ _. 1) 1 = Inr s0"
    by (simp add: node_start_def validate_def default_config_def)
  have f0: "nd_pending s0 = [d]" "nd_reload s0 = Idle" using s0 d by (auto simp: node_start_def split: option.splits)
  have r0: "node_reachable ?fs no_ports default_config s0"
    by (rule node_reachable.start[OF s0]) (simp add: zero_time_def)
  let ?s1 = "s0\<lparr>nd_mgr := root_launch ?fs no_ports False (\<lambda>_ _. 1) d (nd_mgr s0), nd_pending := [],
    nd_tried := nd_tried s0 @ [d]\<rparr>"
  have r1: "node_reachable ?fs no_ports default_config ?s1"
    by (rule node_reachable.step[OF r0 node_step.launch[OF f0(1)]]) (simp add: zero_time_def)
  have ok: "go_map (mg_runs (nd_mgr ?s1))"
    using node_ok_reachable[OF r1] configured_default by (auto simp: node_ok_def manager_ok_def)
  have load: "load_config (\<lambda>_. Inl []) [] = (default_config, None)" by (simp add: load_config_def)
  have "node_step ?fs no_ports ?s1 (?s1\<lparr>nd_reload := Removing (map fst (mg_runs (nd_mgr ?s1))),
      nd_target := Some (domains_of default_config)\<rparr>)"
    by (rule node_step.hup[OF _ _ load]) (use f0 ok in \<open>auto simp: go_map_def go_keys_def\<close>)
  from that[OF r1 _ _ node_reachable.step[OF r1 this]] show thesis using f0(2) by simp
qed

theorem node_invariant_witness:
  "\<exists>s. node_reachable (steady_factories :: (unit, unit, unit, unit) factories) no_ports default_config s \<and>
     go_get (mg_reg (nd_mgr s)) ''rk'' \<noteq> None"
proof -
  obtain s where s: "node_reachable (steady_factories :: (unit, unit, unit, unit) factories) no_ports default_config s"
    by (rule sample_run)
  with node_invariant[OF s configured_default] show ?thesis by blast
qed

theorem node_reload_converges_witness:
  "\<exists>t. node_reachable (steady_factories :: (unit, unit, unit, unit) factories) no_ports default_config t \<and>
     (\<exists>u. (node_step steady_factories no_ports)\<^sup>*\<^sup>* t u \<and> nd_target u = Some (domains_of default_config) \<and> nd_reload u = Idle)"
proof -
  obtain t where t: "node_reachable (steady_factories :: (unit, unit, unit, unit) factories) no_ports default_config t"
    "nd_target t = Some (domains_of default_config)" by (rule sample_run)
  with node_reload_converges[OF t] show ?thesis by blast
qed


end
