(* ===== verification/Safe_Log_Hub.thy ===== *)
theory Safe_Log_Hub
  imports Telemetry
begin

text \<open>
  The protected log hub of \<open>platform/telemetry/loghub_safe_gen.go\<close>: a rate limit per window, a
  bounded queue, a forwarding loop and four counters. The sequential operations come first;
  then the same code as concurrent atomic steps, one per access of a shared counter or of the
  queue, since any number of goroutines call \<open>Publish\<close> while the loop runs. The \<open>uint64\<close>
  counters are 64-bit words, the \<open>int64\<close> rate counter wraps.
\<close>

section \<open>Configuration\<close>

record hub_config =
  hc_topics :: "string list"
  hc_scopeTopic :: bool
  hc_buf :: int
  hc_rateMax :: int
  hc_rateWindow :: duration

definition default_hub_config :: hub_config where
  "default_hub_config =
     \<lparr>hc_topics = [''telemetry.logs''], hc_scopeTopic = False, hc_buf = 1024,
      hc_rateMax = 1000, hc_rateWindow = second\<rparr>"

datatype hub_option =
    WithTopics "string list"
  | WithScopeTopic bool
  | WithBuffer int
  | WithRateLimit int duration

fun apply_hub_option :: "hub_config \<Rightarrow> hub_option \<Rightarrow> hub_config" where
  "apply_hub_option h (WithTopics ts) = h\<lparr>hc_topics := ts\<rparr>"
| "apply_hub_option h (WithScopeTopic enable) = h\<lparr>hc_scopeTopic := enable\<rparr>"
| "apply_hub_option h (WithBuffer n) = (if n > 0 then h\<lparr>hc_buf := n\<rparr> else h)"
| "apply_hub_option h (WithRateLimit n interval) =
     h\<lparr>hc_rateMax := (if n \<le> 0 then 1000 else n),
       hc_rateWindow := (if interval \<le> 0 then second else interval)\<rparr>"

definition hub_config_ok :: "hub_config \<Rightarrow> bool" where
  "hub_config_ok h \<longleftrightarrow> 0 < hc_buf h \<and> 0 < hc_rateMax h \<and> 0 < hc_rateWindow h"

lemma hub_config_ok_default: "hub_config_ok default_hub_config"
  by (simp add: hub_config_ok_def default_hub_config_def second_def)

lemma hub_config_ok_option [inv_intros]: "hub_config_ok h \<Longrightarrow> hub_config_ok (apply_hub_option h opt)"
  by (cases opt) (auto simp: hub_config_ok_def second_def)

lemma hub_config_ok_options [inv_intros]:
  "hub_config_ok h \<Longrightarrow> hub_config_ok (foldl apply_hub_option h opts)"
  by (induction opts arbitrary: h) (auto intro: inv_intros)

section \<open>The hub\<close>

record hub =
  hb_config :: hub_config
  hb_rateNow :: int
  hb_lastReset :: gotime
  hb_in :: "log_record_v2 chan"
  hb_total :: "64 word"
  hb_forwarded :: "64 word"
  hb_droppedRate :: "64 word"
  hb_droppedQueue :: "64 word"
  hb_stop_closed :: bool

text \<open>\<open>NewSafeLogHub\<close> panics when \<open>make\<close> or \<open>NewTicker\<close> gets a bad argument: \<open>None\<close>.\<close>

definition new_safe_log_hub :: "hub_option list \<Rightarrow> gotime \<Rightarrow> hub option" where
  "new_safe_log_hub opts now =
     (let c = foldl apply_hub_option default_hub_config opts
      in if hc_buf c < 0 \<or> hc_rateWindow c \<le> 0 then None
         else Some \<lparr>hb_config = c, hb_rateNow = 0, hb_lastReset = now,
                hb_in = make_chan (nat (hc_buf c)), hb_total = 0, hb_forwarded = 0,
                hb_droppedRate = 0, hb_droppedQueue = 0, hb_stop_closed = False\<rparr>)"

text \<open>The topics \<open>forward\<close> publishes a record on, in order, and \<open>forward\<close> itself.\<close>

definition hub_topics :: "hub_config \<Rightarrow> log_record_v2 \<Rightarrow> string list" where
  "hub_topics c rec = hc_topics c @
     (if hc_scopeTopic c \<and> l_Scope rec \<noteq> [] then [''telemetry.logs.'' @ l_Scope rec] else [])"

definition hub_forward ::
  "(log_record_v2, 'w) publisher \<Rightarrow> log_record_v2 \<Rightarrow> hub \<times> 'w \<Rightarrow> hub \<times> 'w" where
  "hub_forward pub rec hw = (case hw of (h, w) \<Rightarrow>
     (h\<lparr>hb_forwarded := hb_forwarded h + 1\<rparr>,
      publish_all pub False (hub_topics (hb_config h) rec) rec w))"

definition hub_tick :: "gotime \<Rightarrow> hub \<Rightarrow> hub" where
  "hub_tick now h = h\<lparr>hb_rateNow := 0, hb_lastReset := now\<rparr>"

definition hub_publish :: "log_record_v2 \<Rightarrow> hub \<Rightarrow> hub \<times> bool" where
  "hub_publish rec h0 =
     (let h1 = h0\<lparr>hb_total := hb_total h0 + 1\<rparr>;
          limited = hc_rateMax (hb_config h1) > 0;
          n = wrap64 (hb_rateNow h1 + 1);
          h2 = (if limited then h1\<lparr>hb_rateNow := n\<rparr> else h1)
      in if limited \<and> n > hc_rateMax (hb_config h1)
         then (h2\<lparr>hb_droppedRate := hb_droppedRate h2 + 1\<rparr>, False)
         else case chan_try_send rec (hb_in h2) of
             Sent c \<Rightarrow> (h2\<lparr>hb_in := c\<rparr>, True)
           | _ \<Rightarrow> (h2\<lparr>hb_droppedQueue := hb_droppedQueue h2 + 1\<rparr>, False))"

record log_hub_stats =
  hs_Total :: "64 word"
  hs_Forwarded :: "64 word"
  hs_DroppedRate :: "64 word"
  hs_DroppedQueue :: "64 word"
  hs_RateWindow :: duration
  hs_RateMax :: int
  hs_Since :: gotime

definition hub_stats :: "hub \<Rightarrow> log_hub_stats" where
  "hub_stats h = \<lparr>hs_Total = hb_total h, hs_Forwarded = hb_forwarded h,
     hs_DroppedRate = hb_droppedRate h, hs_DroppedQueue = hb_droppedQueue h,
     hs_RateWindow = hc_rateWindow (hb_config h), hs_RateMax = hc_rateMax (hb_config h),
     hs_Since = hb_lastReset h\<rparr>"

text \<open>\<open>Close\<close> closes the stop channel (a second call panics: \<open>None\<close>).\<close>

definition hub_close :: "hub \<Rightarrow> hub option" where
  "hub_close h = (if hb_stop_closed h then None else Some (h\<lparr>hb_stop_closed := True\<rparr>))"

text \<open>A burst of publications with no tick and no forwarding in between, and its verdicts.\<close>

fun hub_publish_list :: "log_record_v2 list \<Rightarrow> hub \<Rightarrow> hub \<times> bool list" where
  "hub_publish_list [] h = (h, [])"
| "hub_publish_list (r # rs) h =
     (let (h1, ok) = hub_publish r h; (h2, oks) = hub_publish_list rs h1 in (h2, ok # oks))"

definition hub_ok :: "hub \<Rightarrow> bool" where
  "hub_ok h \<longleftrightarrow> hub_config_ok (hb_config h) \<and> chan_ok (hb_in h) \<and> \<not> c_closed (hb_in h) \<and>
     c_cap (hb_in h) = nat (hc_buf (hb_config h))"

lemma hub_ok_new: "new_safe_log_hub opts now = Some h \<Longrightarrow> hub_ok h"
  using hub_config_ok_options[OF hub_config_ok_default, of opts]
  by (auto simp: new_safe_log_hub_def hub_ok_def Let_def split: if_splits)

text \<open>One publication, decided by the rate counter and the room in the queue.\<close>

definition hub_room :: "hub \<Rightarrow> nat" where
  "hub_room h = c_cap (hb_in h) - length (c_buf (hb_in h))"

lemma hub_publish_cases:
  assumes "hub_ok h" and "0 \<le> hb_rateNow h" and "hb_rateNow h < 2 ^ 63 - 1"
  obtains
    (rate) "hc_rateMax (hb_config h) \<le> hb_rateNow h"
      "hub_publish rec h = (h\<lparr>hb_total := hb_total h + 1, hb_rateNow := hb_rateNow h + 1,
         hb_droppedRate := hb_droppedRate h + 1\<rparr>, False)"
  | (full) "hb_rateNow h < hc_rateMax (hb_config h)" "hub_room h = 0"
      "hub_publish rec h = (h\<lparr>hb_total := hb_total h + 1, hb_rateNow := hb_rateNow h + 1,
         hb_droppedQueue := hb_droppedQueue h + 1\<rparr>, False)"
  | (accept) "hb_rateNow h < hc_rateMax (hb_config h)" "0 < hub_room h"
      "hub_publish rec h = (h\<lparr>hb_total := hb_total h + 1, hb_rateNow := hb_rateNow h + 1,
         hb_in := (hb_in h)\<lparr>c_buf := c_buf (hb_in h) @ [rec]\<rparr>\<rparr>, True)"
proof -
  have w: "wrap64 (hb_rateNow h + 1) = hb_rateNow h + 1"
    using assms(2,3) by (intro wrap64_id) (simp add: in_int64_def)
  have pos: "0 < hc_rateMax (hb_config h)" and open_in: "\<not> c_closed (hb_in h)"
    using assms(1) by (simp_all add: hub_ok_def hub_config_ok_def)
  show thesis
  proof (cases "hc_rateMax (hb_config h) \<le> hb_rateNow h")
    case True
    then show thesis using rate pos w by (simp add: hub_publish_def Let_def)
  next
    case lim: False
    show thesis
    proof (cases "hub_room h = 0")
      case True
      then have "chan_try_send rec (hb_in h) = WouldBlock"
        using open_in by (simp add: hub_room_def chan_simps)
      then show thesis using full[OF _ True] lim pos w by (simp add: hub_publish_def Let_def)
    next
      case False
      then have "chan_try_send rec (hb_in h) =
          Sent ((hb_in h)\<lparr>c_buf := c_buf (hb_in h) @ [rec]\<rparr>)"
        using open_in by (simp add: hub_room_def chan_send_Sent)
      then show thesis using accept lim pos w False by (simp add: hub_publish_def Let_def)
    qed
  qed
qed

lemma hub_ok_publish:
  assumes "hub_ok h" and "0 \<le> hb_rateNow h" and "hb_rateNow h < 2 ^ 63 - 1"
  shows "hub_ok (fst (hub_publish rec h))"
    and "hb_rateNow (fst (hub_publish rec h)) = hb_rateNow h + 1"
    and "hb_config (fst (hub_publish rec h)) = hb_config h"
  by (rule hub_publish_cases[OF assms, of rec];
      use assms(1) in \<open>auto simp: hub_ok_def chan_ok_def hub_room_def\<close>)+

section \<open>Concurrent executions\<close>

text \<open>
  Any number of goroutines are inside \<open>Publish\<close>: those that have counted themselves in \<open>total\<close>
  (\<open>s_counted\<close>), those that have passed the rate limit (\<open>s_passed\<close>), and those about to count a
  drop. The loop goroutine is idle in its \<open>select\<close>, forwarding a record on the remaining topics,
  or gone. \<open>g_attempts\<close> and \<open>g_admitted\<close> are history variables: how many rate checks were made,
  and how many passed, since the last reset of the rate counter.
\<close>

datatype hub_loop =
    LoopIdle
  | LoopForwarding log_record_v2 "string list"
  | LoopDone

record 'w hub_sys =
  s_hub :: hub
  s_counted :: "log_record_v2 multiset"
  s_passed :: "log_record_v2 multiset"
  s_rate_drops :: nat
  s_queue_drops :: nat
  s_loop :: hub_loop
  s_world :: 'w
  g_attempts :: nat
  g_admitted :: nat

definition hub_start :: "hub \<Rightarrow> 'w \<Rightarrow> 'w hub_sys" where
  "hub_start h w = \<lparr>s_hub = h, s_counted = {#}, s_passed = {#}, s_rate_drops = 0,
     s_queue_drops = 0, s_loop = LoopIdle, s_world = w, g_attempts = 0, g_admitted = 0\<rparr>"

inductive hub_step ::
  "(log_record_v2, 'w) publisher \<Rightarrow> 'w hub_sys \<Rightarrow> 'w hub_sys \<Rightarrow> bool" for pub where
  call: "hub_step pub s (s\<lparr>s_hub := (s_hub s)\<lparr>hb_total := hb_total (s_hub s) + 1\<rparr>,
      s_counted := add_mset rec (s_counted s)\<rparr>)"
| unlimited: "s_counted s = add_mset rec C \<Longrightarrow> hc_rateMax (hb_config (s_hub s)) \<le> 0 \<Longrightarrow>
    hub_step pub s (s\<lparr>s_counted := C, s_passed := add_mset rec (s_passed s)\<rparr>)"
| admit: "s_counted s = add_mset rec C \<Longrightarrow> 0 < hc_rateMax (hb_config (s_hub s)) \<Longrightarrow>
    n = wrap64 (hb_rateNow (s_hub s) + 1) \<Longrightarrow> n \<le> hc_rateMax (hb_config (s_hub s)) \<Longrightarrow>
    hub_step pub s (s\<lparr>s_hub := (s_hub s)\<lparr>hb_rateNow := n\<rparr>, s_counted := C,
      s_passed := add_mset rec (s_passed s),
      g_attempts := Suc (g_attempts s), g_admitted := Suc (g_admitted s)\<rparr>)"
| limit: "s_counted s = add_mset rec C \<Longrightarrow> 0 < hc_rateMax (hb_config (s_hub s)) \<Longrightarrow>
    n = wrap64 (hb_rateNow (s_hub s) + 1) \<Longrightarrow> hc_rateMax (hb_config (s_hub s)) < n \<Longrightarrow>
    hub_step pub s (s\<lparr>s_hub := (s_hub s)\<lparr>hb_rateNow := n\<rparr>, s_counted := C,
      s_rate_drops := Suc (s_rate_drops s), g_attempts := Suc (g_attempts s)\<rparr>)"
| count_rate_drop: "s_rate_drops s = Suc d \<Longrightarrow>
    hub_step pub s (s\<lparr>s_hub := (s_hub s)\<lparr>hb_droppedRate := hb_droppedRate (s_hub s) + 1\<rparr>, s_rate_drops := d\<rparr>)"
| enqueue: "s_passed s = add_mset rec P \<Longrightarrow> chan_try_send rec (hb_in (s_hub s)) = Sent c \<Longrightarrow>
    hub_step pub s (s\<lparr>s_hub := (s_hub s)\<lparr>hb_in := c\<rparr>, s_passed := P\<rparr>)"
| overflow: "s_passed s = add_mset rec P \<Longrightarrow> chan_try_send rec (hb_in (s_hub s)) = WouldBlock \<Longrightarrow>
    hub_step pub s (s\<lparr>s_passed := P, s_queue_drops := Suc (s_queue_drops s)\<rparr>)"
| count_queue_drop: "s_queue_drops s = Suc d \<Longrightarrow>
    hub_step pub s (s\<lparr>s_hub := (s_hub s)\<lparr>hb_droppedQueue := hb_droppedQueue (s_hub s) + 1\<rparr>, s_queue_drops := d\<rparr>)"
| tick: "s_loop s = LoopIdle \<Longrightarrow>
    hub_step pub s (s\<lparr>s_hub := hub_tick now (s_hub s), g_attempts := 0, g_admitted := 0\<rparr>)"
| take_rec: "s_loop s = LoopIdle \<Longrightarrow> chan_try_recv (hb_in (s_hub s)) = Received rec c \<Longrightarrow>
    hub_step pub s (s\<lparr>s_hub := (s_hub s)\<lparr>hb_in := c\<rparr>,
      s_loop := LoopForwarding rec (hub_topics (hb_config (s_hub s)) rec)\<rparr>)"
| send_topic: "s_loop s = LoopForwarding rec (t # ts) \<Longrightarrow>
    hub_step pub s (s\<lparr>s_world := fst (pub False t rec (s_world s)), s_loop := LoopForwarding rec ts\<rparr>)"
| forwarded: "s_loop s = LoopForwarding rec [] \<Longrightarrow>
    hub_step pub s (s\<lparr>s_hub := (s_hub s)\<lparr>hb_forwarded := hb_forwarded (s_hub s) + 1\<rparr>, s_loop := LoopIdle\<rparr>)"
| close: "hub_close (s_hub s) = Some h \<Longrightarrow> hub_step pub s (s\<lparr>s_hub := h\<rparr>)"
| exit: "s_loop s = LoopIdle \<Longrightarrow> hb_stop_closed (s_hub s) \<Longrightarrow>
    hub_step pub s (s\<lparr>s_loop := LoopDone\<rparr>)"

inductive hub_reachable ::
  "(log_record_v2, 'w) publisher \<Rightarrow> hub_option list \<Rightarrow> 'w hub_sys \<Rightarrow> bool" for pub opts where
  start: "new_safe_log_hub opts now = Some h \<Longrightarrow> hub_reachable pub opts (hub_start h w)"
| step: "hub_reachable pub opts s \<Longrightarrow> hub_step pub s t \<Longrightarrow> hub_reachable pub opts t"

definition in_loop :: "hub_loop \<Rightarrow> nat" where
  "in_loop l = (case l of LoopForwarding _ _ \<Rightarrow> 1 | _ \<Rightarrow> 0)"

lemma in_loop_simps [simp]:
  "in_loop LoopIdle = 0" "in_loop (LoopForwarding r ts) = 1" "in_loop LoopDone = 0"
  by (simp_all add: in_loop_def)

definition in_flight :: "'w hub_sys \<Rightarrow> nat" where
  "in_flight s = size (s_counted s) + size (s_passed s) + s_rate_drops s + s_queue_drops s
     + length (c_buf (hb_in (s_hub s))) + in_loop (s_loop s)"

definition hub_balance :: "'w hub_sys \<Rightarrow> 64 word" where
  "hub_balance s = hb_forwarded (s_hub s) + hb_droppedRate (s_hub s) + hb_droppedQueue (s_hub s)
     + of_nat (in_flight s)"

lemma hub_step_balance:
  "hub_step pub s t \<Longrightarrow>
     hub_balance t - hb_total (s_hub t) = hub_balance s - hb_total (s_hub s)"
  by (induction rule: hub_step.induct)
    (auto simp: hub_balance_def in_flight_def chan_send_Sent chan_recv_Received hub_tick_def
      hub_close_def split: if_splits)

lemma hub_step_ok:
  "hub_step pub s t \<Longrightarrow> hub_ok (s_hub s) \<Longrightarrow> hub_ok (s_hub t)"
  by (induction rule: hub_step.induct)
    (auto simp: hub_ok_def chan_ok_def chan_send_Sent chan_recv_Received hub_tick_def
      hub_close_def split: if_splits)

definition hub_window_inv :: "'w hub_sys \<Rightarrow> bool" where
  "hub_window_inv s \<longleftrightarrow> (g_attempts s < 2 ^ 63 \<longrightarrow>
     hb_rateNow (s_hub s) = int (g_attempts s) \<and>
     int (g_admitted s) \<le> hc_rateMax (hb_config (s_hub s)))"

lemma wrap64_Suc: "Suc k < 2 ^ 63 \<Longrightarrow> wrap64 (int k + 1) = int k + 1"
  by (rule wrap64_id) (simp add: in_int64_def)

definition hub_admitted_inv :: "'w hub_sys \<Rightarrow> bool" where
  "hub_admitted_inv s \<longleftrightarrow> g_admitted s \<le> g_attempts s \<and> hub_window_inv s"

lemma hub_step_window:
  "hub_step pub s t \<Longrightarrow> hub_ok (s_hub s) \<Longrightarrow> hub_admitted_inv s \<Longrightarrow> hub_admitted_inv t"
proof (induction rule: hub_step.induct)
  case (admit s rec C n)
  then show ?case
    by (auto simp: hub_admitted_inv_def hub_window_inv_def wrap64_Suc)
next
  case (limit s rec C n)
  then show ?case
    by (auto simp: hub_admitted_inv_def hub_window_inv_def wrap64_Suc)
qed (auto simp: hub_admitted_inv_def hub_window_inv_def hub_tick_def hub_ok_def
    hub_config_ok_def hub_close_def split: if_splits)

lemma hub_reachable_ok: "hub_reachable pub opts s \<Longrightarrow> hub_ok (s_hub s)"
  by (induction rule: hub_reachable.induct) (auto simp: hub_start_def hub_ok_new hub_step_ok)

lemma hub_reachable_balance: "hub_reachable pub opts s \<Longrightarrow> hub_balance s = hb_total (s_hub s)"
proof (induction rule: hub_reachable.induct)
  case (start now h w)
  then show ?case
    by (auto simp: new_safe_log_hub_def hub_start_def hub_balance_def in_flight_def Let_def
        split: if_splits)
next
  case (step s t)
  then show ?case using hub_step_balance[OF step.hyps(2)] by simp
qed

lemma hub_reachable_window: "hub_reachable pub opts s \<Longrightarrow> hub_admitted_inv s"
proof (induction rule: hub_reachable.induct)
  case (start now h w)
  then have "hub_ok h" by (rule hub_ok_new)
  with start show ?case
    by (auto simp: new_safe_log_hub_def hub_start_def hub_admitted_inv_def hub_window_inv_def
        hub_ok_def hub_config_ok_def Let_def split: if_splits)
next
  case (step s t)
  then show ?case by (blast intro: hub_step_window hub_reachable_ok)
qed

section \<open>Helpers of the properties\<close>

lemma hub_step_done:
  "hub_step pub s t \<Longrightarrow> s_loop s = LoopDone \<Longrightarrow>
     s_loop t = LoopDone \<and> hb_forwarded (s_hub t) = hb_forwarded (s_hub s) \<and>
     s_world t = s_world s \<and> prefix (c_buf (hb_in (s_hub s))) (c_buf (hb_in (s_hub t)))"
  by (induction rule: hub_step.induct)
    (auto simp: chan_send_Sent hub_close_def split: if_splits)

lemma hub_steps_done:
  "rtranclp (hub_step pub) s t \<Longrightarrow> s_loop s = LoopDone \<Longrightarrow>
     s_loop t = LoopDone \<and> hb_forwarded (s_hub t) = hb_forwarded (s_hub s) \<and>
     s_world t = s_world s \<and> prefix (c_buf (hb_in (s_hub s))) (c_buf (hb_in (s_hub t)))"
proof (induction rule: rtranclp_induct)
  case (step t u)
  then show ?case
    using hub_step_done[OF step.hyps(2)] prefix_order.trans by metis
qed simp

definition sample_hub :: hub where
  "sample_hub = \<lparr>hb_config = default_hub_config, hb_rateNow = 0, hb_lastReset = 0,
     hb_in = make_chan 1024, hb_total = 0, hb_forwarded = 0, hb_droppedRate = 0,
     hb_droppedQueue = 0, hb_stop_closed = False\<rparr>"

lemma sample_hub_new: "new_safe_log_hub [] 0 = Some sample_hub"
  by (simp add: new_safe_log_hub_def sample_hub_def default_hub_config_def second_def)

lemma sample_hub_reachable: "hub_reachable pub [] (hub_start sample_hub w)"
  by (rule hub_reachable.start[OF sample_hub_new])

lemma sample_hub_ok: "hub_ok sample_hub"
  by (rule hub_ok_new[OF sample_hub_new])

text \<open>Publishing alone, as a run of the atomic steps.\<close>

lemma hub_step_eq: "hub_step pub a b \<Longrightarrow> b = c \<Longrightarrow> hub_step pub a c"
  by simp

lemma hub_run_eq: "rtranclp (hub_step pub) a b \<Longrightarrow> b = c \<Longrightarrow> rtranclp (hub_step pub) a c"
  by simp

abbreviation counted_state :: "'w hub_sys \<Rightarrow> log_record_v2 \<Rightarrow> 'w hub_sys" where
  "counted_state s rec \<equiv> s\<lparr>s_hub := (s_hub s)\<lparr>hb_total := hb_total (s_hub s) + 1\<rparr>,
     s_counted := add_mset rec (s_counted s)\<rparr>"

abbreviation rate_checked :: "'w hub_sys \<Rightarrow> 'w hub_sys" where
  "rate_checked s \<equiv> s\<lparr>s_hub := (s_hub s)\<lparr>hb_total := hb_total (s_hub s) + 1,
       hb_rateNow := wrap64 (hb_rateNow (s_hub s) + 1)\<rparr>,
     g_attempts := Suc (g_attempts s)\<rparr>"

abbreviation admitted_state :: "'w hub_sys \<Rightarrow> log_record_v2 \<Rightarrow> 'w hub_sys" where
  "admitted_state s rec \<equiv> (rate_checked s)\<lparr>s_passed := add_mset rec (s_passed s),
     g_admitted := Suc (g_admitted s)\<rparr>"

lemma counted_step: "hub_step pub s (counted_state s rec)"
  by (rule hub_step.call)

lemma limit_run:
  assumes "0 < hc_rateMax (hb_config (s_hub s))"
    and "hc_rateMax (hb_config (s_hub s)) < wrap64 (hb_rateNow (s_hub s) + 1)"
  shows "rtranclp (hub_step pub) s ((rate_checked s)\<lparr>s_hub := (s_hub (rate_checked s))
    \<lparr>hb_droppedRate := hb_droppedRate (s_hub s) + 1\<rparr>\<rparr>)"
proof -
  let ?s2 = "(rate_checked s)\<lparr>s_rate_drops := Suc (s_rate_drops s)\<rparr>"
  have c2: "hub_step pub (counted_state s rec) ?s2" for rec
    by (rule hub_step_eq[OF hub_step.limit[of "counted_state s rec" rec "s_counted s"]])
      (use assms in \<open>auto intro: hub_sys.equality\<close>)
  have c3: "hub_step pub ?s2 ((rate_checked s)\<lparr>s_hub := (s_hub (rate_checked s))
      \<lparr>hb_droppedRate := hb_droppedRate (s_hub s) + 1\<rparr>\<rparr>)"
    by (rule hub_step_eq[OF hub_step.count_rate_drop[of ?s2 "s_rate_drops s"]]) (auto intro: hub_sys.equality)
  show ?thesis by (rule run3[where r = "hub_step pub", OF counted_step c2 c3])
qed

lemma admit_step:
  assumes "0 < hc_rateMax (hb_config (s_hub s))"
    and "wrap64 (hb_rateNow (s_hub s) + 1) \<le> hc_rateMax (hb_config (s_hub s))"
  shows "hub_step pub (counted_state s rec) (admitted_state s rec)"
  by (rule hub_step_eq[OF hub_step.admit[of "counted_state s rec" rec "s_counted s"]])
    (use assms in \<open>auto intro: hub_sys.equality\<close>)

lemma sent_step:
  assumes "chan_try_send rec (hb_in (s_hub s)) = Sent c"
  shows "hub_step pub (admitted_state s rec) ((rate_checked s)\<lparr>s_hub := (s_hub (rate_checked s))
    \<lparr>hb_in := c\<rparr>, g_admitted := Suc (g_admitted s)\<rparr>)"
  by (rule hub_step_eq[OF hub_step.enqueue[of "admitted_state s rec" rec "s_passed s" c]])
    (use assms in \<open>auto intro: hub_sys.equality\<close>)

lemma full_run:
  assumes "0 < hc_rateMax (hb_config (s_hub s))"
    and "wrap64 (hb_rateNow (s_hub s) + 1) \<le> hc_rateMax (hb_config (s_hub s))"
    and "chan_try_send rec (hb_in (s_hub s)) = WouldBlock"
  shows "rtranclp (hub_step pub) s ((rate_checked s)\<lparr>s_hub := (s_hub (rate_checked s))
    \<lparr>hb_droppedQueue := hb_droppedQueue (s_hub s) + 1\<rparr>, g_admitted := Suc (g_admitted s)\<rparr>)"
proof -
  let ?s3 = "(rate_checked s)\<lparr>g_admitted := Suc (g_admitted s),
    s_queue_drops := Suc (s_queue_drops s)\<rparr>"
  have c3: "hub_step pub (admitted_state s rec) ?s3"
    by (rule hub_step_eq[OF hub_step.overflow[of "admitted_state s rec" rec "s_passed s"]])
      (use assms(3) in \<open>auto intro: hub_sys.equality\<close>)
  have c4: "hub_step pub ?s3 ((rate_checked s)\<lparr>s_hub := (s_hub (rate_checked s))
      \<lparr>hb_droppedQueue := hb_droppedQueue (s_hub s) + 1\<rparr>, g_admitted := Suc (g_admitted s)\<rparr>)"
    by (rule hub_step_eq[OF hub_step.count_queue_drop[of ?s3 "s_queue_drops s"]]) (auto intro: hub_sys.equality)
  show ?thesis by (rule run4[where r = "hub_step pub", OF counted_step admit_step[OF assms(1,2)] c3 c4])
qed

lemma hub_publish_steps:
  assumes "hub_ok (s_hub s)"
  shows "\<exists>a d. rtranclp (hub_step pub) s
    (s\<lparr>s_hub := fst (hub_publish rec (s_hub s)), g_attempts := a, g_admitted := d\<rparr>)"
proof -
  have pos: "0 < hc_rateMax (hb_config (s_hub s))" and op: "\<not> c_closed (hb_in (s_hub s))"
    using assms by (simp_all add: hub_ok_def hub_config_ok_def)
  consider (lim) "hc_rateMax (hb_config (s_hub s)) < wrap64 (hb_rateNow (s_hub s) + 1)"
    | (ok) "wrap64 (hb_rateNow (s_hub s) + 1) \<le> hc_rateMax (hb_config (s_hub s))"
    by linarith
  then show ?thesis
  proof cases
    case lim
    show ?thesis
      by (rule exI[of _ "Suc (g_attempts s)"], rule exI[of _ "g_admitted s"],
          rule hub_run_eq[OF limit_run[OF pos lim]])
        (use lim pos in \<open>auto simp: hub_publish_def Let_def intro: hub_sys.equality\<close>)
  next
    case ok
    show ?thesis
    proof (rule exI[of _ "Suc (g_attempts s)"], rule exI[of _ "Suc (g_admitted s)"],
        cases "chan_try_send rec (hb_in (s_hub s))")
      case (Sent c)
      show "rtranclp (hub_step pub) s (s\<lparr>s_hub := fst (hub_publish rec (s_hub s)),
          g_attempts := Suc (g_attempts s), g_admitted := Suc (g_admitted s)\<rparr>)"
        by (rule hub_run_eq[OF run3[where r = "hub_step pub", OF counted_step admit_step[OF pos ok] sent_step[OF Sent]]])
          (use ok pos Sent in \<open>auto simp: hub_publish_def Let_def intro: hub_sys.equality\<close>)
    next
      case WouldBlock
      show "rtranclp (hub_step pub) s (s\<lparr>s_hub := fst (hub_publish rec (s_hub s)),
          g_attempts := Suc (g_attempts s), g_admitted := Suc (g_admitted s)\<rparr>)"
        by (rule hub_run_eq[OF full_run[OF pos ok WouldBlock]])
          (use ok pos WouldBlock in \<open>auto simp: hub_publish_def Let_def intro: hub_sys.equality\<close>)
    qed (use op in \<open>simp add: chan_simps\<close>)
  qed
qed

lemma hub_publish_list_count:
  assumes "hub_ok h" and "0 \<le> hb_rateNow h" and "hb_rateNow h + int (length rs) < 2 ^ 63"
  shows "count_list (snd (hub_publish_list rs h)) True =
    min (length rs) (min (nat (hc_rateMax (hb_config h) - hb_rateNow h)) (hub_room h))"
  using assms
proof (induction rs arbitrary: h)
  case Nil
  then show ?case by simp
next
  case (Cons r rs)
  let ?h = "fst (hub_publish r h)"
  have lt: "hb_rateNow h < 2 ^ 63 - 1" using Cons.prems(3) by simp
  note pub = hub_ok_publish[OF Cons.prems(1,2) lt]
  have IH: "count_list (snd (hub_publish_list rs ?h)) True =
      min (length rs) (min (nat (hc_rateMax (hb_config ?h) - hb_rateNow ?h)) (hub_room ?h))"
    using Cons.prems by (intro Cons.IH pub(1)) (simp_all add: pub(2))
  show ?case
    by (rule hub_publish_cases[OF Cons.prems(1,2) lt, of r])
      (use IH in \<open>auto simp: hub_room_def Let_def split_beta min_def split: if_splits\<close>)
qed

section \<open>Properties of the hub\<close>

text \<open>
  C28: Under every interleaving of concurrent publishers, ticks, the forwarding loop and Close, no
  record is lost track of: the total equals forwarded plus rate drops plus queue drops plus
  the records still in flight (modulo the 64-bit counters), the queue never exceeds its
  buffer and the configuration stays valid.
\<close>
theorem hub_accounting:
  assumes "hub_reachable pub opts s"
  shows "hb_total (s_hub s) = hb_forwarded (s_hub s) + hb_droppedRate (s_hub s)
      + hb_droppedQueue (s_hub s) + of_nat (in_flight s) \<and>
    int (length (c_buf (hb_in (s_hub s)))) \<le> hc_buf (hb_config (s_hub s)) \<and>
    hub_config_ok (hb_config (s_hub s))"
  using hub_reachable_balance[OF assms] hub_reachable_ok[OF assms]
  by (auto simp: hub_balance_def hub_ok_def chan_ok_def hub_config_ok_def)

theorem hub_accounting_witness:
  "hb_total (fst (hub_publish zero_record sample_hub)) =
     of_nat (length (c_buf (hb_in (fst (hub_publish zero_record sample_hub)))))"
proof -
  let ?s = "hub_start sample_hub (0 :: nat)"
  obtain a d where run: "rtranclp (hub_step (\<lambda>c t m w. (w, None))) ?s
      (?s\<lparr>s_hub := fst (hub_publish zero_record sample_hub), g_attempts := a, g_admitted := d\<rparr>)"
    (is "rtranclp _ _ ?t")
    using hub_publish_steps[of ?s "\<lambda>c t m w. (w, None)" zero_record] sample_hub_ok
    by (auto simp: hub_start_def)
  have "hub_reachable (\<lambda>c t m w. (w, None)) [] ?t"
    using run by (induction rule: rtranclp_induct)
      (auto intro: hub_reachable.intros(2) sample_hub_reachable)
  from hub_accounting[OF this] show ?thesis
    by (simp add: in_flight_def hub_start_def sample_hub_def hub_publish_def wrap64_def Let_def
        default_hub_config_def chan_try_send_def)
qed



text \<open>
  A burst published with no tick and no forwarding in between: Publish accepts exactly the
  first so many records as the rate limit still admits and the queue still has room for.
\<close>
theorem hub_burst:
  assumes "new_safe_log_hub opts now = Some h" and "int (length rs) < 2 ^ 63"
  shows "count_list (snd (hub_publish_list rs h)) True =
    min (length rs) (min (nat (hc_rateMax (hb_config h))) (nat (hc_buf (hb_config h))))"
proof -
  have "hub_ok h" by (rule hub_ok_new[OF assms(1)])
  moreover have "hb_rateNow h = 0" "c_buf (hb_in h) = []"
    using assms(1) by (auto simp: new_safe_log_hub_def Let_def split: if_splits)
  ultimately show ?thesis
    using hub_publish_list_count[of h rs] assms(2) by (simp add: hub_room_def hub_ok_def)
qed

theorem hub_burst_witness:
  "count_list (snd (hub_publish_list (replicate 3 zero_record)
     (the (new_safe_log_hub [WithBuffer 2] 0)))) True = 2"
  using hub_burst[of "[WithBuffer 2]" 0 _ "replicate 3 zero_record"]
  by (simp add: new_safe_log_hub_def default_hub_config_def second_def)





end
