(* ===== verification/Bus_Threads.thy ===== *)
theory Bus_Threads
  imports Event_Bus "HOL-Library.Multiset"
begin

text \<open>
  The event bus under concurrency (\<open>cmd/rk/event_bus_gen.go\<close>): \<open>Publish\<close> copies the subscribers
  under the lock, releases it and sends to the copies, so subscriptions, cancellations, receives and
  the sends of other publishers happen in between. What holds without any discipline (the bus stays
  well formed, delivery is at most once), what needs one (no panic), and the run that breaks it.
\<close>

section \<open>The interleaved system\<close>

text \<open>
  Publishers that have released the lock hold a message and the pointers still to visit. Two
  histories: what was published, with its topic, and what the holder of a subscription received.
\<close>

record 'm bus_sys =
  y_bus :: "'m bus"
  y_pubs :: "('m \<times> nat list) multiset"
  y_panicked :: bool
  y_published :: "(string \<times> 'm) list"
  y_received :: "nat \<Rightarrow> 'm list"

text \<open>
  The guard \<open>g\<close> says which subscriptions may be cancelled in a state; the source has no guard. The
  subscriptions in \<open>own\<close> belong to a client whose steps are described elsewhere: nobody else cancels
  them or receives from them, because the channel and the cancel function are given to it alone.
\<close>

inductive bus_step :: "('m bus_sys \<Rightarrow> nat \<Rightarrow> bool) \<Rightarrow> nat set \<Rightarrow> 'm bus_sys \<Rightarrow> 'm bus_sys \<Rightarrow> bool"
  for g own where
  subscribe: "\<not> y_panicked s \<Longrightarrow>
    bus_step g own s (s\<lparr>y_bus := fst (bus_subscribe t (y_bus s))\<rparr>)"
| cancel: "\<not> y_panicked s \<Longrightarrow> g s i \<Longrightarrow> i \<notin> own \<Longrightarrow>
    bus_step g own s (s\<lparr>y_bus := bus_cancel t i (y_bus s)\<rparr>)"
| receive: "\<not> y_panicked s \<Longrightarrow> i \<notin> own \<Longrightarrow> bus_recv i (y_bus s) = Some (m, b) \<Longrightarrow>
    bus_step g own s (s\<lparr>y_bus := b, y_received := (y_received s)(i := y_received s i @ [m])\<rparr>)"
| snapshot: "\<not> y_panicked s \<Longrightarrow> go_range (topic_subs (y_bus s) t) ord \<Longrightarrow>
    bus_step g own s (s\<lparr>y_pubs := add_mset (m, map snd ord) (y_pubs s),
      y_published := y_published s @ [(t, m)]\<rparr>)"
| deliver: "\<not> y_panicked s \<Longrightarrow> y_pubs s = add_mset (m, p # ps) P \<Longrightarrow>
    bus_deliver m p (y_bus s) = Delivered b \<Longrightarrow>
    bus_step g own s (s\<lparr>y_bus := b, y_pubs := add_mset (m, ps) P\<rparr>)"
| skip_full: "\<not> y_panicked s \<Longrightarrow> y_pubs s = add_mset (m, p # ps) P \<Longrightarrow>
    bus_deliver m p (y_bus s) = Dropped \<Longrightarrow>
    bus_step g own s (s\<lparr>y_pubs := add_mset (m, ps) P\<rparr>)"
| deliver_panic: "\<not> y_panicked s \<Longrightarrow> y_pubs s = add_mset (m, p # ps) P \<Longrightarrow>
    bus_deliver m p (y_bus s) = DeliveryPanic \<Longrightarrow>
    bus_step g own s (s\<lparr>y_panicked := True\<rparr>)"
| return_publish: "\<not> y_panicked s \<Longrightarrow> y_pubs s = add_mset (m, ps) P \<Longrightarrow>
    bus_step g own s (s\<lparr>y_pubs := P\<rparr>)" \<comment> \<open>all delivered, or the context was cancelled\<close>

definition bus_start :: "'m bus_sys" where
  "bus_start = \<lparr>y_bus = new_bus, y_pubs = {#}, y_panicked = False, y_published = [],
     y_received = (\<lambda>_. [])\<rparr>"

inductive bus_reachable :: "('m bus_sys \<Rightarrow> nat \<Rightarrow> bool) \<Rightarrow> 'm bus_sys \<Rightarrow> bool" for g where
  start: "bus_reachable g bus_start"
| step: "bus_reachable g s \<Longrightarrow> bus_step g {} s t \<Longrightarrow> bus_reachable g t"

text \<open>The discipline that makes the bus safe: never close a channel a publisher still holds.\<close>

definition not_held :: "'m bus_sys \<Rightarrow> nat \<Rightarrow> bool" where
  "not_held s i \<longleftrightarrow> (\<forall>e \<in># y_pubs s. i \<notin> set (snd e))"

section \<open>Without a discipline: at most once\<close>

text \<open>What publishers still hold for a subscription, and what was published on a topic.\<close>

definition pending :: "nat \<Rightarrow> ('m \<times> nat list) multiset \<Rightarrow> 'm multiset" where
  "pending i P = image_mset fst (filter_mset (\<lambda>e. i \<in> set (snd e)) P)"

definition on_topic :: "string \<Rightarrow> (string \<times> 'm) list \<Rightarrow> 'm list" where
  "on_topic t h = map snd (filter (\<lambda>e. fst e = t) h)"

lemma pending_add [simp]:
  "pending i {#} = {#}"
  "pending i (add_mset (m, ps) P) = (if i \<in> set ps then add_mset m (pending i P) else pending i P)"
  by (simp_all add: pending_def)

lemma pending_none: "(\<And>e. e \<in># P \<Longrightarrow> i \<notin> set (snd e)) \<Longrightarrow> pending i P = {#}"
  by (induction P) (auto simp: pending_def)

lemma on_topic_simps [simp]:
  "on_topic t [] = []"
  "on_topic t (h @ [(u, m)]) = (if u = t then on_topic t h @ [m] else on_topic t h)"
  by (simp_all add: on_topic_def)

text \<open>The account of one subscription, which listened to topic \<open>t\<close> for as long as it was registered.\<close>

definition account_ok :: "'m bus_sys \<Rightarrow> nat \<Rightarrow> string \<Rightarrow> bool" where
  "account_ok s i t \<longleftrightarrow> (\<forall>u. i \<in> subscribed (y_bus s) u \<longrightarrow> u = t) \<and>
     mset (y_received s i) + mset (bus_queue (y_bus s) i) + pending i (y_pubs s)
       \<subseteq># mset (on_topic t (y_published s))"

text \<open>What publishers hold: distinct subscriptions that exist or have existed.\<close>

definition pubs_ok :: "nat \<Rightarrow> ('m \<times> nat list) multiset \<Rightarrow> bool" where
  "pubs_ok n P \<longleftrightarrow> (\<forall>e \<in># P. distinct (snd e) \<and> (\<forall>p \<in> set (snd e). p < n))"

definition bus_trace_ok :: "'m bus_sys \<Rightarrow> bool" where
  "bus_trace_ok s \<longleftrightarrow> bus_ok (y_bus s) \<and> pubs_ok (bus_next (y_bus s)) (y_pubs s) \<and>
     (\<forall>i \<ge> bus_next (y_bus s). y_received s i = []) \<and>
     (\<forall>i < bus_next (y_bus s). \<exists>t. account_ok s i t)"

lemma subscribed_get: "i \<in> subscribed b t \<longleftrightarrow> (\<exists>p. go_get (topic_subs b t) i = Some p)"
  by (auto simp: subscribed_def go_keys_get)

lemma subscribed_less: "bus_ok b \<Longrightarrow> i \<in> subscribed b t \<Longrightarrow> i < bus_next b"
  using topic_subs_get(2) by (fastforce simp: subscribed_get)

lemma subscribed_subscribe:
  "subscribed (fst (bus_subscribe t b)) u =
     (if u = t then insert (bus_next b) (subscribed b t) else subscribed b u)"
  by (auto simp: subscribed_def topic_subs_subscribe)

lemma subscribed_cancel_subset: "bus_ok b \<Longrightarrow> subscribed (bus_cancel t i b) u \<subseteq> subscribed b u"
  by (rule bus_cancel_cases[of b t i]) (auto simp: subscribed_get split: if_splits)

lemma bus_queue_fresh: "bus_ok b \<Longrightarrow> bus_next b \<le> i \<Longrightarrow> bus_queue b i = []"
  by (cases "bus_heap b i") (fastforce simp: bus_queue_def bus_ok_def heap_ok_def)+

lemma bus_queue_bound: "bus_ok b \<Longrightarrow> length (bus_queue b i) \<le> 16"
  by (cases "bus_heap b i") (fastforce simp: bus_queue_def bus_ok_def heap_ok_def chan_ok_def)+

lemma bus_queue_subscribe: "bus_ok b \<Longrightarrow> bus_queue (fst (bus_subscribe t b)) i = bus_queue b i"
  using bus_queue_fresh[of b i] by (auto simp: bus_queue_def bus_subscribe_def Let_def)

lemma bus_queue_cancel: "bus_ok b \<Longrightarrow> bus_queue (bus_cancel t j b) i = bus_queue b i"
  by (rule bus_cancel_cases[of b t j]) (auto simp: bus_queue_def)

lemma bus_recv_queue:
  assumes "bus_recv j b = Some (m, b')"
  shows "bus_queue b j = m # bus_queue b' j" and "i \<noteq> j \<Longrightarrow> bus_queue b' i = bus_queue b i"
    and "bus_next b' = bus_next b" and "subscribed b' u = subscribed b u"
  using assms
  by (auto simp: bus_recv_def bus_queue_def subscribed_def topic_subs_def chan_recv_Received
      split: option.splits recv_result.splits)

lemma bus_delivered:
  assumes "bus_deliver m p b = Delivered b'" and "bus_ok b"
  shows "bus_ok b'" and "bus_queue b' i = (if i = p then bus_queue b i @ [m] else bus_queue b i)"
    and "bus_next b' = bus_next b" and "subscribed b' u = subscribed b u"
proof -
  obtain s c where sc: "bus_heap b p = Some s" "chan_try_send m (sub_ch s) = Sent c"
      "b' = b\<lparr>bus_heap := (bus_heap b)(p := Some (s\<lparr>sub_ch := c\<rparr>))\<rparr>"
    using assms(1) by (auto simp: bus_deliver_def split: option.splits send_result.splits)
  then have "bus_open b p"
    using assms(2) by (auto simp: bus_open_def bus_ok_def heap_ok_def chan_send_Sent)
  then have "b' = bus_offer m {p} b"
    using bus_deliver_open[OF assms(2), of p m] assms(1) by auto
  then show "bus_ok b'" using bus_ok_offer[OF assms(2)] by simp
  show "bus_queue b' i = (if i = p then bus_queue b i @ [m] else bus_queue b i)"
      "bus_next b' = bus_next b" "subscribed b' u = subscribed b u"
    using sc by (auto simp: bus_queue_def chan_send_Sent subscribed_def topic_subs_def)
qed

lemma account_mono:
  assumes "account_ok s i t" and "\<And>u. i \<in> subscribed (y_bus s') u \<Longrightarrow> i \<in> subscribed (y_bus s) u"
    and "mset (y_received s' i) + mset (bus_queue (y_bus s') i) + pending i (y_pubs s') \<subseteq>#
      mset (y_received s i) + mset (bus_queue (y_bus s) i) + pending i (y_pubs s)"
    and "y_published s' = y_published s"
  shows "account_ok s' i t"
  using assms by (auto simp: account_ok_def intro: subset_mset.order_trans)

text \<open>Every step keeps the account of a subscription that exists.\<close>

lemma account_snapshot:
  assumes "account_ok s i u" and held: "snd ` set ord = subscribed (y_bus s) t"
  shows "account_ok (s\<lparr>y_pubs := add_mset (m, map snd ord) (y_pubs s),
    y_published := y_published s @ [(t, m)]\<rparr>) i u" (is "account_ok ?s i u")
proof -
  from assms(1) have uniq: "\<forall>v. i \<in> subscribed (y_bus s) v \<longrightarrow> v = u"
    and le: "mset (y_received s i) + mset (bus_queue (y_bus s) i) + pending i (y_pubs s)
      \<subseteq># mset (on_topic u (y_published s))"
    unfolding account_ok_def by (rule conjunct1, rule conjunct2)
  have "mset (y_received s i) + mset (bus_queue (y_bus s) i) + pending i (y_pubs ?s)
      \<subseteq># mset (on_topic u (y_published ?s))"
  proof (cases "i \<in> subscribed (y_bus s) t")
    case True
    with uniq have "t = u" by blast
    with True le show ?thesis by (simp add: held add.assoc)
  next
    case False
    then have p: "pending i (y_pubs ?s) = pending i (y_pubs s)" by (simp add: held)
    have "mset (on_topic u (y_published s)) \<subseteq># mset (on_topic u (y_published ?s))" by simp
    with le show ?thesis unfolding p by (rule subset_mset.order_trans)
  qed
  moreover have "y_bus ?s = y_bus s" and "y_received ?s = y_received s" by simp_all
  ultimately show "account_ok ?s i u" unfolding account_ok_def using uniq by simp
qed

lemma account_step:
  "bus_step g own s s' \<Longrightarrow> bus_trace_ok s \<Longrightarrow> i < bus_next (y_bus s) \<Longrightarrow> account_ok s i u \<Longrightarrow>
    account_ok s' i u"
proof (induction rule: bus_step.induct)
  case (subscribe s t)
  then have "bus_ok (y_bus s)" by (simp add: bus_trace_ok_def)
  with subscribe show ?case
    by (elim account_mono) (auto simp: subscribed_subscribe bus_queue_subscribe split: if_splits)
next
  case (cancel s j t)
  then have "bus_ok (y_bus s)" by (simp add: bus_trace_ok_def)
  with cancel subscribed_cancel_subset[OF this] show ?case
    by (elim account_mono) (auto simp: bus_queue_cancel)
next
  case (receive s j m b)
  then show ?case
    using bus_recv_queue[OF receive.hyps(3)] by (elim account_mono) (cases "j = i"; auto)+
next
  case (snapshot s t ord m)
  then have ok: "bus_ok (y_bus s)" by (simp add: bus_trace_ok_def)
  from snapshot.prems(3) show ?case
    by (rule account_snapshot) (use topic_subs_values(2)[OF ok snapshot.hyps(2)] in simp)
next
  case (deliver s m p ps P b)
  then have ok: "bus_ok (y_bus s)" and d: "p \<notin> set ps" by (auto simp: bus_trace_ok_def pubs_ok_def)
  from deliver.prems(3) show ?case
    using bus_delivered[OF deliver.hyps(3) ok] d deliver.hyps(2) by (elim account_mono) auto
next
  case (skip_full s m p ps P)
  then show ?case by (elim account_mono) auto
next
  case (deliver_panic s m p ps P)
  then show ?case by (elim account_mono) auto
next
  case (return_publish s m ps P)
  then show ?case by (elim account_mono) auto
qed

text \<open>Ids that are not used yet have an empty account on any topic; a new one starts on its own.\<close>

lemma account_absent:
  assumes "bus_trace_ok s" and "bus_next (y_bus s) \<le> i"
  shows "account_ok s i t"
proof -
  have ok: "bus_ok (y_bus s)" and "y_received s i = []" and "pending i (y_pubs s) = {#}"
    using assms by (fastforce simp: bus_trace_ok_def pubs_ok_def intro!: pending_none)+
  moreover have "i \<notin> subscribed (y_bus s) u" for u using subscribed_less[OF ok] assms(2) by force
  ultimately show ?thesis
    using bus_queue_fresh[OF ok assms(2)] by (simp add: account_ok_def)
qed

lemma account_fresh:
  assumes "bus_trace_ok s"
  shows "account_ok (s\<lparr>y_bus := fst (bus_subscribe t (y_bus s))\<rparr>) (bus_next (y_bus s)) t"
proof -
  have ok: "bus_ok (y_bus s)" using assms by (simp add: bus_trace_ok_def)
  have "bus_next (y_bus s) \<notin> subscribed (y_bus s) u" for u
    using subscribed_less[OF ok] by blast
  with account_absent[OF assms order.refl, of t] show ?thesis
    by (auto simp: account_ok_def subscribed_subscribe bus_queue_subscribe[OF ok] split: if_splits)
qed

lemma bus_step_next: "bus_step g own s s' \<Longrightarrow> bus_ok (y_bus s) \<Longrightarrow>
    bus_next (y_bus s') = bus_next (y_bus s) \<or>
    (\<exists>t. s' = s\<lparr>y_bus := fst (bus_subscribe t (y_bus s))\<rparr> \<and> bus_next (y_bus s') = Suc (bus_next (y_bus s)))"
proof (induction rule: bus_step.induct)
  case (subscribe s t)
  show ?case by (intro disjI2 exI[of _ t]) (simp add: bus_subscribe_def Let_def)
next
  case (deliver s m p ps P b)
  then show ?case using bus_delivered(3)[OF deliver.hyps(3)] by simp
qed (auto simp: bus_cancel_subs(3) bus_recv_queue(3))

lemma bus_step_bus_ok: "bus_step g own s s' \<Longrightarrow> bus_ok (y_bus s) \<Longrightarrow> bus_ok (y_bus s')"
  by (induction rule: bus_step.induct)
    (auto simp: bus_ok_subscribe bus_ok_cancel dest: bus_recv_ok(1) bus_delivered(1))

lemma bus_step_pubs: "bus_step g own s s' \<Longrightarrow> bus_ok (y_bus s) \<Longrightarrow> pubs_ok n (y_pubs s) \<Longrightarrow>
    bus_next (y_bus s) \<le> n \<Longrightarrow> pubs_ok n (y_pubs s')"
proof (induction rule: bus_step.induct)
  case (snapshot s t ord m)
  note v = topic_subs_values(1,2)[OF snapshot.prems(1) snapshot.hyps(2)]
  show ?case
    using snapshot.prems v subscribed_less[OF snapshot.prems(1), of _ t]
    by (fastforce simp: pubs_ok_def)
qed (auto simp: pubs_ok_def)

lemma bus_step_received: "bus_step g own s s' \<Longrightarrow> bus_ok (y_bus s) \<Longrightarrow> bus_next (y_bus s) \<le> i \<Longrightarrow>
    y_received s' i = y_received s i"
proof (induction rule: bus_step.induct)
  case (receive s j m b)
  then have "j \<noteq> i"
    using bus_queue_fresh[OF receive.prems] bus_recv_queue(1)[OF receive.hyps(3)] by auto
  then show ?case by simp
qed simp_all

lemma bus_trace_step:
  assumes "bus_step g own s s'" and "bus_trace_ok s"
  shows "bus_trace_ok s'"
proof -
  have ok: "bus_ok (y_bus s)" using assms(2) by (simp add: bus_trace_ok_def)
  note nx = bus_step_next[OF assms(1) ok]
  have le: "bus_next (y_bus s) \<le> bus_next (y_bus s')" using nx by auto
  have acc: "\<exists>t. account_ok s' i t" if "i < bus_next (y_bus s')" for i
  proof (cases "i < bus_next (y_bus s)")
    case True
    moreover from this obtain t where "account_ok s i t"
      using assms(2) unfolding bus_trace_ok_def by blast
    ultimately show ?thesis using account_step[OF assms] by blast
  next
    case False
    with nx that show ?thesis using account_fresh[OF assms(2)] by (metis less_antisym)
  qed
  have ok': "bus_ok (y_bus s')" by (rule bus_step_bus_ok[OF assms(1) ok])
  have pubs: "pubs_ok (bus_next (y_bus s')) (y_pubs s')"
    using assms(2) le
    by (intro bus_step_pubs[OF assms(1) ok]) (fastforce simp: bus_trace_ok_def pubs_ok_def)+
  have rec: "y_received s' i = []" if "bus_next (y_bus s') \<le> i" for i
    using bus_step_received[OF assms(1) ok, of i] that le assms(2) by (simp add: bus_trace_ok_def)
  show ?thesis
    unfolding bus_trace_ok_def using ok' pubs rec acc by simp
qed

lemma bus_trace_start: "bus_trace_ok (bus_start :: 'm bus_sys)"
proof -
  have "account_ok (bus_start :: 'm bus_sys) i t" for i :: nat and t
    by (simp add: account_ok_def bus_start_def subscribed_def topic_subs_def new_bus_def bus_queue_def)
  then show ?thesis by (auto simp: bus_trace_ok_def bus_start_def bus_ok_new pubs_ok_def)
qed

lemma bus_trace_reachable: "bus_reachable g s \<Longrightarrow> bus_trace_ok s"
  by (induction rule: bus_reachable.induct) (simp_all add: bus_trace_start bus_trace_step)

section \<open>With the discipline: no panic\<close>

definition bus_sys_ok :: "'m bus_sys \<Rightarrow> bool" where
  "bus_sys_ok s \<longleftrightarrow> bus_ok (y_bus s) \<and>
     (\<forall>e \<in># y_pubs s. \<forall>p \<in> set (snd e). bus_open (y_bus s) p) \<and> \<not> y_panicked s"

lemma bus_step_ok: "bus_step not_held own s s' \<Longrightarrow> bus_sys_ok s \<Longrightarrow> bus_sys_ok s'"
proof (induction rule: bus_step.induct)
  case (subscribe s t)
  then show ?case by (auto simp: bus_sys_ok_def bus_ok_subscribe bus_subscribe_open)
next
  case (cancel s i t)
  then show ?case
    by (auto simp: bus_sys_ok_def not_held_def bus_ok_cancel intro!: bus_cancel_open)
next
  case (receive s i m b)
  then show ?case by (auto simp: bus_sys_ok_def bus_recv_ok)
next
  case (snapshot s t ord m)
  then show ?case using topic_subs_values(3)[of "y_bus s" t ord] by (auto simp: bus_sys_ok_def)
next
  case (deliver s m p ps P b)
  then have "bus_ok (y_bus s)" "bus_open (y_bus s) p" by (auto simp: bus_sys_ok_def)
  then have "b = bus_offer m {p} (y_bus s)" using bus_deliver_open[of "y_bus s" p m] deliver.hyps(3) by auto
  with deliver show ?case by (auto simp: bus_sys_ok_def bus_ok_offer)
next
  case (deliver_panic s m p ps P)
  then show ?case using bus_deliver_open[of "y_bus s" p m] by (auto simp: bus_sys_ok_def)
qed (auto simp: bus_sys_ok_def)

lemma bus_reachable_ok: "bus_reachable not_held s \<Longrightarrow> bus_sys_ok s"
proof (induction rule: bus_reachable.induct)
  case start
  show ?case by (simp add: bus_sys_ok_def bus_start_def bus_ok_new)
qed (rule bus_step_ok)

section \<open>Properties of the bus under concurrency\<close>

text \<open>A first run: one subscriber, and a publisher that holds it.\<close>

definition sample_held :: "nat bus_sys" where
  "sample_held = bus_start\<lparr>y_bus := fst (bus_subscribe ''t'' new_bus), y_pubs := {#(7, [0])#},
     y_published := [(''t'', 7)]\<rparr>"

lemma sample_held_reachable: "bus_reachable g sample_held"
proof -
  have "bus_reachable g (bus_start\<lparr>y_bus := fst (bus_subscribe ''t'' new_bus)\<rparr>)"
    using bus_reachable.step[OF bus_reachable.start bus_step.subscribe[of bus_start g "{}" "''t''"]]
    by (simp add: bus_start_def)
  from bus_reachable.step[OF this bus_step.snapshot[of _ "''t''" "[(0, 0)]" g "{}" 7]]
  show ?thesis
    by (simp add: sample_held_def bus_start_def topic_subs_def bus_subscribe_def new_bus_def go_put_def
        go_get_def go_range_def)
qed

text \<open>
  C7: At most once, with no discipline at all: in every reachable state each subscription belongs to one
  topic, and what its holder received, what waits in its queue (16 messages at most) and what
  publishers still hold for it are together no more than what was published on that topic, copies
  counted. The bus stays well formed, even in the state in which a publisher has panicked.
\<close>
theorem bus_at_most_once:
  assumes "bus_reachable g s"
  shows "bus_ok (y_bus s) \<and> (\<forall>i. length (bus_queue (y_bus s) i) \<le> 16 \<and>
    (\<exists>t. (\<forall>u. i \<in> subscribed (y_bus s) u \<longrightarrow> u = t) \<and>
       mset (y_received s i) + mset (bus_queue (y_bus s) i) + pending i (y_pubs s)
         \<subseteq># mset (on_topic t (y_published s))))"
proof -
  have ok: "bus_trace_ok s" by (rule bus_trace_reachable[OF assms])
  then have "length (bus_queue (y_bus s) i) \<le> 16" for i
    by (intro bus_queue_bound) (simp add: bus_trace_ok_def)
  moreover have "\<exists>t. account_ok s i t" for i
    using ok account_absent[OF ok, of i] unfolding bus_trace_ok_def by (meson not_le)
  moreover have "bus_ok (y_bus s)" using ok by (simp add: bus_trace_ok_def)
  ultimately show ?thesis unfolding account_ok_def by blast
qed

theorem bus_at_most_once_witness:
  "\<exists>s :: nat bus_sys. bus_reachable (\<lambda>_ _. True) s \<and> y_received s 0 = [7] \<and>
     bus_queue (y_bus s) 0 = [] \<and> bus_ok (y_bus s)"
proof -
  let ?g = "\<lambda>(_ :: nat bus_sys) (_ :: nat). True" and ?b1 = "fst (bus_subscribe ''t'' new_bus) :: nat bus"
  let ?b = "bus_offer 7 {0} ?b1"
  have s: "bus_deliver 7 0 ?b1 = Delivered ?b" and r: "bus_recv 0 ?b = Some (7, ?b1)"
    by (auto simp: bus_deliver_def bus_subscribe_def new_bus_def bus_offer_def offer_all_def offer_def
        chan_try_send_def chan_try_recv_def bus_recv_def fun_eq_iff make_chan_def Let_def)
  have "bus_reachable ?g (sample_held\<lparr>y_bus := ?b, y_pubs := {#(7, [])#}\<rparr>)"
    using bus_reachable.step[OF sample_held_reachable bus_step.deliver[of sample_held 7 0 "[]" "{#}" ?b]] s
    by (simp add: sample_held_def bus_start_def)
  from bus_reachable.step[OF this bus_step.receive[of _ 0 "{}" 7 ?b1]] r
  have t: "bus_reachable ?g (sample_held\<lparr>y_pubs := {#(7, [])#}, y_received := (\<lambda>_. [])(0 := [7])\<rparr>)"
      (is "bus_reachable _ ?t")
    by (simp add: sample_held_def bus_start_def)
  have "bus_ok (y_bus ?t)" using bus_at_most_once[OF t] by blast
  with t show ?thesis
    by (intro exI[of _ ?t]) (simp add: sample_held_def bus_queue_def bus_subscribe_def new_bus_def Let_def)
qed

text \<open>
  C8: If no subscription is cancelled while a publisher that has left the lock still holds it, no
  interleaving of subscribers, publishers and receivers ever panics.
\<close>
theorem bus_safe_if_not_held:
  assumes "bus_reachable not_held s"
  shows "\<not> y_panicked s \<and> bus_ok (y_bus s)"
  using bus_reachable_ok[OF assms] by (simp add: bus_sys_ok_def)

theorem bus_safe_if_not_held_witness:
  "\<not> y_panicked (bus_start\<lparr>y_bus := fst (bus_subscribe ''t'' new_bus)\<rparr> :: nat bus_sys)"
proof -
  have "bus_step not_held {} (bus_start :: nat bus_sys)
      (bus_start\<lparr>y_bus := fst (bus_subscribe ''t'' (y_bus bus_start))\<rparr>)"
    by (rule bus_step.subscribe) (simp add: bus_start_def)
  from bus_safe_if_not_held[OF bus_reachable.step[OF bus_reachable.start this]]
  show ?thesis by (simp add: bus_start_def)
qed

text \<open>
  The code has no such discipline: with cancellation allowed at any time, a run of four steps
  (subscribe, a publisher copies the subscribers and releases the lock, the subscription is
  cancelled, the publisher sends) ends in the panic of a send on a closed channel.
\<close>
theorem bus_publish_cancel_race:
  "\<exists>s :: nat bus_sys. bus_reachable (\<lambda>_ _. True) s \<and> y_panicked s"
proof -
  let ?b2 = "bus_cancel ''t'' 0 (fst (bus_subscribe ''t'' new_bus)) :: nat bus"
  have s: "bus_reachable (\<lambda>_ _. True) (sample_held\<lparr>y_bus := ?b2\<rparr>)"
    using bus_reachable.step[OF sample_held_reachable bus_step.cancel[of sample_held _ 0 "{}" "''t''"]]
    by (simp add: sample_held_def bus_start_def)
  have "bus_deliver 7 0 ?b2 = DeliveryPanic"
    by (simp add: bus_deliver_def bus_cancel_def bus_subscribe_def new_bus_def topic_subs_def
        go_put_def go_get_def chan_try_send_def)
  then show ?thesis
    using bus_reachable.step[OF s bus_step.deliver_panic[of _ 7 0 "[]" "{#}"]]
    by (force simp: sample_held_def bus_start_def)
qed

end
