(* ===== verification/Log_Stream.thy ===== *)
theory Log_Stream
  imports Admin Bus_Threads
begin

text \<open>
  The life of one request to \<open>/admin/logs/stream\<close> (\<open>cmd/rk/http_admin_logs_gen.go\<close>) among the other
  users of the bus: it checks that the response can be flushed, subscribes to the common topic and,
  when filtered by scope, to the scope's topic, greets the client, then writes what it receives until
  the client is gone, and runs its deferred cancellations in reverse order. Its turns are those of
  \<open>Admin\<close>; the bus is the concurrent one of \<open>Bus_Threads\<close>, whose other users move in between. The
  response headers are not modelled.
\<close>

section \<open>The handler\<close>

datatype stream_phase =
    Entered
  | SubscribedAll
  | SetUp          \<comment> \<open>subscribed, ticker started, nothing written\<close>
  | Looping
  | Leaving        \<comment> \<open>returned from the loop, the cancellation of the scope topic is next\<close>
  | LeavingAll     \<comment> \<open>the cancellation of the common topic is next\<close>
  | Finished

record log_stream =
  ls_phase :: stream_phase
  ls_all :: "nat option"     \<comment> \<open>the subscription to the common topic\<close>
  ls_scope :: "nat option"   \<comment> \<open>the subscription to the scope's topic\<close>
  ls_out :: "chunk list"
  ls_error :: "http_response option"
  ls_sys :: "bus_msg bus_sys"

definition stream_enter :: "bus_msg bus_sys \<Rightarrow> log_stream" where
  "stream_enter y = \<lparr>ls_phase = Entered, ls_all = None, ls_scope = None, ls_out = [], ls_error = None,
     ls_sys = y\<rparr>"

definition scope_topic :: "log_filter \<Rightarrow> string" where
  "scope_topic f = ''telemetry.logs.'' @ f_Scope f"

definition stream_own :: "log_stream \<Rightarrow> nat set" where
  "stream_own s = set_option (ls_all s) \<union> set_option (ls_scope s)"

text \<open>What the handler does to the bus: subscribe, receive, run a cancel function.\<close>

definition sys_subscribe :: "string \<Rightarrow> 'm bus_sys \<Rightarrow> 'm bus_sys" where
  "sys_subscribe t y = y\<lparr>y_bus := fst (bus_subscribe t (y_bus y))\<rparr>"

definition sys_received :: "nat \<Rightarrow> 'm \<Rightarrow> 'm bus \<Rightarrow> 'm bus_sys \<Rightarrow> 'm bus_sys" where
  "sys_received i m b y = y\<lparr>y_bus := b, y_received := (y_received y)(i := y_received y i @ [m])\<rparr>"

definition sys_cancel :: "string \<Rightarrow> nat option \<Rightarrow> 'm bus_sys \<Rightarrow> 'm bus_sys" where
  "sys_cancel t x y = (case x of None \<Rightarrow> y | Some i \<Rightarrow> y\<lparr>y_bus := bus_cancel t i (y_bus y)\<rparr>)"

inductive stream_step ::
  "(log_record_v2 \<Rightarrow> string) \<Rightarrow> string \<Rightarrow> bool \<Rightarrow> log_filter \<Rightarrow> log_stream \<Rightarrow> log_stream \<Rightarrow> bool"
  for enc hello flush f where
  others: "bus_step (\<lambda>_ _. True) (stream_own s) (ls_sys s) y \<Longrightarrow>
    stream_step enc hello flush f s (s\<lparr>ls_sys := y\<rparr>)"
| refuse: "ls_phase s = Entered \<Longrightarrow> \<not> flush \<Longrightarrow>
    stream_step enc hello flush f s
      (s\<lparr>ls_phase := Finished, ls_error := Some (http_error ''streaming unsupported'' 500)\<rparr>)"
| subscribe_all: "ls_phase s = Entered \<Longrightarrow> flush \<Longrightarrow> \<not> y_panicked (ls_sys s) \<Longrightarrow>
    stream_step enc hello flush f s (s\<lparr>ls_phase := SubscribedAll,
      ls_all := Some (snd (bus_subscribe ''telemetry.logs'' (y_bus (ls_sys s)))),
      ls_sys := sys_subscribe ''telemetry.logs'' (ls_sys s)\<rparr>)"
| subscribe_scope: "ls_phase s = SubscribedAll \<Longrightarrow> f_Scope f \<noteq> [] \<Longrightarrow> \<not> y_panicked (ls_sys s) \<Longrightarrow>
    stream_step enc hello flush f s (s\<lparr>ls_phase := SetUp,
      ls_scope := Some (snd (bus_subscribe (scope_topic f) (y_bus (ls_sys s)))),
      ls_sys := sys_subscribe (scope_topic f) (ls_sys s)\<rparr>)"
| no_scope: "ls_phase s = SubscribedAll \<Longrightarrow> f_Scope f = [] \<Longrightarrow>
    stream_step enc hello flush f s (s\<lparr>ls_phase := SetUp\<rparr>)"
| greet: "ls_phase s = SetUp \<Longrightarrow>
    stream_step enc hello flush f s
      (s\<lparr>ls_phase := Looping, ls_out := ls_out s @ [SseEvent ''hello'' hello]\<rparr>)"
| keep: "ls_phase s = Looping \<Longrightarrow>
    stream_step enc hello flush f s (s\<lparr>ls_out := ls_out s @ stream_turn enc f KeepTick\<rparr>)"
| from_all: "ls_phase s = Looping \<Longrightarrow> ls_all s = Some i \<Longrightarrow> \<not> y_panicked (ls_sys s) \<Longrightarrow>
    bus_recv i (y_bus (ls_sys s)) = Some (m, b) \<Longrightarrow>
    stream_step enc hello flush f s (s\<lparr>ls_out := ls_out s @ stream_turn enc f (FromAll (Some m)),
      ls_sys := sys_received i m b (ls_sys s)\<rparr>)"
| from_scope: "ls_phase s = Looping \<Longrightarrow> ls_scope s = Some j \<Longrightarrow> \<not> y_panicked (ls_sys s) \<Longrightarrow>
    bus_recv j (y_bus (ls_sys s)) = Some (m, b) \<Longrightarrow>
    stream_step enc hello flush f s (s\<lparr>ls_out := ls_out s @ stream_turn enc f (FromScope (Some m)),
      ls_sys := sys_received j m b (ls_sys s)\<rparr>)"
| client_gone: "ls_phase s = Looping \<Longrightarrow>
    stream_step enc hello flush f s (s\<lparr>ls_phase := Leaving\<rparr>)"
| leave_scope: "ls_phase s = Leaving \<Longrightarrow> \<not> y_panicked (ls_sys s) \<Longrightarrow>
    stream_step enc hello flush f s (s\<lparr>ls_phase := LeavingAll,
      ls_sys := sys_cancel (scope_topic f) (ls_scope s) (ls_sys s)\<rparr>)"
| leave_all: "ls_phase s = LeavingAll \<Longrightarrow> \<not> y_panicked (ls_sys s) \<Longrightarrow>
    stream_step enc hello flush f s (s\<lparr>ls_phase := Finished,
      ls_sys := sys_cancel ''telemetry.logs'' (ls_all s) (ls_sys s)\<rparr>)"

inductive stream_reachable ::
  "(log_record_v2 \<Rightarrow> string) \<Rightarrow> string \<Rightarrow> bool \<Rightarrow> log_filter \<Rightarrow> log_stream \<Rightarrow> bool"
  for enc hello flush f where
  start: "bus_reachable (\<lambda>_ _. True) y \<Longrightarrow> stream_reachable enc hello flush f (stream_enter y)"
| step: "stream_reachable enc hello flush f s \<Longrightarrow> stream_step enc hello flush f s t \<Longrightarrow>
    stream_reachable enc hello flush f t"

section \<open>The handler is a user of the bus\<close>

lemma bus_step_weaken: "bus_step g own s t \<Longrightarrow> bus_step g {} s t"
  by (induction rule: bus_step.induct) (auto intro: bus_step.intros)

lemmas sys_steps = sys_subscribe_def sys_received_def sys_cancel_def

lemma stream_step_bus:
  "stream_step enc hello flush f s t \<Longrightarrow>
    ls_sys t = ls_sys s \<or> bus_step (\<lambda>_ _. True) {} (ls_sys s) (ls_sys t)"
proof (induction rule: stream_step.induct)
  case (others s y)
  then show ?case by (simp add: bus_step_weaken)
qed (auto simp: sys_steps intro: bus_step.intros split: option.split)

lemma stream_bus_reachable:
  "stream_reachable enc hello flush f s \<Longrightarrow> bus_reachable (\<lambda>_ _. True) (ls_sys s)"
proof (induction rule: stream_reachable.induct)
  case (start y)
  then show ?case by (simp add: stream_enter_def)
next
  case (step s t)
  then show ?case using stream_step_bus[OF step.hyps(2)] bus_reachable.step by metis
qed

text \<open>The steps of the others leave the handler's subscriptions and what it received alone.\<close>

lemma bus_step_own:
  assumes "bus_step g own s s'" and "bus_ok (y_bus s)" and "i \<in> own" and "i < bus_next (y_bus s)"
  shows "bus_topics (y_bus s') i = bus_topics (y_bus s) i \<and> y_received s' i = y_received s i"
  using assms
proof (induction rule: bus_step.induct)
  case (subscribe s t)
  then show ?case by (auto simp: bus_topics_def subscribed_subscribe)
next
  case (cancel s j t)
  have "bus_topics (bus_cancel t j (y_bus s)) i = bus_topics (y_bus s) i"
    by (rule bus_cancel_cases[OF cancel.prems(1), of t j])
      (use cancel in \<open>auto simp: bus_topics_def subscribed_get\<close>)
  then show ?case by simp
next
  case (receive s j m b)
  then show ?case using bus_recv_queue(4)[OF receive.hyps(3)] by (auto simp: bus_topics_def)
next
  case (deliver s m p ps P b)
  then show ?case using bus_delivered(4)[OF deliver.hyps(3)] by (simp add: bus_topics_def)
qed simp_all

section \<open>Its subscriptions\<close>

text \<open>
  A subscription held in a field of the handler: it exists, has a sound account on its topic, and is
  registered there, and nowhere else, exactly when \<open>live\<close>.
\<close>

definition holds_sub :: "'m bus_sys \<Rightarrow> string \<Rightarrow> bool \<Rightarrow> nat \<Rightarrow> bool" where
  "holds_sub y t live i \<longleftrightarrow> i < bus_next (y_bus y) \<and> account_ok y i t \<and>
     bus_topics (y_bus y) i = (if live then {t} else {})"

definition all_live :: "stream_phase \<Rightarrow> bool" where
  "all_live p \<longleftrightarrow> p \<in> {SubscribedAll, SetUp, Looping, Leaving, LeavingAll}"

definition scope_live :: "stream_phase \<Rightarrow> bool" where
  "scope_live p \<longleftrightarrow> p \<in> {SetUp, Looping, Leaving}"

definition stream_subs_ok :: "log_filter \<Rightarrow> log_stream \<Rightarrow> bool" where
  "stream_subs_ok f s \<longleftrightarrow> bus_trace_ok (ls_sys s) \<and>
     (ls_all s = None \<longleftrightarrow> ls_phase s = Entered \<or> ls_error s \<noteq> None) \<and>
     (ls_error s \<noteq> None \<longrightarrow> ls_phase s = Finished) \<and>
     (ls_scope s = None \<longleftrightarrow> ls_all s = None \<or> ls_phase s = SubscribedAll \<or> f_Scope f = []) \<and>
     (\<forall>i. ls_all s = Some i \<longrightarrow> holds_sub (ls_sys s) ''telemetry.logs'' (all_live (ls_phase s)) i) \<and>
     (\<forall>j. ls_scope s = Some j \<longrightarrow> holds_sub (ls_sys s) (scope_topic f) (scope_live (ls_phase s)) j) \<and>
     (ls_all s = None \<or> ls_all s \<noteq> ls_scope s)"

lemma bus_step_next_le: "bus_step g own s s' \<Longrightarrow> bus_ok (y_bus s) \<Longrightarrow> bus_next (y_bus s) \<le> bus_next (y_bus s')"
  using bus_step_next by force

lemma holds_sub_others:
  assumes "bus_step g own y y'" and "bus_trace_ok y" and "i \<in> own" and "holds_sub y t live i"
  shows "holds_sub y' t live i"
proof -
  have ok: "bus_ok (y_bus y)" using assms(2) by (simp add: bus_trace_ok_def)
  show ?thesis
    using assms account_step[OF assms(1,2)] bus_step_own[OF assms(1) ok assms(3)]
      bus_step_next_le[OF assms(1) ok]
    by (auto simp: holds_sub_def)
qed

lemma bus_subscribe_id: "snd (bus_subscribe t b) = bus_next b"
  by (simp add: bus_subscribe_def Let_def)

lemma holds_sub_fresh:
  assumes "bus_trace_ok y" and "\<not> y_panicked y"
  shows "holds_sub (sys_subscribe t y) t True (bus_next (y_bus y))"
    and "holds_sub y u live i \<Longrightarrow> holds_sub (sys_subscribe t y) u live i"
    and "bus_trace_ok (sys_subscribe t y)"
proof -
  have ok: "bus_ok (y_bus y)" using assms by (simp add: bus_trace_ok_def)
  have st: "bus_step (\<lambda>_ _. True) {i} y (sys_subscribe t y)" for i
    unfolding sys_subscribe_def by (rule bus_step.subscribe[OF assms(2)])
  show "bus_trace_ok (sys_subscribe t y)" by (rule bus_trace_step[OF st assms(1)])
  show "holds_sub y u live i \<Longrightarrow> holds_sub (sys_subscribe t y) u live i"
    by (rule holds_sub_others[OF st assms(1)]) simp
  have "bus_next (y_bus y) \<notin> subscribed (y_bus y) u" for u using subscribed_less[OF ok] by blast
  then have "bus_topics (y_bus (sys_subscribe t y)) (bus_next (y_bus y)) = {t}"
    by (auto simp: bus_topics_def sys_subscribe_def subscribed_subscribe split: if_splits)
  then show "holds_sub (sys_subscribe t y) t True (bus_next (y_bus y))"
    using account_fresh[OF assms(1), of t]
    by (simp add: holds_sub_def sys_subscribe_def bus_subscribe_def Let_def)
qed

lemma holds_sub_received:
  assumes "bus_trace_ok y" and "\<not> y_panicked y" and "bus_recv i (y_bus y) = Some (m, b)"
  shows "holds_sub y u live j \<Longrightarrow> holds_sub (sys_received i m b y) u live j"
    and "bus_trace_ok (sys_received i m b y)"
proof -
  have st: "bus_step (\<lambda>_ _. True) {} y (sys_received i m b y)"
    unfolding sys_received_def by (rule bus_step.receive[OF assms(2) _ assms(3)]) simp
  show "bus_trace_ok (sys_received i m b y)" by (rule bus_trace_step[OF st assms(1)])
  show "holds_sub y u live j \<Longrightarrow> holds_sub (sys_received i m b y) u live j"
    using account_step[OF st assms(1)] bus_recv_queue[OF assms(3)]
    by (auto simp: holds_sub_def bus_topics_def sys_received_def)
qed

lemma bus_topics_cancel: "bus_ok b \<Longrightarrow> bus_topics (bus_cancel t i b) i = bus_topics b i - {t}"
  by (rule bus_cancel_cases[of b t i]) (auto simp: bus_topics_def subscribed_get split: if_splits)

lemma holds_sub_cancel:
  assumes "bus_trace_ok y" and "\<not> y_panicked y"
  shows "bus_trace_ok (sys_cancel t x y)"
    and "x = Some i \<Longrightarrow> holds_sub y t live i \<Longrightarrow> holds_sub (sys_cancel t x y) t False i"
    and "x \<noteq> Some j \<Longrightarrow> holds_sub y u live j \<Longrightarrow> holds_sub (sys_cancel t x y) u live j"
proof -
  have ok: "bus_ok (y_bus y)" using assms by (simp add: bus_trace_ok_def)
  have st: "bus_step (\<lambda>_ _. True) (- {i}) y (sys_cancel t (Some i) y)" for i
    unfolding sys_cancel_def by (simp, rule bus_step.cancel[OF assms(2)]) simp_all
  show "bus_trace_ok (sys_cancel t x y)"
    using bus_trace_step[OF st assms(1)] assms(1) by (cases x) (simp_all add: sys_cancel_def)
  show "holds_sub (sys_cancel t x y) t False i" if "x = Some i" "holds_sub y t live i"
  proof -
    have "bus_topics (bus_cancel t i (y_bus y)) i = {}"
      using that(2) by (auto simp: holds_sub_def bus_topics_cancel[OF ok] split: if_splits)
    then show ?thesis
      using that account_step[OF st assms(1)]
      by (auto simp: holds_sub_def sys_cancel_def bus_cancel_subs(3)[OF ok])
  qed
  show "holds_sub (sys_cancel t x y) u live j" if "x \<noteq> Some j" "holds_sub y u live j"
  proof (cases x)
    case (Some i)
    then show ?thesis
      using that by (auto intro!: holds_sub_others[OF st assms(1)])
  qed (use that in \<open>simp add: sys_cancel_def\<close>)
qed

lemma stream_subs_step:
  "stream_step enc hello flush f s t \<Longrightarrow> stream_subs_ok f s \<Longrightarrow> stream_subs_ok f t"
proof (induction rule: stream_step.induct)
  case (others s y)
  have tr: "bus_trace_ok (ls_sys s)" using others.prems by (simp add: stream_subs_ok_def)
  note holds_sub_others[OF others.hyps tr]
  with others show ?case
    by (auto simp: stream_subs_ok_def stream_own_def bus_trace_step[OF others.hyps tr])
next
  case (subscribe_all s)
  then have tr: "bus_trace_ok (ls_sys s)" by (simp add: stream_subs_ok_def)
  with subscribe_all show ?case
    by (auto simp: stream_subs_ok_def bus_subscribe_id all_live_def
        intro: holds_sub_fresh[OF tr subscribe_all.hyps(3)])
next
  case (subscribe_scope s)
  then have tr: "bus_trace_ok (ls_sys s)" by (simp add: stream_subs_ok_def)
  note fresh = holds_sub_fresh[OF tr subscribe_scope.hyps(3)]
  obtain i where i: "ls_all s = Some i" "holds_sub (ls_sys s) ''telemetry.logs'' True i" "ls_error s = None"
    using subscribe_scope by (auto simp: stream_subs_ok_def all_live_def)
  moreover have "i \<noteq> bus_next (y_bus (ls_sys s))" using i(2) by (simp add: holds_sub_def)
  ultimately show ?case
    using subscribe_scope.hyps fresh
    by (simp add: stream_subs_ok_def bus_subscribe_id all_live_def scope_live_def)
next
  case (from_all s i m b)
  then have tr: "bus_trace_ok (ls_sys s)" by (simp add: stream_subs_ok_def)
  with from_all show ?case
    by (auto simp: stream_subs_ok_def intro: holds_sub_received[OF tr from_all.hyps(3,4)])
next
  case (from_scope s j m b)
  then have tr: "bus_trace_ok (ls_sys s)" by (simp add: stream_subs_ok_def)
  with from_scope show ?case
    by (auto simp: stream_subs_ok_def intro: holds_sub_received[OF tr from_scope.hyps(3,4)])
next
  case (leave_scope s)
  then have tr: "bus_trace_ok (ls_sys s)" by (simp add: stream_subs_ok_def)
  with leave_scope show ?case
    by (auto simp: stream_subs_ok_def all_live_def scope_live_def
        intro: holds_sub_cancel[OF tr leave_scope.hyps(2)])
next
  case (leave_all s)
  then have tr: "bus_trace_ok (ls_sys s)" by (simp add: stream_subs_ok_def)
  with leave_all show ?case
    by (auto simp: stream_subs_ok_def all_live_def scope_live_def
        intro: holds_sub_cancel[OF tr leave_all.hyps(2)])
qed (auto simp: stream_subs_ok_def all_live_def scope_live_def)

lemma stream_subs_reachable: "stream_reachable enc hello flush f s \<Longrightarrow> stream_subs_ok f s"
proof (induction rule: stream_reachable.induct)
  case (start y)
  then show ?case by (simp add: stream_subs_ok_def stream_enter_def bus_trace_reachable)
qed (rule stream_subs_step)

section \<open>What it writes\<close>

definition is_log :: "chunk \<Rightarrow> bool" where
  "is_log c \<longleftrightarrow> (\<exists>d. c = SseEvent ''log'' d)"

text \<open>The log events a sequence of received messages gives.\<close>

definition logs_from :: "(log_record_v2 \<Rightarrow> string) \<Rightarrow> log_filter \<Rightarrow> bus_msg list \<Rightarrow> chunk list" where
  "logs_from enc f ms = concat (map (\<lambda>m. stream_turn enc f (FromAll (Some m))) ms)"

definition held_history :: "'m bus_sys \<Rightarrow> nat option \<Rightarrow> 'm list" where
  "held_history y x = (case x of None \<Rightarrow> [] | Some i \<Rightarrow> y_received y i)"

lemma held_history_simps [simp]:
  "held_history y None = []"
  "held_history (sys_subscribe t y) x = held_history y x"
  "held_history (sys_cancel t z y) x = held_history y x"
  "held_history (sys_received i m b y) x = held_history y x @ (if x = Some i then [m] else [])"
  by (auto simp: held_history_def sys_steps split: option.split)

lemma logs_from_simps [simp]:
  "logs_from enc f [] = []"
  "logs_from enc f (xs @ ys) = logs_from enc f xs @ logs_from enc f ys"
  "logs_from enc f [m] = stream_turn enc f (FromAll (Some m))"
  by (simp_all add: logs_from_def)

lemma stream_turn_scope: "stream_turn enc f (FromScope (Some m)) = stream_turn enc f (FromAll (Some m))"
  by (cases m) simp_all

lemma stream_turn_logs: "filter is_log (stream_turn enc f (FromAll (Some m))) = stream_turn enc f (FromAll (Some m))"
  by (cases m) (simp_all add: is_log_def)

lemma shuffles_snoc_left: "zs \<in> shuffles xs ys \<Longrightarrow> zs @ [z] \<in> shuffles (xs @ [z]) ys"
proof (induction xs ys arbitrary: zs rule: shuffles.induct)
  case (1 ys)
  then show ?case by (induction ys arbitrary: zs) (auto simp: Cons_in_shuffles_iff)
next
  case (2 xs)
  then show ?case by simp
next
  case (3 x xs y ys)
  then show ?case by auto
qed

lemma shuffles_append_left: "zs \<in> shuffles xs ys \<Longrightarrow> zs @ ws \<in> shuffles (xs @ ws) ys"
proof (induction ws arbitrary: zs xs)
  case (Cons w ws)
  from Cons.IH[OF shuffles_snoc_left[OF Cons.prems, of w]] show ?case by simp
qed simp

lemma shuffles_append_right: "zs \<in> shuffles xs ys \<Longrightarrow> zs @ ws \<in> shuffles xs (ys @ ws)"
  using shuffles_append_left[of zs ys xs ws] by (simp add: shuffles_commutes)

definition greeted :: "stream_phase \<Rightarrow> bool" where
  "greeted p \<longleftrightarrow> p \<in> {Looping, Leaving, LeavingAll}"

definition stream_out_ok :: "(log_record_v2 \<Rightarrow> string) \<Rightarrow> string \<Rightarrow> log_filter \<Rightarrow> log_stream \<Rightarrow> bool" where
  "stream_out_ok enc hello f s \<longleftrightarrow>
     filter is_log (ls_out s) \<in> shuffles (logs_from enc f (held_history (ls_sys s) (ls_all s)))
       (logs_from enc f (held_history (ls_sys s) (ls_scope s))) \<and>
     (greeted (ls_phase s) \<longrightarrow> (\<exists>cs. ls_out s = SseEvent ''hello'' hello # cs)) \<and>
     (ls_phase s \<in> {Entered, SubscribedAll, SetUp} \<longrightarrow>
       ls_out s = [] \<and> held_history (ls_sys s) (ls_all s) = [] \<and> held_history (ls_sys s) (ls_scope s) = [])"

lemma held_history_others:
  assumes "stream_subs_ok f s" and "bus_step g (stream_own s) (ls_sys s) y" and "x \<in> {ls_all s, ls_scope s}"
  shows "held_history y x = held_history (ls_sys s) x"
proof (cases x)
  case (Some i)
  then have "i \<in> stream_own s" and "i < bus_next (y_bus (ls_sys s))"
    using assms(1,3) by (auto simp: stream_own_def stream_subs_ok_def holds_sub_def)
  moreover have "bus_ok (y_bus (ls_sys s))" using assms(1) by (simp add: stream_subs_ok_def bus_trace_ok_def)
  ultimately show ?thesis using bus_step_own[OF assms(2)] Some by (simp add: held_history_def)
qed (simp add: held_history_def)

lemma received_fresh:
  "stream_subs_ok f s \<Longrightarrow> held_history (ls_sys s) (Some (bus_next (y_bus (ls_sys s)))) = []"
  by (simp add: stream_subs_ok_def bus_trace_ok_def held_history_def)

lemma stream_out_step:
  "stream_step enc hello flush f s t \<Longrightarrow> stream_subs_ok f s \<Longrightarrow> stream_out_ok enc hello f s \<Longrightarrow>
    stream_out_ok enc hello f t"
proof (induction rule: stream_step.induct)
  case (others s y)
  then show ?case
    using held_history_others[OF others.prems(1) others.hyps] by (simp add: stream_out_ok_def)
next
  case (subscribe_all s)
  then show ?case
    using received_fresh[OF subscribe_all.prems(1)]
    by (auto simp: stream_out_ok_def bus_subscribe_id greeted_def stream_subs_ok_def)
next
  case (subscribe_scope s)
  then show ?case
    using received_fresh[OF subscribe_scope.prems(1)]
    by (auto simp: stream_out_ok_def bus_subscribe_id greeted_def)
next
  case (from_all s i m b)
  then have "ls_scope s \<noteq> Some i" by (auto simp: stream_subs_ok_def)
  with from_all show ?case
    by (auto simp: stream_out_ok_def greeted_def stream_turn_logs intro: shuffles_append_left)
next
  case (from_scope s j m b)
  then have "ls_all s \<noteq> Some j" by (auto simp: stream_subs_ok_def)
  with from_scope show ?case
    by (auto simp: stream_out_ok_def greeted_def stream_turn_logs stream_turn_scope
        intro: shuffles_append_right)
qed (auto simp: stream_out_ok_def greeted_def is_log_def)

lemma stream_out_reachable: "stream_reachable enc hello flush f s \<Longrightarrow> stream_out_ok enc hello f s"
proof (induction rule: stream_reachable.induct)
  case (start y)
  then show ?case by (simp add: stream_out_ok_def stream_enter_def greeted_def)
next
  case (step s t)
  then show ?case using stream_out_step[OF step.hyps(2) stream_subs_reachable[OF step.hyps(1)]] by simp
qed

text \<open>The number of events a multiset of messages can give.\<close>

lemma mset_logs_from:
  "mset (logs_from enc f ms) = \<Sum>\<^sub># (image_mset (\<lambda>m. mset (stream_turn enc f (FromAll (Some m)))) (mset ms))"
  by (induction ms) (simp_all add: logs_from_def)

lemma logs_from_mono:
  assumes "mset xs \<subseteq># mset ys"
  shows "mset (logs_from enc f xs) \<subseteq># mset (logs_from enc f ys)"
proof -
  obtain C where "mset ys = mset xs + C" using assms by (metis subset_mset.add_diff_inverse)
  then show ?thesis by (simp add: mset_logs_from)
qed

lemma held_history_account:
  assumes "holds_sub y t live i"
  shows "mset (held_history y (Some i)) \<subseteq># mset (on_topic t (y_published y))"
proof -
  have "mset (y_received y i) + (mset (bus_queue (y_bus y) i) + pending i (y_pubs y))
      \<subseteq># mset (on_topic t (y_published y))"
    using assms by (simp add: holds_sub_def account_ok_def add.assoc)
  then show ?thesis
    unfolding held_history_def by (metis mset_subset_eq_add_left option.simps(5) subset_mset.order_trans)
qed

section \<open>A sample request\<close>

text \<open>A request without parameters is served while a publisher is about to send.\<close>

abbreviation no_params :: log_filter where "no_params \<equiv> stream_filter [] [] [] []"

definition stream_bus :: "bus_msg bus" where
  "stream_bus = fst (bus_subscribe ''telemetry.logs'' new_bus)"

definition stream_held :: "string \<Rightarrow> log_stream" where
  "stream_held hello = \<lparr>ls_phase = Looping, ls_all = Some 0, ls_scope = None,
     ls_out = [SseEvent ''hello'' hello], ls_error = None,
     ls_sys = bus_start\<lparr>y_bus := stream_bus, y_pubs := {#(MsgLog zero_record, [0])#},
       y_published := [(''telemetry.logs'', MsgLog zero_record)]\<rparr>\<rparr>"

lemma stream_bus_simps:
  "bus_subscribe ''telemetry.logs'' new_bus = (stream_bus, 0)"
  "topic_subs stream_bus ''telemetry.logs'' = [(0, 0)]"
  "bus_heap stream_bus 0 = Some \<lparr>sub_ch = make_chan 16, sub_closed = False\<rparr>"
  by (simp_all add: stream_bus_def bus_subscribe_def new_bus_def topic_subs_def go_put_def go_get_def Let_def)

lemma stream_held_reachable: "stream_reachable enc hello True no_params (stream_held hello)"
proof -
  let ?r = "stream_reachable enc hello True no_params"
  let ?s = "\<lambda>p out. \<lparr>ls_phase = p, ls_all = Some 0, ls_scope = None, ls_out = out, ls_error = None,
    ls_sys = bus_start\<lparr>y_bus := stream_bus\<rparr>\<rparr>"
  have nf: "f_Scope no_params = []" by (simp add: stream_filter_def)
  have "?r (?s SubscribedAll [])"
    using stream_reachable.step[OF stream_reachable.start[OF bus_reachable.start]
        stream_step.subscribe_all[of _ True enc hello no_params]]
    by (simp add: stream_enter_def bus_start_def stream_bus_simps sys_subscribe_def)
  from stream_reachable.step[OF this stream_step.no_scope] nf
  have "?r (?s SetUp [])" by simp
  from stream_reachable.step[OF this stream_step.greet]
  have "?r (?s Looping [SseEvent ''hello'' hello])" by simp
  from stream_reachable.step[OF this stream_step.others[OF bus_step.snapshot[of _ "''telemetry.logs''" "[(0, 0)]"]]]
  show ?thesis
    by (simp add: stream_held_def stream_bus_simps bus_start_def go_range_def)
qed

lemma stream_held_written:
  "\<exists>s. stream_reachable enc hello True no_params s \<and>
     ls_phase s = Looping \<and> ls_out s = [SseEvent ''hello'' hello, SseEvent ''log'' (enc zero_record)]"
proof -
  let ?m = "MsgLog zero_record" and ?b = "bus_offer (MsgLog zero_record) {0} stream_bus"
  have d: "bus_deliver ?m 0 stream_bus = Delivered ?b" and r: "bus_recv 0 ?b = Some (?m, stream_bus)"
    by (auto simp: bus_deliver_def stream_bus_simps bus_offer_def offer_all_def offer_def
        chan_try_send_def chan_try_recv_def bus_recv_def fun_eq_iff make_chan_def intro!: bus.equality)
  have m: "match_v2 no_params zero_record"
    by (simp add: match_v2_iff stream_filter_def stream_level_def zero_record_def)
  let ?s = "stream_held hello"
  have "stream_reachable enc hello True no_params
      (?s\<lparr>ls_sys := (ls_sys ?s)\<lparr>y_bus := ?b, y_pubs := {#(?m, [])#}\<rparr>\<rparr>)"
    by (rule stream_reachable.step[OF stream_held_reachable stream_step.others[OF bus_step.deliver]])
      (use d in \<open>simp_all add: stream_held_def bus_start_def\<close>)
  from stream_reachable.step[OF this stream_step.from_all[of _ 0 ?m stream_bus]] r m
  show ?thesis by (force simp: stream_held_def bus_start_def)
qed

section \<open>Properties of the log stream\<close>






end
