(* ===== verification/Feedback.thy ===== *)
theory Feedback
  imports Forwarder Bus_Threads
begin

text \<open>
  A log forwarder that runs in the process of the root kernel (the mode \<open>inproc\<close> with the address of
  the node's own gateway), as one closed system: the event bus, the forwarder's subscriptions to the
  common and to the domain topic, its merging goroutines and its sender
  (\<open>kernels/infra/log-forwarder/forwarder_gen.go\<close>), the stream, and the gateway that hands each record
  to the log hub (\<open>cmd/rk/log_gateway_server_gen.go\<close>, \<open>cmd/rk/log_hub_gen.go\<close>), which publishes it on
  the same bus. The connection stays up. \<open>ToProto\<close> is not in the repository: it is the parameter \<open>tp\<close>.
\<close>

section \<open>The closed system\<close>

text \<open>What the sender needs \<open>ToProto\<close> to do, as the inverse of \<open>FromProto\<close>: keep scope and kernel.\<close>

definition keeps_origin :: "(log_record_v2 \<Rightarrow> proto_record) \<Rightarrow> bool" where
  "keeps_origin tp \<longleftrightarrow> (\<forall>rec. p_Scope (tp rec) = l_Scope rec \<and> p_KernelId (tp rec) = l_KernelID rec)"

record loop_state =
  fb_bus :: "log_record_v2 bus"
  fb_in :: "fw_msg chan"           \<comment> \<open>the channel \<open>in\<close> of the forwarder\<close>
  fb_wire :: "proto_record list"   \<comment> \<open>sent and not yet received\<close>
  fb_sent :: nat                   \<comment> \<open>history: how many sends\<close>

record loop_setup =
  su_all :: nat      \<comment> \<open>the forwarder's subscription to the common topic\<close>
  su_domain :: nat   \<comment> \<open>and to the domain topic\<close>
  su_iter :: "(nat, nat) gomap \<Rightarrow> (nat, nat) gomap"
  su_choice :: "bool list"
  su_proto :: "log_record_v2 \<Rightarrow> proto_record"

definition su_bus :: "loop_setup \<Rightarrow> (log_record_v2, log_record_v2 bus) publisher" where
  "su_bus u = bus_publisher (su_iter u) (su_choice u)"

text \<open>The records the loop is about: of a domain, not from the root kernel.\<close>

definition circulating :: "log_record_v2 \<Rightarrow> bool" where
  "circulating rec \<longleftrightarrow> l_Scope rec = ''domain'' \<and> l_KernelID rec \<noteq> ''rk''"

text \<open>
  The steps: a logger of a domain publishes on its topics, a merging goroutine moves a message, the
  sender skips or sends one, the gateway receives one.
\<close>

inductive loop_step :: "loop_setup \<Rightarrow> loop_state \<Rightarrow> loop_state \<Rightarrow> bool" for u where
  logged: "circulating rec \<Longrightarrow>
    loop_step u s (s\<lparr>fb_bus := publish_all (su_bus u) False (tee_topics ''domain'') rec (fb_bus s)\<rparr>)"
| merge: "k \<in> {su_all u, su_domain u} \<Longrightarrow> bus_recv k (fb_bus s) = Some (rec, b) \<Longrightarrow>
    loop_step u s (s\<lparr>fb_bus := b, fb_in := fw_merge (Some (MsgLog rec)) (fb_in s)\<rparr>)"
| skip: "chan_try_recv (fb_in s) = Received m c \<Longrightarrow> fw_select m = None \<Longrightarrow>
    loop_step u s (s\<lparr>fb_in := c\<rparr>)"
| send: "chan_try_recv (fb_in s) = Received m c \<Longrightarrow> fw_select m = Some rec \<Longrightarrow>
    loop_step u s (s\<lparr>fb_in := c, fb_wire := fb_wire s @ [su_proto u rec], fb_sent := Suc (fb_sent s)\<rparr>)"
| receive: "fb_wire s = p # ps \<Longrightarrow>
    loop_step u s (s\<lparr>fb_wire := ps, fb_bus := log_hub_publish (Some \<lparr>lh_bus = Some (su_bus u)\<rparr>) False
      (from_proto (Some \<lparr>pr_Record = Some p\<rparr>) now) (fb_bus s)\<rparr>)"

definition loop_start :: "log_record_v2 bus \<Rightarrow> loop_state" where
  "loop_start b = \<lparr>fb_bus = b, fb_in = make_chan 256, fb_wire = [], fb_sent = 0\<rparr>"

inductive loop_reachable :: "loop_setup \<Rightarrow> loop_state \<Rightarrow> bool" for u where
  start: "bus_ok b \<Longrightarrow> iter_ok (su_iter u) \<Longrightarrow> keeps_origin (su_proto u) \<Longrightarrow>
    su_all u \<in> subscribed b topic_logs_all \<Longrightarrow> su_domain u \<in> subscribed b topic_logs_domain \<Longrightarrow>
    bus_queue b (su_all u) = [] \<Longrightarrow> bus_queue b (su_domain u) = [] \<Longrightarrow>
    loop_reachable u (loop_start b)"
| step: "loop_reachable u s \<Longrightarrow> loop_step u s t \<Longrightarrow> loop_reachable u t"

text \<open>The records on their way, in the queues, the channel and the stream.\<close>

definition loop_load :: "loop_setup \<Rightarrow> loop_state \<Rightarrow> nat" where
  "loop_load u s = length (bus_queue (fb_bus s) (su_all u)) + length (bus_queue (fb_bus s) (su_domain u)) +
     length (c_buf (fb_in s)) + length (fb_wire s)"

text \<open>A run that sends again and again.\<close>

coinductive sends_forever :: "loop_setup \<Rightarrow> loop_state \<Rightarrow> bool" for u where
  again: "(loop_step u)\<^sup>*\<^sup>* s t \<Longrightarrow> fb_sent s < fb_sent t \<Longrightarrow> sends_forever u t \<Longrightarrow> sends_forever u s"

section \<open>The invariant\<close>

definition loop_bus_ok :: "loop_setup \<Rightarrow> log_record_v2 bus \<Rightarrow> bool" where
  "loop_bus_ok u b \<longleftrightarrow> bus_ok b \<and> iter_ok (su_iter u) \<and>
     bus_topics b (su_all u) = {topic_logs_all} \<and> bus_topics b (su_domain u) = {topic_logs_domain} \<and>
     list_all circulating (bus_queue b (su_all u)) \<and> list_all circulating (bus_queue b (su_domain u))"

definition loop_in_ok :: "fw_msg chan \<Rightarrow> bool" where
  "loop_in_ok c \<longleftrightarrow> chan_ok c \<and> c_cap c = 256 \<and> \<not> c_closed c \<and>
     (\<forall>m \<in> set (c_buf c). \<exists>rec. m = Some (MsgLog rec) \<and> circulating rec)"

definition loop_ok :: "loop_setup \<Rightarrow> loop_state \<Rightarrow> bool" where
  "loop_ok u s \<longleftrightarrow> keeps_origin (su_proto u) \<and> loop_bus_ok u (fb_bus s) \<and> loop_in_ok (fb_in s) \<and>
     (\<forall>p \<in> set (fb_wire s). p_Scope p = ''domain'' \<and> p_KernelId p \<noteq> ''rk'')"

lemma fw_select_circulating: "circulating rec \<Longrightarrow> fw_select (Some (MsgLog rec)) = Some rec"
  by (simp add: fw_select_def circulating_def)

lemma received_circulating:
  "p_Scope p = ''domain'' \<Longrightarrow> p_KernelId p \<noteq> ''rk'' \<Longrightarrow>
    circulating (from_proto (Some \<lparr>pr_Record = Some p\<rparr>) now)"
  by (simp add: from_proto_def circulating_def)

text \<open>What a publish on distinct topics does to the forwarder's two queues.\<close>

lemma loop_publish:
  assumes "loop_bus_ok u b" and "circulating rec" and "k \<in> {su_all u, su_domain u}"
    and "hits ts {topic_logs_all} = 1" and "hits ts {topic_logs_domain} = 1"
  shows "loop_bus_ok u (publish_all (su_bus u) False ts rec b)"
    and "bus_queue (publish_all (su_bus u) False ts rec b) k =
      (if length (bus_queue b k) < 16 then bus_queue b k @ [rec] else bus_queue b k)"
proof -
  have inv: "bus_ok b \<and> iter_ok (su_iter u)" using assms(1) by (simp add: loop_bus_ok_def)
  have q: "bus_queue (publish_all (su_bus u) False ts rec b) k' =
      (if length (bus_queue b k') < 16 then bus_queue b k' @ [rec] else bus_queue b k')"
    if "k' \<in> {su_all u, su_domain u}" for k'
  proof -
    have "hits ts (bus_topics b k') = 1" using that assms(1,4,5) by (auto simp: loop_bus_ok_def)
    then show ?thesis
      unfolding su_bus_def using memory_bus.queue_all[OF inv, of "su_choice u" ts rec k']
      by (cases "length (bus_queue b k') < 16") (simp_all add: min_def)
  qed
  from q[OF assms(3)] show "bus_queue (publish_all (su_bus u) False ts rec b) k =
      (if length (bus_queue b k) < 16 then bus_queue b k @ [rec] else bus_queue b k)" .
  have "bus_topics (publish_all (su_bus u) False ts rec b) = bus_topics b"
      "bus_ok (publish_all (su_bus u) False ts rec b)"
    unfolding su_bus_def using memory_bus.topics_all[OF inv] memory_bus.invar_all[OF inv] by auto
  then show "loop_bus_ok u (publish_all (su_bus u) False ts rec b)"
    using assms(1,2) q by (simp add: loop_bus_ok_def)
qed

lemma domain_hits:
  "hits (tee_topics ''domain'') {topic_logs_all} = 1" "hits (tee_topics ''domain'') {topic_logs_domain} = 1"
  "l_Scope rec = ''domain'' \<Longrightarrow> hits (log_hub_topics rec) {topic_logs_all} = 1"
  "l_Scope rec = ''domain'' \<Longrightarrow> hits (log_hub_topics rec) {topic_logs_domain} = 1"
  by (simp_all add: tee_topics_def log_hub_topics_def topic_defs go_to_lower.simps char_lower_def Let_def)

lemma loop_recv:
  assumes "bus_recv k b = Some (rec, b')" and "k \<in> {su_all u, su_domain u}" and "loop_bus_ok u b"
  shows "circulating rec" and "loop_bus_ok u b'" and "bus_queue b k = rec # bus_queue b' k"
    and "k' \<noteq> k \<Longrightarrow> bus_queue b' k' = bus_queue b k'"
proof -
  note q = bus_recv_queue(1,2)[OF assms(1)]
  have tp: "bus_topics b' = bus_topics b"
    by (simp add: bus_topics_def bus_recv_queue(4)[OF assms(1)] fun_eq_iff)
  have ok: "bus_ok b'" using bus_recv_ok(1)[OF assms(1)] assms(3) by (simp add: loop_bus_ok_def)
  have c: "list_all circulating (bus_queue b (su_all u))" "list_all circulating (bus_queue b (su_domain u))"
    using assms(3) by (simp_all add: loop_bus_ok_def)
  then show "circulating rec" using q(1) assms(2) by auto
  have "list_all circulating (bus_queue b' k')" if "k' \<in> {su_all u, su_domain u}" for k'
    using that c q by (cases "k' = k") auto
  then show "loop_bus_ok u b'" using assms(3) ok by (simp add: loop_bus_ok_def tp)
qed (rule bus_recv_queue(1,2)[OF assms(1)], assumption?)+

lemma loop_can_recv:
  assumes "loop_bus_ok u b" and "bus_queue b k \<noteq> []"
  obtains rec b' where "bus_recv k b = Some (rec, b')"
  using assms(2) that
  by (cases "bus_heap b k") (auto simp: bus_queue_def bus_recv_def chan_try_recv_def neq_Nil_conv)

lemma loop_merge:
  assumes "loop_in_ok c" and "circulating rec"
  shows "loop_in_ok (fw_merge (Some (MsgLog rec)) c)"
    and "c_buf (fw_merge (Some (MsgLog rec)) c) =
      (if length (c_buf c) < 256 then c_buf c @ [Some (MsgLog rec)] else c_buf c)"
  using assms by (auto simp: loop_in_ok_def fw_merge_def chan_try_send_def chan_ok_def)

text \<open>What waits in the channel is always sent on.\<close>

lemma loop_channel:
  assumes "loop_in_ok c" and "chan_try_recv c = Received m c'"
  obtains rec where "m = Some (MsgLog rec)" "circulating rec" "fw_select m = Some rec"
    "loop_in_ok c'" "c_buf c = m # c_buf c'"
  using assms that fw_select_circulating
  by (auto simp: loop_in_ok_def chan_recv_Received chan_ok_def)

lemma loop_received:
  fixes now
  assumes "loop_ok u s" and "fb_wire s = p # ps" and "k \<in> {su_all u, su_domain u}"
    and b': "b' = log_hub_publish (Some \<lparr>lh_bus = Some (su_bus u)\<rparr>) False
      (from_proto (Some \<lparr>pr_Record = Some p\<rparr>) now) (fb_bus s)"
  shows "loop_bus_ok u b'" and "length (bus_queue b' k) = min 16 (Suc (length (bus_queue (fb_bus s) k)))"
proof -
  let ?rec = "from_proto (Some \<lparr>pr_Record = Some p\<rparr>) now"
  have p: "p_Scope p = ''domain''" "p_KernelId p \<noteq> ''rk''" and b: "loop_bus_ok u (fb_bus s)"
    using assms(1,2) by (auto simp: loop_ok_def)
  then have sc: "l_Scope ?rec = ''domain''" by (simp add: from_proto_def)
  have bd: "length (bus_queue (fb_bus s) k) \<le> 16"
    using b by (intro bus_queue_bound) (simp add: loop_bus_ok_def)
  note pub = loop_publish[OF b received_circulating[OF p] assms(3) domain_hits(3,4)[OF sc]]
  show "loop_bus_ok u b'" using pub(1) by (simp add: b' log_hub_publish_def)
  show "length (bus_queue b' k) = min 16 (Suc (length (bus_queue (fb_bus s) k)))"
    using pub(2) bd by (simp add: b' log_hub_publish_def)
qed

lemma loop_ok_step:
  assumes "loop_step u s t" and "loop_ok u s"
  shows "loop_ok u t" and "0 < loop_load u s \<Longrightarrow> 0 < loop_load u t" and "fb_sent s \<le> fb_sent t"
proof -
  have b: "loop_bus_ok u (fb_bus s)" and c: "loop_in_ok (fb_in s)" and k: "keeps_origin (su_proto u)"
    using assms(2) by (simp_all add: loop_ok_def)
  from assms(1) have "loop_ok u t \<and> (0 < loop_load u s \<longrightarrow> 0 < loop_load u t) \<and> fb_sent s \<le> fb_sent t"
  proof cases
    case (logged rec)
    note pub = loop_publish[OF b logged(2) _ domain_hits(1,2)]
    then show ?thesis
      using assms(2) logged(1) by (auto simp: loop_ok_def loop_load_def)
  next
    case (merge k rec b')
    note r = loop_recv[OF merge(3,2) b]
    note m = loop_merge[OF c r(1)]
    show ?thesis
      using assms(2) merge(1) r(2) m by (auto simp: loop_ok_def loop_load_def)
  next
    case (skip m c')
    then show ?thesis using loop_channel[OF c skip(2)] by (metis option.distinct(1))
  next
    case (send m c' rec)
    obtain rec' where "m = Some (MsgLog rec')" "circulating rec'" "fw_select m = Some rec'"
        "loop_in_ok c'" by (rule loop_channel[OF c send(2)]) blast
    then show ?thesis
      using assms(2) send(1,3) k by (auto simp: loop_ok_def loop_load_def keeps_origin_def circulating_def)
  next
    case (receive p ps now)
    note r = loop_received[OF assms(2) receive(2) _ refl, where now = now]
    show ?thesis
      using assms(2) receive r by (auto simp: loop_ok_def loop_load_def)
  qed
  then show "loop_ok u t" "0 < loop_load u s \<Longrightarrow> 0 < loop_load u t" "fb_sent s \<le> fb_sent t" by simp_all
qed

lemma loop_ok_reachable: "loop_reachable u s \<Longrightarrow> loop_ok u s"
proof (induction rule: loop_reachable.induct)
  case (start b)
  have tp: "bus_topics b (su_all u) = {topic_logs_all}" "bus_topics b (su_domain u) = {topic_logs_domain}"
    using start memory_bus.one_topic[of b "su_iter u"] by (auto simp: bus_topics_def)
  show ?case
    using start tp by (simp add: loop_ok_def loop_start_def loop_bus_ok_def loop_in_ok_def)
next
  case (step s t)
  then show ?case using loop_ok_step(1) by blast
qed

lemma loop_ok_steps:
  "(loop_step u)\<^sup>*\<^sup>* s t \<Longrightarrow> loop_ok u s \<Longrightarrow>
    loop_ok u t \<and> (0 < loop_load u s \<longrightarrow> 0 < loop_load u t)"
  by (induction rule: rtranclp_induct) (auto dest: loop_ok_step)

section \<open>Progress\<close>

text \<open>The moves of a loaded loop, each with what it does to the four places.\<close>

lemma step_send:
  assumes "loop_ok u s" and "c_buf (fb_in s) = m # ms"
  obtains t where "loop_step u s t" "fb_sent t = Suc (fb_sent s)" "loop_ok u t"
    "c_buf (fb_in t) = ms" "fb_bus t = fb_bus s" "length (fb_wire t) = Suc (length (fb_wire s))"
proof -
  have c: "loop_in_ok (fb_in s)" using assms(1) by (simp add: loop_ok_def)
  have r: "chan_try_recv (fb_in s) = Received m ((fb_in s)\<lparr>c_buf := ms\<rparr>)"
    using assms(2) c by (simp add: chan_try_recv_def loop_in_ok_def)
  obtain rec where "fw_select m = Some rec" by (rule loop_channel[OF c r]) blast
  from loop_step.send[OF r this] show thesis
    by (rule that) (use loop_ok_step(1)[OF loop_step.send[OF r \<open>fw_select m = Some rec\<close>] assms(1)] in simp_all)
qed

lemma step_merge:
  assumes "loop_ok u s" and "k \<in> {su_all u, su_domain u}" and "bus_queue (fb_bus s) k = r # rs"
  obtains t where "loop_step u s t" "fb_sent t = fb_sent s" "loop_ok u t" "fb_wire t = fb_wire s"
    "bus_queue (fb_bus t) k = rs" "\<And>k'. k' \<noteq> k \<Longrightarrow> bus_queue (fb_bus t) k' = bus_queue (fb_bus s) k'"
    "length (c_buf (fb_in t)) = min 256 (Suc (length (c_buf (fb_in s))))"
proof -
  have b: "loop_bus_ok u (fb_bus s)" and c: "loop_in_ok (fb_in s)" using assms(1) by (simp_all add: loop_ok_def)
  obtain rec b' where rv: "bus_recv k (fb_bus s) = Some (rec, b')"
    using assms(3) by (auto intro: loop_can_recv[OF b, of k])
  note r = loop_recv[OF rv assms(2) b]
  have l: "length (c_buf (fb_in s)) \<le> 256" using c by (simp add: loop_in_ok_def chan_ok_def)
  from loop_step.merge[OF assms(2) rv] show thesis
    by (rule that)
      (use r loop_merge(2)[OF c r(1)] l assms(3) loop_ok_step(1)[OF loop_step.merge[OF assms(2) rv] assms(1)]
        in \<open>simp_all add: min_def\<close>)
qed

lemma step_receive:
  assumes "loop_ok u s" and "fb_wire s = p # ps"
  obtains t where "loop_step u s t" "fb_sent t = fb_sent s" "loop_ok u t" "fb_wire t = ps" "fb_in t = fb_in s"
    "\<And>k. k \<in> {su_all u, su_domain u} \<Longrightarrow>
      length (bus_queue (fb_bus t) k) = min 16 (Suc (length (bus_queue (fb_bus s) k)))"
proof -
  note st = loop_step.receive[OF assms(2), of u 0]
  show thesis
    by (rule that[OF st]) (use loop_received(2)[OF assms _ refl] loop_ok_step(1)[OF st assms(1)] in simp_all)
qed

lemma loaded_sends:
  assumes "loop_ok u s" and "0 < loop_load u s"
  shows "\<exists>t. (loop_step u)\<^sup>*\<^sup>* s t \<and> fb_sent s < fb_sent t"
proof -
  have chan: "\<exists>t. (loop_step u)\<^sup>*\<^sup>* s t \<and> fb_sent s < fb_sent t"
    if ok: "loop_ok u s" and ne: "c_buf (fb_in s) \<noteq> []" for s
  proof -
    obtain m ms where "c_buf (fb_in s) = m # ms" using ne by (cases "c_buf (fb_in s)") auto
    from step_send[OF ok this] show ?thesis by (metis lessI r_into_rtranclp)
  qed
  have queue: "\<exists>t. (loop_step u)\<^sup>*\<^sup>* s t \<and> fb_sent s < fb_sent t"
    if ok: "loop_ok u s" and k: "k \<in> {su_all u, su_domain u}" and ne: "bus_queue (fb_bus s) k \<noteq> []" for s k
  proof -
    obtain r rs where q: "bus_queue (fb_bus s) k = r # rs" using ne by (cases "bus_queue (fb_bus s) k") auto
    obtain t where t: "loop_step u s t" "fb_sent t = fb_sent s" "loop_ok u t"
        "length (c_buf (fb_in t)) = min 256 (Suc (length (c_buf (fb_in s))))"
      by (rule step_merge[OF ok k q]) blast
    then have "c_buf (fb_in t) \<noteq> []" by auto
    from chan[OF t(3) this] t(1,2) show ?thesis by (metis converse_rtranclp_into_rtranclp)
  qed
  consider "c_buf (fb_in s) \<noteq> []" | "bus_queue (fb_bus s) (su_all u) \<noteq> []"
    | "bus_queue (fb_bus s) (su_domain u) \<noteq> []" | p ps where "fb_wire s = p # ps"
    using assms(2) by (cases "fb_wire s") (auto simp: loop_load_def)
  then show ?thesis
  proof cases
    case 4
    obtain t where t: "loop_step u s t" "fb_sent t = fb_sent s" "loop_ok u t"
        "length (bus_queue (fb_bus t) (su_all u)) = min 16 (Suc (length (bus_queue (fb_bus s) (su_all u))))"
      by (rule step_receive[OF assms(1) 4]) blast
    then have "bus_queue (fb_bus t) (su_all u) \<noteq> []" by auto
    from queue[OF t(3) _ this] t(1,2) show ?thesis by (metis converse_rtranclp_into_rtranclp insertI1)
  qed (use chan[OF assms(1)] queue[OF assms(1)] in blast)+
qed

lemma loaded_sends_forever: "loop_ok u s \<Longrightarrow> 0 < loop_load u s \<Longrightarrow> sends_forever u s"
proof (coinduction arbitrary: s)
  case (sends_forever s)
  then obtain t where "(loop_step u)\<^sup>*\<^sup>* s t" "fb_sent s < fb_sent t"
    using loaded_sends by blast
  then show ?case using loop_ok_steps sends_forever by blast
qed

section \<open>Growth\<close>

text \<open>One turn around the loop turns \<open>n\<close> records in the channel into \<open>n + 1\<close>.\<close>

definition at_rest :: "loop_setup \<Rightarrow> nat \<Rightarrow> loop_state \<Rightarrow> bool" where
  "at_rest u n s \<longleftrightarrow> loop_ok u s \<and> length (c_buf (fb_in s)) = n \<and> fb_wire s = [] \<and>
     bus_queue (fb_bus s) (su_all u) = [] \<and> bus_queue (fb_bus s) (su_domain u) = []"

lemma merge_both:
  assumes "loop_ok u s" and "fb_wire s = []" and "length (c_buf (fb_in s)) = n" and "n + 2 \<le> 256"
    and "bus_queue (fb_bus s) (su_all u) = [r1]" and "bus_queue (fb_bus s) (su_domain u) = [r2]"
    and ne: "su_all u \<noteq> su_domain u"
  shows "\<exists>t. (loop_step u)\<^sup>*\<^sup>* s t \<and> at_rest u (n + 2) t \<and> fb_sent t = fb_sent s"
proof -
  obtain s3 where s3: "loop_step u s s3" "fb_sent s3 = fb_sent s" "loop_ok u s3" "fb_wire s3 = fb_wire s"
      "bus_queue (fb_bus s3) (su_all u) = []" "\<And>k. k \<noteq> su_all u \<Longrightarrow> bus_queue (fb_bus s3) k = bus_queue (fb_bus s) k"
      "length (c_buf (fb_in s3)) = min 256 (Suc (length (c_buf (fb_in s))))"
    by (rule step_merge[OF assms(1) _ assms(5)]) blast+
  have "bus_queue (fb_bus s3) (su_domain u) = [r2]" using s3(6)[OF ne[symmetric]] assms(6) by simp
  from step_merge[OF s3(3) _ this]
  obtain s4 where s4: "loop_step u s3 s4" "fb_sent s4 = fb_sent s3" "loop_ok u s4" "fb_wire s4 = fb_wire s3"
      "bus_queue (fb_bus s4) (su_domain u) = []" "\<And>k. k \<noteq> su_domain u \<Longrightarrow> bus_queue (fb_bus s4) k = bus_queue (fb_bus s3) k"
      "length (c_buf (fb_in s4)) = min 256 (Suc (length (c_buf (fb_in s3))))"
    by blast
  have "(loop_step u)\<^sup>*\<^sup>* s s4"
    using s3(1) s4(1) by (meson converse_rtranclp_into_rtranclp rtranclp.rtrancl_refl)
  moreover have "at_rest u (n + 2) s4"
    using s4(3-7) s3(4-7) assms(2-4) ne by (simp add: at_rest_def)
  ultimately show ?thesis using s3(2) s4(2) by metis
qed

lemma one_turn:
  assumes "at_rest u n s" and "0 < n" and "n < 256" and ne: "su_all u \<noteq> su_domain u"
  shows "\<exists>t. (loop_step u)\<^sup>*\<^sup>* s t \<and> at_rest u (Suc n) t \<and> fb_sent t = Suc (fb_sent s)"
proof -
  obtain m ms where m: "c_buf (fb_in s) = m # ms" "length ms = n - 1"
    using assms(1,2) by (cases "c_buf (fb_in s)") (auto simp: at_rest_def)
  have ok: "loop_ok u s" using assms(1) by (simp add: at_rest_def)
  obtain s1 where s1: "loop_step u s s1" "fb_sent s1 = Suc (fb_sent s)" "loop_ok u s1" "c_buf (fb_in s1) = ms"
      "fb_bus s1 = fb_bus s" "length (fb_wire s1) = Suc (length (fb_wire s))"
    by (rule step_send[OF ok m(1)])
  then obtain p where p: "fb_wire s1 = [p]"
    using assms(1) by (auto simp: at_rest_def length_Suc_conv)
  obtain s2 where s2: "loop_step u s1 s2" "fb_sent s2 = fb_sent s1" "loop_ok u s2" "fb_wire s2 = []" "fb_in s2 = fb_in s1"
      "\<And>k. k \<in> {su_all u, su_domain u} \<Longrightarrow>
        length (bus_queue (fb_bus s2) k) = min 16 (Suc (length (bus_queue (fb_bus s1) k)))"
    by (rule step_receive[OF s1(3) p]) blast
  obtain r1 where r1: "bus_queue (fb_bus s2) (su_all u) = [r1]"
    using s2(6)[of "su_all u"] s1(5) assms(1) by (auto simp: at_rest_def length_Suc_conv)
  obtain r2 where r2: "bus_queue (fb_bus s2) (su_domain u) = [r2]"
    using s2(6)[of "su_domain u"] s1(5) assms(1) by (auto simp: at_rest_def length_Suc_conv)
  have "length (c_buf (fb_in s2)) = n - 1" using s1(4) s2(5) m(2) by simp
  from merge_both[OF s2(3,4) this _ r1 r2 ne] assms(2,3)
  obtain t where t: "(loop_step u)\<^sup>*\<^sup>* s2 t" "at_rest u (Suc n) t" "fb_sent t = fb_sent s2" by auto
  have "(loop_step u)\<^sup>*\<^sup>* s t" using s1(1) s2(1) t(1) by (meson converse_rtranclp_into_rtranclp)
  with t(2,3) s1(2) s2(2) show ?thesis by auto
qed

lemma fills_up:
  assumes "at_rest u n s" and "0 < n" and "n \<le> 256" and "su_all u \<noteq> su_domain u"
  shows "\<exists>t. (loop_step u)\<^sup>*\<^sup>* s t \<and> at_rest u 256 t \<and> fb_sent t = fb_sent s + (256 - n)"
  using assms
proof (induction "256 - n" arbitrary: n s)
  case 0
  then show ?case by (intro exI[of _ s]) auto
next
  case (Suc d)
  then obtain s' where s': "(loop_step u)\<^sup>*\<^sup>* s s'" "at_rest u (Suc n) s'" "fb_sent s' = Suc (fb_sent s)"
    using one_turn[of u n s] by (metis Suc_neq_Zero diff_is_0_eq not_le)
  have d: "d = 256 - Suc n" "Suc n \<le> 256" using Suc.hyps(2) by linarith+
  from Suc.hyps(1)[OF d(1) s'(2) _ d(2) Suc.prems(4)]
  obtain t where "(loop_step u)\<^sup>*\<^sup>* s' t" "at_rest u 256 t" "fb_sent t = fb_sent s' + (256 - Suc n)"
    by auto
  then show ?case using s' Suc.hyps(2) by (intro exI[of _ t]) auto
qed

lemma loop_two:
  assumes "loop_bus_ok u b"
  shows "su_all u \<noteq> su_domain u"
proof
  assume "su_all u = su_domain u"
  then have "{topic_logs_all} = {topic_logs_domain}"
    using assms unfolding loop_bus_ok_def by metis
  then show False by (simp add: topic_defs)
qed

section \<open>Properties of the loop\<close>



text \<open>A concrete node: the forwarder's two subscriptions, and a conversion that keeps every field it can.\<close>

definition sample_proto :: "log_record_v2 \<Rightarrow> proto_record" where
  "sample_proto rec = \<lparr>p_TimeUnixNano = l_Time rec - unix_epoch, p_Level = level_string (l_Level rec),
     p_KernelId = l_KernelID rec, p_Scope = l_Scope rec, p_Component = l_Component rec, p_Trace = l_Trace rec,
     p_Message = l_Message rec, p_Fields = []\<rparr>"

definition sample_setup :: loop_setup where
  "sample_setup = \<lparr>su_all = 0, su_domain = 1, su_iter = rev, su_choice = [], su_proto = sample_proto\<rparr>"

lemma sample_loop: "loop_reachable sample_setup (loop_start sample_fw_bus)"
  by (rule loop_reachable.start)
    (simp_all add: sample_setup_def sample_fw_bus_ok sample_fw_bus_subscribed iter_ok_rev keeps_origin_def
      sample_proto_def)

definition sample_line :: loop_state where
  "sample_line = (loop_start sample_fw_bus)\<lparr>fb_bus :=
     publish_all (su_bus sample_setup) False (tee_topics ''domain'') sample_record sample_fw_bus\<rparr>"

lemma sample_circulating: "circulating sample_record"
  by (simp add: circulating_def sample_record_def zero_record_def)

lemma sample_line_reachable: "loop_reachable sample_setup sample_line"
  using loop_reachable.step[OF sample_loop loop_step.logged[OF sample_circulating]]
  by (simp add: sample_line_def loop_start_def)



end
