(* ===== verification/Spec2Isabelle.thy ===== *)
theory Spec2Isabelle
  imports Process_Runner Site Entry_Points Grpc_Glue Node Safe_Log_Hub Log_Stream Feedback
begin

text \<open>
  A verification library for the root kernel node of this repository: the Go programs \<open>rk\<close> (the root
  kernel, \<open>src/cmd/rk\<close>) and \<open>rkctl\<close> (its command line client, \<open>src/cmd/rkctl\<close>), the platform they are built
  on (\<open>src/platform\<close>), and the domain kernels of \<open>src/kernels\<close>.

  \<^bold>\<open>The program.\<close> \<open>RunRootKernel\<close> makes an in-memory event bus and a discovery registry, registers itself,
  and starts goroutines: the degradation policy and the health aggregator, which read the registry on
  a ticker; the gRPC gateway, which hands received log records to the log hub; the admin HTTP server.
  It launches the configured domains through factories and a manager that reloads the list on
  SIGHUP. A domain is a kernel module run by a lifecycle automaton; it supervises workers and
  logs through a logger that publishes on the bus. The admin server streams these records and
  changes the health of kernels; \<open>rkctl\<close> is its client. A forwarder sends records of
  another process to the gateway, and a process runner runs domains as external processes.

  \<^bold>\<open>The theories, and the code they model\<close> (paths under \<open>src/\<close>):
  \<^item> \<open>Prelude\<close>: Go itself, as used: time, 64-bit integers, strings, maps with an arbitrary iteration
    order, channels, values of type \<open>any\<close>. \<open>Go_Float\<close>: \<open>float64\<close> with rounding.
  \<^item> \<open>Contracts\<close>: the types of \<open>platform/contracts\<close>. \<open>Telemetry\<close>: levels, records, filter and protobuf
    conversion of \<open>platform/telemetry\<close>. \<open>Std_Logger\<close>: \<open>cmd/rk/logger_gen.go\<close>, \<open>LogRecord.String\<close>.
  \<^item> \<open>Json\<close>, \<open>Json_Values\<close>: \<open>encoding/json\<close>, as used: UTF-8 and strings, values, printer and parser;
    \<open>Json_Codec\<close>: the JSON of \<open>LogRecordV2\<close> (\<open>platform/telemetry/log_v2_gen.go\<close>), of its fields in the line that
    \<open>rkctl\<close> prints, and of a manifest (\<open>Manifest.JSON\<close> in \<open>platform/contracts/contracts.go\<close>).
  \<^item> \<open>Ports\<close>: the \<open>EventBus\<close> port of \<open>platform/ports/ports.go\<close> as a locale of laws; \<open>Event_Bus\<close>:
    \<open>cmd/rk/event_bus_gen.go\<close>, which interprets it, as operations under the lock; \<open>Bus_Threads\<close>: the same bus
    with publishers that send after releasing it; \<open>Log_Ports\<close>: the clients \<open>platform/ports/tee_logger_gen.go\<close> and
    \<open>cmd/rk/log_hub_gen.go\<close>; \<open>Safe_Log_Hub\<close>: \<open>platform/telemetry/loghub_safe_gen.go\<close>.
  \<^item> \<open>Backoff\<close>: the two backoff policies of \<open>platform/runtime\<close>; \<open>Supervisor\<close>: \<open>supervisor_gen.go\<close>;
    \<open>Lifecycle\<close>: \<open>host_gen.go\<close> and \<open>fsm_gen.go\<close>; \<open>Process_Runner\<close>: \<open>process_runner_gen.go\<close>.
  \<^item> \<open>Registry\<close>: \<open>cmd/rk/discovery_registry_gen.go\<close> and the exports file beside it; \<open>Degradation\<close> and
    \<open>Degradation_Run\<close>: \<open>degradation_policy_gen.go\<close>, one tick as a function and the loop interleaved with
    the other users of the registry; \<open>Admin\<close>: the health aggregator and the handlers of
    \<open>http_admin_*_gen.go\<close>; \<open>Admin_Server\<close>: the router in front of them, \<open>Start\<close>, and the end of
    \<open>RunRootKernel\<close> and \<open>main\<close> (\<open>main_run_gen.go\<close>); \<open>Log_Stream\<close>: the life of a request to the log stream
    (\<open>http_admin_logs_gen.go\<close>) among the other users of the bus.
  \<^item> \<open>Rkctl\<close>, \<open>Http_Routes\<close>, \<open>Rkctl_Main\<close>: \<open>cmd/rkctl/main_run_gen.go\<close>: the requests, the reading and
    printing of records; the way of a URL to a route; the command line with its flags. \<open>Admin_Json\<close>: the
    bodies of the admin endpoints, with the JSON tags of kernels, health and exports. \<open>Entry_Points\<close>: the outputs
    and the exit code of \<open>rkctl\<close>, the \<open>init\<close> functions, and the skeletons \<open>cmd/rk/main.go\<close> and \<open>cmd/rkctl/main.go\<close>.
  \<^item> \<open>Config\<close>: \<open>cmd/rk/config_gen.go\<close> and the yaml reader \<open>third_party/gopkg.in/yaml.v3/yaml.go\<close>; \<open>Domains\<close>:
    \<open>domain_factory_gen.go\<close>, \<open>domain_launcher_gen.go\<close>, \<open>domain_manager_gen.go\<close>, \<open>root_kernel_gen.go\<close>;
    \<open>Site\<close>: \<open>kernels/examples/site\<close> and its factory; \<open>Node\<close>: \<open>RunRootKernel\<close> with all it starts (policy, aggregator,
    admin requests, launches, reloads), interleaved over the shared registry.
  \<^item> \<open>Gateway\<close>: \<open>cmd/rk/log_gateway_server_gen.go\<close> and the gRPC stand-in
    \<open>third_party/google.golang.org/grpc/server.go\<close>; \<open>Grpc_Glue\<close>: the generated code between the two and the
    codes, status and peer packages; \<open>Forwarder\<close>: \<open>kernels/infra/log-forwarder\<close>;
    \<open>Feedback\<close>: the forwarder, the gateway and the bus of one process as a closed system.

  \<^bold>\<open>How code becomes definitions.\<close> A struct is a record with the source's field names behind a
  short prefix, an operation under a mutex is one function of the state, and goroutines are an
  inductive step relation whose steps are the actions between two synchronisation points. Readings
  of the clock, random draws, the order of a map, the case a select takes, and what the network,
  a process or a worker function does are arguments or choices of a step; a theorem holds for
  all of them. An error is a value, a panic a result of its own. Loops are structural recursion
  on a list (the turns of a loop that waits are the list of what wakes it), so no fuel is needed; the
  JSON parser recurses on the nesting that \<open>encoding/json\<close> still allows (at most 10000) and on the text.
  Bounds are those of the code: sixteen messages per subscription, the sizes of the option
  records for the hub, the forwarder and the runner, 64-bit counters and durations.

  \<^bold>\<open>What is shown.\<close>
  \<^item> Bus and logs: a publish delivers to each live subscriber of the topic at most once and in
    order, and drops only for a full one; the operations keep the bus well formed; sending after
    the lock is released can hit a closed channel, and can not when no publisher holds a
    cancelled subscription; with any interleaving no subscription gets more than was published on its
    topic. A request to the log stream writes an interleaving of what its subscriptions deliver and
    leaves none behind, but its cancellation can make a publisher panic. The hub accounts for every
    record, keeps its rate limit and refines its specification under concurrency.
  \<^item> Runtime: the automaton refines a table of stages and visits states in order; the events of a
    worker follow its protocol, it restarts only as its policy says, the wait group is exact, and
    \<open>StopAll\<close> drains; delays stay in their window and double, until the conversion to an
    integer overflows. The process runner's logs keep their order, its readiness has a cause, and its
    panic is exactly a race the discipline of \<open>os/exec\<close> excludes.
  \<^item> Node: registry operations keep its invariant and the summary equals a maximum of severities; in
    every interleaving the root stays registered, managed domains are registered and ready, exports are
    those configured for the id, and a reload can finish and reaches the listed domains; undisturbed, it
    is the function on the manager, which leaves unchanged domains alone; the policy restores
    exports, never those of another kernel, but can lose a registration; the admin server
    changes only what a request names and ends in at most five steps after a cancellation.
  \<^item> Between components (here and in \<open>Rkctl_Main\<close>, \<open>Admin_Json\<close>, \<open>Entry_Points\<close>, \<open>Grpc_Glue\<close>,
    \<open>Feedback\<close>, \<open>Site\<close>): an operator takes a kernel out of service and back; a record goes from a domain to a terminal, its JSON reading back; a command line becomes a
    change of the registry, which the list of kernels shows; the filter flags arrive as typed; a file with a list of
    domains, such as the sample, ends \<open>rk\<close> at its start, and the exit code of \<open>rkctl\<close> tells no failure
    of a request; what a gRPC server hands to the registered method is published; in the
    root's own process a forwarder feeds itself: the records never die out and one line fills its channel.

  The interfaces are locales, each interpreted on the model of the code that provides it:
  \<open>event_bus\<close> and \<open>single_topic_bus\<close> on the in-memory bus, \<open>exports_store\<close> on the registry, \<open>backoff\<close> on
  both backoffs, \<open>reliable_module\<close> on the base module and on the site.

  \<^bold>\<open>Not modelled.\<close> What the \<open>flag\<close> package prints, the version of the Go runtime, the text of a time and the value of a
  numeral (arguments, with what is relied on as hypotheses), the end-to-end test, sockets and
  timeouts inside \<open>net/http\<close>; the \<open>RPC\<close> and \<open>Stream\<close> ports, which nothing implements; the forwarder's own warnings; the
  conversion to protobuf and the client the forwarder names, which are not in the repository. Some
  files do not compile as they stand (\<open>BackoffPolicy\<close> and \<open>WithOnEvent\<close> are declared twice in package
  \<open>runtime\<close>, the forwarder declares a method on the former from outside, the domain factory and
  manager name options of that package as if they were in \<open>ports\<close>, and with the build tags each program has two
  functions \<open>main\<close>): all declarations are
  modelled, under different names where they clash.
\<close>

section \<open>An operator takes a kernel out of service and back\<close>

text \<open>
  C1: Taking a kernel out of service and back, across the control handler, the registry, the degradation
  policy and the summary: after a drain request for a registered kernel and one tick of the
  policy, the registry offers no exports for it and the summary of the node is at least
  draining; after a restart request and one more tick its exports are offered again as they
  were, whatever the orders in which Go visits the map; no request or tick touches the
  exports of another kernel that is ready throughout.
\<close>
theorem operator_cycle:
  assumes "registry_ok r" and "CHR ''/'' \<notin> set i" and "t \<noteq> zero_time"
    and "go_get r i = Some rec" and "k_Exports rec = Some ex" and "go_get snap i = None"
    and "go_get r j = Some other" and "j \<noteq> i" and "h_Status (k_Health other) = HealthReady" and "go_get snap j = None"
    and "control_handler ''POST'' (control_prefix @ i @ ''/drain'') now t t t r = (resp1, r1)"
    and "go_range r1 ord1" and "policy_tick ord1 (snap, r1) = (snap2, r2)" and "go_range r2 ord2"
    and "control_handler ''POST'' (control_prefix @ i @ ''/restart'') now' t t t r2 = (resp3, r3)"
    and "go_range r3 ord3" and "policy_tick ord3 (snap2, r3) = (snap4, r4)"
  shows "registry_exports r2 i = Some None \<and>
    SevDraining \<le> severity_of (h_Status (aggregate_health ord2 now1 now2)) \<and>
    registry_exports r4 i = Some (copy_exports (Some ex)) \<and>
    registry_exports r2 j = Some (k_Exports other) \<and> registry_exports r4 j = Some (k_Exports other)"
proof -
  have p1: "split_on (CHR ''/'') (trim_prefix (control_prefix @ i @ ''/drain'') control_prefix) = [i, ''drain'']"
    using control_parse[OF assms(2), of "''drain''"] by simp
  have p3: "split_on (CHR ''/'') (trim_prefix (control_prefix @ i @ ''/restart'') control_prefix) = [i, ''restart'']"
    using control_parse[OF assms(2), of "''restart''"] by simp
  let ?d = "\<lparr>h_Status = HealthDraining, h_Reason = ''manual drain (placeholder)'', h_Since = now\<rparr>"
  let ?s = "\<lparr>h_Status = HealthReady, h_Reason = ''manual restart (placeholder)'', h_Since = now'\<rparr>"
  have r1: "r1 = update_health i ?d t t t r"
    using assms(11) unfolding control_handler_def p1 by (simp add: Let_def)
  have r3: "r3 = update_health i ?s t t t r2"
    using assms(15) unfolding control_handler_def p3 by (simp add: Let_def)
  have ok: "registry_ok r1" "registry_ok r2" "registry_ok r3"
    using registry_ok_update_health[OF assms(1,3)] registry_ok_tick[of "(snap, r1)" ord1]
      registry_ok_update_health[of r2 t i ?s t t] assms(3,13) by (auto simp: r1 r3)
  obtain a where a: "go_get r1 i = Some a" "h_Status (k_Health a) = HealthDraining" "k_Exports a = Some ex"
    using go_get_update_health_same[of i ?d t t t r] assms(4,5) unfolding r1 by auto
  have tick1: "registry_health r2 i = Some (k_Health a)" "registry_exports r2 i = Some None"
      "go_get snap2 i = Some (copy_exports (Some ex))"
    using tick_effect[OF ok(1) assms(12) a(1) assms(13)] a(2,3) assms(6)
    by (simp_all add: hidden_statuses_def)
  obtain b where b: "go_get r2 i = Some b" "k_Health b = k_Health a"
    using tick1(1) by (auto simp: registry_health_def)
  obtain c where c: "go_get r3 i = Some c" "h_Status (k_Health c) = HealthReady"
    using go_get_update_health_same[of i ?s t t t r2] unfolding r3 by auto
  have tick2: "registry_exports r4 i = Some (copy_exports (Some ex))"
    using tick_effect[OF ok(3) assms(16) c(1) assms(17)] c(2) tick1(3) by simp
  have j1: "go_get r1 j = Some other" using assms(7,8) by (simp add: r1)
  have j2: "registry_health r2 j = Some (k_Health other)" "registry_exports r2 j = Some (k_Exports other)"
      "go_get snap2 j = None"
    using tick_effect[OF ok(1) assms(12) j1 assms(13)] assms(9,10) by simp_all
  obtain o2 where o2: "go_get r2 j = Some o2" "k_Health o2 = k_Health other" "k_Exports o2 = k_Exports other"
    using j2 by (auto simp: registry_health_def registry_exports_def)
  have j3: "go_get r3 j = Some o2" using o2(1) assms(8) by (simp add: r3)
  have "registry_exports r4 j = Some (k_Exports other)"
    using tick_effect[OF ok(3) assms(16) j3 assms(17)] o2 assms(9) j2(3) by simp
  moreover have "SevDraining \<le> severity_of (h_Status (aggregate_health ord2 now1 now2))"
    using summary_at_least[OF b(1) assms(14), of now1 now2] a(2) b(2)
    by (simp add: rec_severity_def severity_of_def)
  ultimately show ?thesis using tick1(2) tick2 j2(2) by simp
qed

definition sample_root :: kernel_record where
  "sample_root = zero_kernel_record\<lparr>k_ID := ''rk'', k_Manifest := demo_manifest ''rk'',
     k_Health := \<lparr>h_Status = HealthReady, h_Reason = [], h_Since = 5\<rparr>, k_RegisteredAt := 1\<rparr>"

theorem operator_cycle_witness:
  "\<exists>r2 r4. registry_exports r2 ''site'' = Some None \<and>
     registry_exports r4 ''site'' = Some (Some (some_exports '':8081''))"
proof -
  let ?r = "(''rk'', sample_root) # exporting_registry HealthReady"
  have ok: "registry_ok ?r"
    by (auto simp: registry_ok_def exporting_registry_def sample_root_def go_map_def zero_time_def
        split: if_splits)
  have rk: "go_get ?r ''rk'' = Some sample_root" "h_Status (k_Health sample_root) = HealthReady"
    by (simp_all add: sample_root_def)
  obtain rec where rec: "go_get ?r ''site'' = Some rec" "k_Exports rec = Some (some_exports '':8081'')"
    using exporting_registry_get by auto
  obtain resp1 r1 where h1: "control_handler ''POST'' (control_prefix @ ''site'' @ ''/drain'') 6 6 6 6 ?r = (resp1, r1)"
    by fastforce
  obtain snap2 r2 where t1: "policy_tick r1 ([], r1) = (snap2, r2)" by fastforce
  obtain resp3 r3 where h3: "control_handler ''POST'' (control_prefix @ ''site'' @ ''/restart'') 7 6 6 6 r2 = (resp3, r3)"
    by fastforce
  obtain snap4 r4 where t2: "policy_tick r3 (snap2, r3) = (snap4, r4)" by fastforce
  have "copy_exports (Some (some_exports '':8081'')) = Some (some_exports '':8081'')"
    by (simp add: copy_exports_def some_exports_def copy_slice_def)
  then show ?thesis
    using operator_cycle[OF ok _ _ rec _ rk(1) _ rk(2) _ h1 go_range_refl t1 go_range_refl h3
        go_range_refl t2] by (auto simp: zero_time_def)
qed

section \<open>A record from a domain to the operator's terminal\<close>

text \<open>One call of the logger with its arguments, and the record it makes.\<close>

type_synonym log_call = "string \<times> string \<times> any_map \<times> gotime"

definition call_record :: "'w tee_logger \<Rightarrow> log_call \<Rightarrow> log_record_v2" where
  "call_record l c = (case c of (lv, msg, flds, now) \<Rightarrow> tee_record l lv msg flds now)"

definition log_calls :: "'w tee_logger \<Rightarrow> log_call list \<Rightarrow> 'w \<Rightarrow> 'w" where
  "log_calls l cs w = foldl (\<lambda>w (lv, msg, flds, now). tee_log (Some l) False lv msg flds now w) w cs"

text \<open>The logger of a domain on the bus of the root kernel, whose messages have any type.\<close>

definition domain_logger ::
  "((nat, nat) gomap \<Rightarrow> (nat, nat) gomap) \<Rightarrow> bool list \<Rightarrow> string \<Rightarrow> string \<Rightarrow> string \<Rightarrow> bus_msg bus tee_logger" where
  "domain_logger iter choice kid scope cmp =
     new_tee_logger (Some (\<lambda>ctx t m. bus_publisher iter choice ctx t (MsgLog m))) kid scope cmp []"

lemma domain_log_call:
  "tee_log (Some (domain_logger iter choice kid scope cmp)) False lv msg flds now b =
     publish_all (bus_publisher iter choice) False (tee_topics scope)
       (MsgLog (tee_record (domain_logger iter choice kid scope cmp) lv msg flds now)) b"
  by (simp add: tee_log_def domain_logger_def new_tee_logger_def Let_def
      publish_all_wrap[where g = MsgLog and pub = "bus_publisher iter choice"])

lemma log_calls_queue:
  assumes "bus_ok b" and "iter_ok iter" and "i \<in> subscribed b topic_logs_all"
    and "length (bus_queue b i) + length cs \<le> 16"
  shows "bus_queue (log_calls (domain_logger iter choice kid scope cmp) cs b) i =
    bus_queue b i @ map (\<lambda>c. MsgLog (call_record (domain_logger iter choice kid scope cmp) c)) cs"
  using assms
proof (induction cs arbitrary: b)
  case (Cons c cs)
  obtain lv msg flds now where c: "c = (lv, msg, flds, now)" by (cases c)
  let ?l = "domain_logger iter choice kid scope cmp"
  let ?m = "MsgLog (call_record ?l c)"
  let ?b = "publish_all (bus_publisher iter choice) False (tee_topics scope) ?m b"
  have inv: "bus_ok ?b" "bus_topics ?b = bus_topics b"
    using memory_bus.invar_all[of b iter choice False "tee_topics scope" ?m]
      memory_bus.topics_all[of b iter choice False "tee_topics scope" ?m] Cons.prems(1,2) by auto
  have all: "topic_logs_all \<in> set (tee_topics scope)" "topic_logs_all \<in> bus_topics b i"
    using Cons.prems(3) by (auto simp: tee_topics_def topic_logs_all_def bus_topics_def)
  have q: "bus_queue ?b i = bus_queue b i @ [?m]"
    using memory_bus.distinct_topics_queue[of b iter "tee_topics scope" choice ?m i]
      Cons.prems(1,2,4) distinct_tee_topics[of scope] all by auto
  have "i \<in> subscribed ?b topic_logs_all" using all(2) inv(2) by (simp add: bus_topics_def set_eq_iff fun_eq_iff)
  then have "bus_queue (log_calls ?l cs ?b) i =
      bus_queue ?b i @ map (\<lambda>c. MsgLog (call_record ?l c)) cs"
    using Cons.IH[of ?b] inv(1) Cons.prems(2,4) q by simp
  then show ?case using q by (simp add: log_calls_def c domain_log_call call_record_def)
qed (simp add: log_calls_def)

lemma passed_queue:
  "passed f (map (\<lambda>m. FromAll (Some m)) (map (\<lambda>c. MsgLog (g c)) cs)) = filter (match_v2 f) (map g cs)"
  by (induction cs) (simp_all add: passed_def map_filter_simps)

lemma logs_reach_decoder:
  assumes "bus_ok b" and "iter_ok iter" and "bus_subscribe ''telemetry.logs'' b = (b1, i)"
    and "length cs \<le> 16" and "CHR 0x0A \<notin> set hello"
    and "\<And>c. c \<in> set cs \<Longrightarrow> CHR 0x0A \<notin> set (enc (call_record (domain_logger iter choice kid scope cmp) c)) \<and>
      dec (trim_space (enc (call_record (domain_logger iter choice kid scope cmp) c))) =
        Some (nrm (call_record (domain_logger iter choice kid scope cmp) c))"
  shows "client_records dec (concat (map render (stream_run enc hello f
      (map (\<lambda>m. FromAll (Some m)) (bus_queue (log_calls (domain_logger iter choice kid scope cmp) cs b1) i))))) =
    (case dec (trim_space hello) of None \<Rightarrow> [] | Some rec \<Rightarrow> [rec]) @
      map nrm (filter (match_v2 f) (map (call_record (domain_logger iter choice kid scope cmp)) cs))"
proof -
  let ?g = "call_record (domain_logger iter choice kid scope cmp)"
  have b1: "bus_ok b1" using assms(1,3) by (metis bus_ok_subscribe fst_conv)
  have sub: "i \<in> subscribed b1 topic_logs_all" and e: "bus_queue b1 i = []"
    using assms(3) by (auto simp: bus_subscribe_def Let_def subscribed_def topic_subs_def bus_queue_def
        topic_logs_all_def)
  have q: "bus_queue (log_calls (domain_logger iter choice kid scope cmp) cs b1) i = map (\<lambda>c. MsgLog (?g c)) cs"
    using log_calls_queue[OF b1 assms(2) sub, of cs choice kid scope cmp] assms(4) e by simp
  have "client_records dec (concat (map render (concat (map (stream_turn enc f)
      (map (\<lambda>m. FromAll (Some m)) (map (\<lambda>c. MsgLog (?g c)) cs)))))) =
      map nrm (passed f (map (\<lambda>m. FromAll (Some m)) (map (\<lambda>c. MsgLog (?g c)) cs)))"
    by (rule client_stream) (use assms(6) passed_queue[of f ?g cs] in auto)
  then show ?thesis
    unfolding stream_run_def q list.map(2) concat.simps(2) passed_queue
    using client_event[OF _ assms(5), of "''hello''"] by simp
qed

text \<open>
  What the standard library is used for on a call: the text of its time is valid UTF-8 and reads back, its
  numbers come back as themselves, and its fields are not nested beyond the parser's limit.
\<close>

definition call_fits ::
  "(gotime \<Rightarrow> string option) \<Rightarrow> (string \<Rightarrow> gotime option) \<Rightarrow> (string \<Rightarrow> any option) \<Rightarrow> log_call \<Rightarrow> bool" where
  "call_fits ft pt num c = (case c of (lv, msg, flds, now) \<Rightarrow>
     (case ft now of None \<Rightarrow> False | Some ts \<Rightarrow> to_valid ts = ts \<and> pt ts = Some now) \<and> fields_fit num flds)"

lemma call_record_level: "in_int64 (l_Level (call_record l c))"
  by (cases c) (simp add: call_record_def tee_record_def tee_level_def Let_def level_defs in_int64_def)

lemma call_reads_back:
  assumes "call_fits ft pt num c"
  shows "CHR 0x0A \<notin> set (encode_record ft (call_record l c)) \<and>
    decode_record pt num (trim_space (encode_record ft (call_record l c))) = Some (wire_record (call_record l c))"
proof -
  obtain lv msg flds now where c: "c = (lv, msg, flds, now)" by (cases c)
  have r: "l_Time (call_record l c) = now" by (simp add: c call_record_def tee_record_def)
  obtain ts where ts: "ft now = Some ts" "to_valid ts = ts" "pt ts = Some now" "fields_fit num flds"
    using assms by (auto simp: call_fits_def c split: option.splits)
  have "fields_fit num (l_Fields (call_record l c))"
    using ts(4) by (auto simp: c call_record_def tee_record_def fields_fit_def split: option.splits list.splits)
  then show ?thesis
    by (intro record_encoding[of ft _ ts]) (simp_all add: r ts call_record_level)
qed



end
